(* ===== verification/Go_Prelude.thy ===== *)
theory Go_Prelude
  imports Main "HOL-Library.AList" "HOL-Library.Char_ord" "HOL-Library.List_Lexorder"
    "HOL-Library.Multiset" "HOL-Library.Word"
begin

text \<open>
  What the components share: the part of the Go language and of its standard library that the
  modelled code uses, and the generic lemmas on lists and association lists the component proofs
  apply.

  \<^item> A Go string is a list of bytes, \<^typ>\<open>string\<close>; \<open><\<close> on strings is the bytewise order, which
    is the lexicographic order of \<open>List_Lexorder\<close> over the order of \<open>Char_ord\<close>.
  \<^item> A Go map is an association list with distinct keys. The order of the list is the order in
    which one \<open>range\<close> loop visits the entries, which Go leaves open: a statement for every list
    is a statement for every iteration order, and two lists with the same \<^const>\<open>map_of\<close> are
    the same map visited in two orders.
  \<^item> A nil pointer, a nil interface and the second result of a map lookup are \<^typ>\<open>'a option\<close>;
    a result with an error is a sum whose left side is the error.
  \<^item> \<open>time.Time\<close> and \<open>time.Duration\<close> are integers (nanoseconds), the zero \<open>time.Time\<close> is 0;
    an operation that reads the clock takes the value it reads as its argument \<open>now\<close>.
\<close>

section \<open>Types and collections\<close>

type_synonym gotime = int
type_synonym duration = int
type_synonym ('k, 'v) gomap = "('k \<times> 'v) list"

text \<open>Values of \<open>map[string]any\<close> and configuration payloads the modelled code only carries.\<close>

datatype json = JNull | JBool bool | JNumber string | JString string
  | JArray "json list" | JObject "(string \<times> json) list"

named_theorems gomap_simps \<open>lookup after insert, delete and append on association lists\<close>
named_theorems inv_intros \<open>operations that keep a component's invariant\<close>

definition gomap_ok :: "('k, 'v) gomap \<Rightarrow> bool" where
  "gomap_ok m \<longleftrightarrow> distinct (map fst m)"

definition same_gomap :: "('k, 'v) gomap \<Rightarrow> ('k, 'v) gomap \<Rightarrow> bool" where
  "same_gomap m m' \<longleftrightarrow> gomap_ok m \<and> gomap_ok m' \<and> set m = set m'"

section \<open>Strings\<close>

fun has_prefix :: "string \<Rightarrow> string \<Rightarrow> bool" where
  "has_prefix s [] = True"
| "has_prefix [] (p # ps) = False"
| "has_prefix (c # cs) (p # ps) = (c = p \<and> has_prefix cs ps)"

text \<open>\<open>strings.Contains\<close>\<close>

fun str_contains :: "string \<Rightarrow> string \<Rightarrow> bool" where
  "str_contains [] sub = (sub = [])"
| "str_contains (c # cs) sub = (has_prefix (c # cs) sub \<or> str_contains cs sub)"

text \<open>\<open>strings.ToLower\<close> on ASCII letters.\<close>

definition to_lower_char :: "char \<Rightarrow> char" where
  "to_lower_char c = (let n = (of_char c :: nat) in
     if 65 \<le> n \<and> n \<le> 90 then char_of (n + 32) else c)"

definition to_lower :: "string \<Rightarrow> string" where
  "to_lower s = map to_lower_char s"

text \<open>
  \<open>strings.ReplaceAll\<close> for a nonempty pattern, scanning left to right without overlap: the
  third argument counts the bytes of the current occurrence still to be skipped.
\<close>

fun replace_skip :: "string \<Rightarrow> string \<Rightarrow> nat \<Rightarrow> string \<Rightarrow> string" where
  "replace_skip old new n [] = []"
| "replace_skip old new (Suc n) (c # cs) = replace_skip old new n cs"
| "replace_skip old new 0 (c # cs) =
     (if has_prefix (c # cs) old then new @ replace_skip old new (length old - 1) cs
      else c # replace_skip old new 0 cs)"

definition replace_all :: "string \<Rightarrow> string \<Rightarrow> string \<Rightarrow> string" where
  "replace_all s old new = replace_skip old new 0 s"

text \<open>\<open>strings.Index\<close> of a one-byte separator, as the parts before and after it.\<close>

fun split_at :: "char \<Rightarrow> string \<Rightarrow> (string \<times> string) option" where
  "split_at d [] = None"
| "split_at d (c # cs) = (if c = d then Some ([], cs)
     else (case split_at d cs of None \<Rightarrow> None | Some (a, b) \<Rightarrow> Some (c # a, b)))"

text \<open>\<open>%d\<close>\<close>

fun show_nat :: "nat \<Rightarrow> string" where
  "show_nat n = (if n < 10 then [char_of (48 + n)]
     else show_nat (n div 10) @ [char_of (48 + n mod 10)])"

declare show_nat.simps [simp del]

definition show_int :: "int \<Rightarrow> string" where
  "show_int i = (if i < 0 then CHR ''-'' # show_nat (nat (- i)) else show_nat (nat i))"

lemma has_prefix_iff: "has_prefix s p \<longleftrightarrow> (\<exists>t. s = p @ t)"
  by (induction s p rule: has_prefix.induct) auto

lemma split_at_Some:
  "split_at d s = Some (a, b) \<Longrightarrow> s = a @ d # b \<and> d \<notin> set a"
  by (induction s arbitrary: a) (auto split: if_splits option.splits)

lemma split_at_append [simp]:
  "d \<notin> set a \<Longrightarrow> split_at d (a @ d # b) = Some (a, b)"
  by (induction a) auto

lemma split_at_None: "split_at d s = None \<longleftrightarrow> d \<notin> set s"
  by (induction s) (auto split: option.splits)

section \<open>Association lists\<close>

lemma map_of_update [simp, gomap_simps]:
  "map_of (AList.update k v m) = (map_of m)(k \<mapsto> v)"
  by (rule update_conv')

lemma map_of_delete [simp, gomap_simps]:
  "map_of (AList.delete k m) = (map_of m)(k := None)"
  by (rule delete_conv')

lemma gomap_ok_Nil [simp]: "gomap_ok []"
  by (simp add: gomap_ok_def)

lemma gomap_ok_update [simp, inv_intros]: "gomap_ok m \<Longrightarrow> gomap_ok (AList.update k v m)"
  by (simp add: gomap_ok_def distinct_update)

lemma gomap_ok_delete [simp, inv_intros]: "gomap_ok m \<Longrightarrow> gomap_ok (AList.delete k m)"
  by (simp add: gomap_ok_def distinct_delete)

lemma gomap_ok_lookup: "gomap_ok m \<Longrightarrow> (k, v) \<in> set m \<longleftrightarrow> map_of m k = Some v"
  by (auto simp: gomap_ok_def map_of_eq_Some_iff)

lemma same_gomap_map_of: "same_gomap m m' \<Longrightarrow> map_of m = map_of m'"
  by (rule map_of_eqI) (auto simp: same_gomap_def gomap_ok_def map_of_eq_Some_iff
      intro!: map_of_eqI)

lemma find_Some: "find P es = Some e \<Longrightarrow> e \<in> set es \<and> P e"
  by (induction es) (auto split: if_splits)

lemma find_append: "find P (xs @ ys) = (case find P xs of None \<Rightarrow> find P ys | Some x \<Rightarrow> Some x)"
  by (induction xs) auto

lemma find_unique_iff:
  assumes "\<And>e e'. e \<in> set es \<Longrightarrow> e' \<in> set es \<Longrightarrow> P e \<Longrightarrow> P e' \<Longrightarrow> e' = e"
  shows "find P es = Some e \<longleftrightarrow> e \<in> set es \<and> P e"
proof
  assume e: "e \<in> set es \<and> P e"
  then obtain e' where "find P es = Some e'" by (cases "find P es") (auto simp: find_None_iff)
  then show "find P es = Some e" using find_Some [of P es e'] assms [of e e'] e by simp
qed (rule find_Some)

lemma distinct_keys_unique:
  "distinct (map f xs) \<Longrightarrow> x \<in> set xs \<Longrightarrow> y \<in> set xs \<Longrightarrow> f x = f y \<Longrightarrow> x = y"
  by (induction xs) (auto simp: rev_image_eqI)

lemma update_new: "k \<notin> fst ` set m \<Longrightarrow> AList.update k v m = m @ [(k, v)]"
  by (induction m) auto

lemma separator_unique:
  "c \<notin> set b \<Longrightarrow> c \<notin> set b' \<Longrightarrow> b @ c # k = b' @ c # k' \<Longrightarrow> b = b' \<and> k = k'"
proof (induction b arbitrary: b')
  case Nil
  then show ?case by (cases b') auto
next
  case (Cons x b)
  then show ?case by (cases b') auto
qed

section \<open>Decimal notation\<close>

lemma show_nat_nonempty [simp]: "show_nat n \<noteq> []"
  by (subst show_nat.simps) simp

lemma digit_inj: "a < 10 \<Longrightarrow> b < 10 \<Longrightarrow> (char_of (48 + a) :: char) = char_of (48 + b) \<Longrightarrow> a = (b :: nat)"
proof -
  assume ab: "a < 10" "b < 10" and eq: "(char_of (48 + a) :: char) = char_of (48 + b)"
  have "of_char (char_of (48 + a) :: char) = (of_char (char_of (48 + b) :: char) :: nat)" using eq by simp
  then show ?thesis using ab by (simp add: of_char_of del: char_of_eq_iff)
qed

lemma show_nat_inj: "show_nat n = show_nat m \<Longrightarrow> n = m"
proof (induction n arbitrary: m rule: less_induct)
  case (less n)
  consider "n < 10" "m < 10" | "n < 10" "\<not> m < 10" | "\<not> n < 10" "m < 10" | "\<not> n < 10" "\<not> m < 10" by blast
  then show ?case
  proof cases
    case 1
    then show ?thesis using less.prems digit_inj [of n m] by (simp add: show_nat.simps)
  next
    case 2
    then have "[] = show_nat (m div 10)" using less.prems by (simp add: show_nat.simps [of n] show_nat.simps [of m])
    then show ?thesis using show_nat_nonempty [of "m div 10"] by metis
  next
    case 3
    then show ?thesis using less.prems by (simp add: show_nat.simps [of n] show_nat.simps [of m])
  next
    case 4
    then have eq: "show_nat (n div 10) = show_nat (m div 10)" "n mod 10 = m mod 10"
      using less.prems digit_inj [of "n mod 10" "m mod 10"] by (simp_all add: show_nat.simps [of n] show_nat.simps [of m])
    then have "n div 10 = m div 10" using less.IH [of "n div 10"] 4 by simp
    then show ?thesis using eq(2) by (metis div_mult_mod_eq)
  qed
qed

lemma gomap_ok_filter [simp]: "gomap_ok m \<Longrightarrow> gomap_ok (filter P m)"
  by (simp add: gomap_ok_def distinct_map_filter)

lemma map_of_filter_ok: "gomap_ok m \<Longrightarrow> map_of (filter P m) k = (case map_of m k of None \<Rightarrow> None | Some v \<Rightarrow> if P (k, v) then Some v else None)"
  by (induction m) (auto simp: gomap_ok_def map_of_eq_None_iff image_iff split: option.split)

end
