(* ===== verification/Vmcp_Types.thy ===== *)
theory Vmcp_Types
  imports Go_Prelude
begin

text \<open>
  The shared domain types of \<open>pkg/vmcp\<close> (\<open>types.go\<close>), its sentinel errors and the string based
  error categories of \<open>errors.go\<close>. Pointer fields are options, maps are association lists, the
  configuration payloads that no modelled function reads are JSON documents.
\<close>

section \<open>Errors\<close>

text \<open>
  An error value is the sentinels its wrapping chain contains, as \<open>errors.Is\<close> sees them, and the
  text \<open>Error()\<close> returns.
\<close>

datatype sentinel = ErrNotFound | ErrInvalidConfig | ErrAuthenticationFailed
  | ErrAuthorizationFailed | ErrWorkflowFailed | ErrTimeout | ErrCancelled | ErrInvalidInput
  | ErrUnsupportedTransport | ErrToolExecutionFailed | ErrBackendUnavailable
  | ErrToolNameConflict | ErrNoBackendsFound | ErrBackendQueryFailed | ErrUnresolvedConflicts
  | ErrInvalidConflictStrategy | ErrToolNotFound | ErrResourceNotFound | ErrPromptNotFound
  | ErrCircularDependency | ErrTemplateExpansion | ErrToolCallFailed | ErrWorkflowTimeout | ErrWorkflowNotFound
  | ErrElicitationTimeout | ErrElicitationDeclined | ErrElicitationCancelled
  | context_Canceled | context_DeadlineExceeded

record goerror =
  err_chain :: "sentinel list"
  err_text :: string

definition errors_Is :: "goerror \<Rightarrow> sentinel \<Rightarrow> bool" where
  "errors_Is e s \<longleftrightarrow> s \<in> set (err_chain e)"

text \<open>\<open>fmt.Errorf\<close> without and with the wrapping verb.\<close>

definition new_error :: "string \<Rightarrow> goerror" where
  "new_error t = \<lparr>err_chain = [], err_text = t\<rparr>"

definition wrap_error :: "string \<Rightarrow> goerror \<Rightarrow> goerror" where
  "wrap_error t e = \<lparr>err_chain = err_chain e, err_text = t @ err_text e\<rparr>"

definition IsAuthenticationError :: "goerror option \<Rightarrow> bool" where
  "IsAuthenticationError err = (case err of None \<Rightarrow> False | Some e \<Rightarrow>
     (let errLower = to_lower (err_text e) in
      if str_contains errLower ''authentication failed''
         \<or> str_contains errLower ''authentication error'' then True
      else if str_contains errLower ''401 unauthorized''
         \<or> str_contains errLower ''unauthorized (401)''
         \<or> str_contains errLower ''403 forbidden''
         \<or> str_contains errLower ''http 401''
         \<or> str_contains errLower ''http 403''
         \<or> str_contains errLower ''status code 401''
         \<or> str_contains errLower ''status code 403'' then True
      else if str_contains errLower ''request unauthenticated''
         \<or> str_contains errLower ''request unauthorized''
         \<or> str_contains errLower ''access denied'' then True
      else if str_contains errLower ''authorization required'' then True
      else False))"

definition IsTimeoutError :: "goerror option \<Rightarrow> bool" where
  "IsTimeoutError err = (case err of None \<Rightarrow> False | Some e \<Rightarrow>
     (let errLower = to_lower (err_text e) in
      str_contains errLower ''timeout''
      \<or> str_contains errLower ''deadline exceeded''
      \<or> str_contains errLower ''context deadline exceeded''))"

definition networkPatterns :: "string list" where
  "networkPatterns = [''connection refused'', ''connection reset'', ''no route to host'',
     ''network is unreachable'', ''broken pipe'', ''connection closed'']"

definition httpErrorPatterns :: "string list" where
  "httpErrorPatterns = [''500 internal server error'', ''502 bad gateway'',
     ''503 service unavailable'', ''504 gateway timeout'',
     ''status code 500'', ''status code 502'', ''status code 503'', ''status code 504'']"

definition IsConnectionError :: "goerror option \<Rightarrow> bool" where
  "IsConnectionError err = (case err of None \<Rightarrow> False | Some e \<Rightarrow>
     (let errStr = err_text e; errLower = to_lower errStr in
      if list_ex (str_contains errLower) networkPatterns then True
      else if str_contains errStr ''EOF'' then True
      else if list_ex (str_contains errLower) httpErrorPatterns then True
      else False))"

section \<open>Backends\<close>

record HeaderForwardConfig =
  hf_AddPlaintextHeaders :: "(string, string) gomap"
  hf_AddHeadersFromSecret :: "(string, string) gomap"

record BackendAuthStrategy =
  auth_Type :: string
  auth_HeaderInjection :: "json option"
  auth_TokenExchange :: "json option"
  auth_UpstreamInject :: "json option"
  auth_AwsSts :: "json option"
  auth_OBO :: "json option"
  auth_XAA :: "json option"

definition StrategyTypeUnauthenticated :: string where
  "StrategyTypeUnauthenticated = ''unauthenticated''"

text \<open>
  The constants of the string type \<open>BackendHealthStatus\<close>; \<open>NoHealthStatus\<close> is the zero value \<open>""\<close>.
\<close>

datatype BackendHealthStatus = BackendHealthy | BackendDegraded | BackendUnhealthy
  | BackendUnknown | BackendUnauthenticated | NoHealthStatus

fun health_string :: "BackendHealthStatus \<Rightarrow> string" where
  "health_string BackendHealthy = ''healthy''"
| "health_string BackendDegraded = ''degraded''"
| "health_string BackendUnhealthy = ''unhealthy''"
| "health_string BackendUnknown = ''unknown''"
| "health_string BackendUnauthenticated = ''unauthenticated''"
| "health_string NoHealthStatus = ''''"

fun ToCRDStatus :: "BackendHealthStatus \<Rightarrow> string" where
  "ToCRDStatus BackendHealthy = ''ready''"
| "ToCRDStatus BackendDegraded = ''degraded''"
| "ToCRDStatus BackendUnhealthy = ''unavailable''"
| "ToCRDStatus BackendUnauthenticated = ''unauthenticated''"
| "ToCRDStatus BackendUnknown = ''unknown''"
| "ToCRDStatus NoHealthStatus = ''unknown''"

datatype Phase = PhasePending | PhaseReady | PhaseDegraded | PhaseFailed

record Backend =
  b_ID :: string
  b_Name :: string
  b_BaseURL :: string
  b_TransportType :: string
  b_Type :: string
  b_CABundlePath :: string
  b_CABundleData :: string
  b_HealthStatus :: BackendHealthStatus
  b_AuthConfig :: "BackendAuthStrategy option"
  b_AuthConfigRef :: string
  b_HeaderForward :: "HeaderForwardConfig option"
  b_Metadata :: "(string, string) gomap"

record BackendTarget =
  t_WorkloadID :: string
  t_WorkloadName :: string
  t_BaseURL :: string
  t_TransportType :: string
  t_CABundlePath :: string
  t_CABundleData :: string
  t_OriginalCapabilityName :: string
  t_AuthConfig :: "BackendAuthStrategy option"
  t_SessionAffinity :: bool
  t_HealthStatus :: BackendHealthStatus
  t_HeaderForward :: "HeaderForwardConfig option"
  t_Metadata :: "(string, string) gomap"

text \<open>The Go zero value of \<open>BackendTarget\<close>, from which composite literals are built.\<close>

definition zero_BackendTarget :: BackendTarget where
  "zero_BackendTarget = \<lparr>t_WorkloadID = '''', t_WorkloadName = '''', t_BaseURL = '''',
     t_TransportType = '''', t_CABundlePath = '''', t_CABundleData = '''',
     t_OriginalCapabilityName = '''', t_AuthConfig = None, t_SessionAffinity = False,
     t_HealthStatus = NoHealthStatus, t_HeaderForward = None, t_Metadata = []\<rparr>"

definition GetBackendCapabilityName :: "BackendTarget \<Rightarrow> string \<Rightarrow> string" where
  "GetBackendCapabilityName t resolvedName =
     (if t_OriginalCapabilityName t \<noteq> '''' then t_OriginalCapabilityName t else resolvedName)"

definition BackendToTarget :: "Backend option \<Rightarrow> BackendTarget option" where
  "BackendToTarget backend = (case backend of None \<Rightarrow> None | Some b \<Rightarrow>
     Some (zero_BackendTarget\<lparr>t_WorkloadID := b_ID b, t_WorkloadName := b_Name b,
       t_BaseURL := b_BaseURL b, t_TransportType := b_TransportType b,
       t_CABundlePath := b_CABundlePath b, t_CABundleData := b_CABundleData b,
       t_AuthConfig := b_AuthConfig b, t_SessionAffinity := False,
       t_HealthStatus := b_HealthStatus b, t_HeaderForward := b_HeaderForward b,
       t_Metadata := b_Metadata b\<rparr>))"

section \<open>Capabilities\<close>

record ToolAnnotations =
  ta_Title :: string
  ta_ReadOnlyHint :: "bool option"
  ta_DestructiveHint :: "bool option"
  ta_IdempotentHint :: "bool option"
  ta_OpenWorldHint :: "bool option"

record Tool =
  tool_Name :: string
  tool_Description :: string
  tool_InputSchema :: "(string \<times> json) list"
  tool_OutputSchema :: "(string \<times> json) list"
  tool_Annotations :: "ToolAnnotations option"
  tool_BackendID :: string

record Resource =
  res_URI :: string
  res_Name :: string
  res_Description :: string
  res_MimeType :: string
  res_BackendID :: string

record ResourceTemplate =
  rt_URITemplate :: string
  rt_Name :: string
  rt_Description :: string
  rt_MimeType :: string
  rt_BackendID :: string

record PromptArgument =
  pa_Name :: string
  pa_Description :: string
  pa_Required :: bool

record Prompt =
  p_Name :: string
  p_Description :: string
  p_Arguments :: "PromptArgument list"
  p_BackendID :: string

record CapabilityList =
  cl_Tools :: "Tool list"
  cl_Resources :: "Resource list"
  cl_ResourceTemplates :: "ResourceTemplate list"
  cl_Prompts :: "Prompt list"
  cl_SupportsLogging :: bool
  cl_SupportsSampling :: bool

record RoutingTable =
  rtab_Tools :: "(string, BackendTarget) gomap"
  rtab_Resources :: "(string, BackendTarget) gomap"
  rtab_ResourceTemplates :: "(string, BackendTarget) gomap"
  rtab_Prompts :: "(string, BackendTarget) gomap"

datatype ConflictResolutionStrategy = ConflictStrategyPrefix | ConflictStrategyPriority
  | ConflictStrategyManual | ConflictStrategyOther string

section \<open>Lemmas\<close>

lemma BackendToTarget_simps:
  "BackendToTarget None = None"
  "\<exists>t. BackendToTarget (Some b) = Some t \<and> t_WorkloadID t = b_ID b \<and> t_BaseURL t = b_BaseURL b
     \<and> t_AuthConfig t = b_AuthConfig b \<and> t_OriginalCapabilityName t = ''''"
  by (simp_all add: BackendToTarget_def zero_BackendTarget_def)

lemma errors_Is_wrap [simp]: "errors_Is (wrap_error t e) s = errors_Is e s"
  by (simp add: errors_Is_def wrap_error_def)

lemma str_contains_append: "str_contains s sub \<Longrightarrow> str_contains (p @ s) sub"
  by (induction p) auto

lemma to_lower_append: "to_lower (a @ b) = to_lower a @ to_lower b"
  by (simp add: to_lower_def)

text \<open>Wrapping an error with a message prefix keeps the text based categories.\<close>

lemma wrap_keeps_categories:
  "IsAuthenticationError (Some e) \<Longrightarrow> IsAuthenticationError (Some (wrap_error t e))"
  "IsTimeoutError (Some e) \<Longrightarrow> IsTimeoutError (Some (wrap_error t e))"
  by (auto simp: IsAuthenticationError_def IsTimeoutError_def wrap_error_def Let_def
      to_lower_append str_contains_append split: if_splits)

end
