(* ===== verification/Circuit_Breaker.thy ===== *)
theory Circuit_Breaker
  imports Vmcp_Types
begin

text \<open>
  The circuit breaker of \<open>pkg/vmcp/health/circuit_breaker.go\<close>: the mutable breaker, the no-op
  breaker used when the feature is off, and the interface \<open>CircuitBreaker\<close> both implement.
  Every method runs under the breaker's mutex, so a run of the breaker is a sequence of these
  operations, each with the clock value it reads. The locale \<open>breaker\<close> is the contract the status
  tracker relies on; it is interpreted for both implementations and for the interface value.
\<close>

section \<open>State and operations\<close>

datatype CircuitState = CircuitClosed | CircuitOpen | CircuitHalfOpen

fun circuit_string :: "CircuitState \<Rightarrow> string" where
  "circuit_string CircuitClosed = ''closed''"
| "circuit_string CircuitOpen = ''open''"
| "circuit_string CircuitHalfOpen = ''half-open''"

record circuitBreaker =
  cb_name :: string
  cb_state :: CircuitState
  cb_failureCount :: int
  cb_failureThreshold :: int
  cb_timeout :: duration
  cb_lastStateChange :: gotime
  cb_lastFailureTime :: gotime
  cb_halfOpenTestInProgress :: bool

definition newCircuitBreaker :: "int \<Rightarrow> duration \<Rightarrow> string \<Rightarrow> gotime \<Rightarrow> circuitBreaker" where
  "newCircuitBreaker failureThreshold timeout name now =
     \<lparr>cb_name = name, cb_state = CircuitClosed, cb_failureCount = 0,
      cb_failureThreshold = failureThreshold, cb_timeout = timeout,
      cb_lastStateChange = now, cb_lastFailureTime = 0, cb_halfOpenTestInProgress = False\<rparr>"

definition transitionTo :: "CircuitState \<Rightarrow> gotime \<Rightarrow> circuitBreaker \<Rightarrow> circuitBreaker" where
  "transitionTo newState now cb = cb\<lparr>cb_state := newState, cb_lastStateChange := now\<rparr>"

definition cb_RecordSuccess :: "gotime \<Rightarrow> circuitBreaker \<Rightarrow> circuitBreaker" where
  "cb_RecordSuccess now cb =
     (let cb1 = cb\<lparr>cb_failureCount := 0, cb_halfOpenTestInProgress := False\<rparr>
      in if cb_state cb1 \<noteq> CircuitClosed then transitionTo CircuitClosed now cb1 else cb1)"

definition cb_RecordFailure :: "gotime \<Rightarrow> circuitBreaker \<Rightarrow> circuitBreaker" where
  "cb_RecordFailure now cb =
     (let cb1 = cb\<lparr>cb_failureCount := cb_failureCount cb + 1, cb_lastFailureTime := now,
                  cb_halfOpenTestInProgress := False\<rparr>
      in if cb_state cb1 = CircuitClosed \<and> cb_failureCount cb1 \<ge> cb_failureThreshold cb1
         then transitionTo CircuitOpen now cb1
         else if cb_state cb1 = CircuitHalfOpen then transitionTo CircuitOpen now cb1
         else cb1)"

definition tryTransitionOpenToHalfOpen :: "gotime \<Rightarrow> circuitBreaker \<Rightarrow> circuitBreaker \<times> bool" where
  "tryTransitionOpenToHalfOpen now cb =
     (if cb_state cb = CircuitOpen \<and> now - cb_lastStateChange cb \<ge> cb_timeout cb
      then (transitionTo CircuitHalfOpen now cb, True) else (cb, False))"

definition cb_CanAttempt :: "gotime \<Rightarrow> circuitBreaker \<Rightarrow> circuitBreaker \<times> bool" where
  "cb_CanAttempt now cb = (case cb_state cb of
       CircuitClosed \<Rightarrow> (cb, True)
     | CircuitOpen \<Rightarrow> (case tryTransitionOpenToHalfOpen now cb of (cb1, moved) \<Rightarrow>
         if moved then (cb1\<lparr>cb_halfOpenTestInProgress := True\<rparr>, True) else (cb1, False))
     | CircuitHalfOpen \<Rightarrow>
         if cb_halfOpenTestInProgress cb then (cb, False)
         else (cb\<lparr>cb_halfOpenTestInProgress := True\<rparr>, True))"

record circuitBreakerSnapshot =
  snap_State :: CircuitState
  snap_FailureCount :: int
  snap_LastStateChange :: gotime
  snap_LastFailureTime :: gotime

definition cb_GetSnapshot :: "circuitBreaker \<Rightarrow> circuitBreakerSnapshot" where
  "cb_GetSnapshot cb = \<lparr>snap_State = cb_state cb, snap_FailureCount = cb_failureCount cb,
     snap_LastStateChange = cb_lastStateChange cb, snap_LastFailureTime = cb_lastFailureTime cb\<rparr>"

section \<open>The interface value\<close>

text \<open>
  The field \<open>circuitBreaker\<close> of a backend's health state holds one of the two implementations;
  a call through the interface dispatches on it. \<open>alwaysClosedCircuit\<close> has no fields.
\<close>

datatype CircuitBreaker = RealBreaker circuitBreaker | AlwaysClosed

fun RecordSuccess :: "gotime \<Rightarrow> CircuitBreaker \<Rightarrow> CircuitBreaker" where
  "RecordSuccess now (RealBreaker cb) = RealBreaker (cb_RecordSuccess now cb)"
| "RecordSuccess now AlwaysClosed = AlwaysClosed"

fun RecordFailure :: "gotime \<Rightarrow> CircuitBreaker \<Rightarrow> CircuitBreaker" where
  "RecordFailure now (RealBreaker cb) = RealBreaker (cb_RecordFailure now cb)"
| "RecordFailure now AlwaysClosed = AlwaysClosed"

fun CanAttempt :: "gotime \<Rightarrow> CircuitBreaker \<Rightarrow> CircuitBreaker \<times> bool" where
  "CanAttempt now (RealBreaker cb) = (case cb_CanAttempt now cb of (cb', ok) \<Rightarrow> (RealBreaker cb', ok))"
| "CanAttempt now AlwaysClosed = (AlwaysClosed, True)"

fun GetState :: "CircuitBreaker \<Rightarrow> CircuitState" where
  "GetState (RealBreaker cb) = cb_state cb"
| "GetState AlwaysClosed = CircuitClosed"

fun GetLastStateChange :: "CircuitBreaker \<Rightarrow> gotime" where
  "GetLastStateChange (RealBreaker cb) = cb_lastStateChange cb"
| "GetLastStateChange AlwaysClosed = 0"

fun GetFailureCount :: "CircuitBreaker \<Rightarrow> int" where
  "GetFailureCount (RealBreaker cb) = cb_failureCount cb"
| "GetFailureCount AlwaysClosed = 0"

fun GetSnapshot :: "CircuitBreaker \<Rightarrow> circuitBreakerSnapshot" where
  "GetSnapshot (RealBreaker cb) = cb_GetSnapshot cb"
| "GetSnapshot AlwaysClosed = \<lparr>snap_State = CircuitClosed, snap_FailureCount = 0,
     snap_LastStateChange = 0, snap_LastFailureTime = 0\<rparr>"

section \<open>The contract of the interface\<close>

text \<open>
  A caller reports outcomes and asks for permission in any order; \<open>exec_with\<close> runs such a
  sequence over one implementation and collects the answers of the permission requests.
\<close>

datatype breaker_event = EvSuccess | EvFailure | EvAttempt

fun exec_with :: "(gotime \<Rightarrow> 'b \<Rightarrow> 'b) \<Rightarrow> (gotime \<Rightarrow> 'b \<Rightarrow> 'b) \<Rightarrow> (gotime \<Rightarrow> 'b \<Rightarrow> 'b \<times> bool)
    \<Rightarrow> (breaker_event \<times> gotime) list \<Rightarrow> 'b \<Rightarrow> 'b \<times> bool list" where
  "exec_with success failure attempt [] b = (b, [])"
| "exec_with success failure attempt ((EvSuccess, now) # evs) b =
     exec_with success failure attempt evs (success now b)"
| "exec_with success failure attempt ((EvFailure, now) # evs) b =
     exec_with success failure attempt evs (failure now b)"
| "exec_with success failure attempt ((EvAttempt, now) # evs) b =
     (case attempt now b of (b', ok) \<Rightarrow>
      case exec_with success failure attempt evs b' of (b'', oks) \<Rightarrow> (b'', ok # oks))"

abbreviation breaker_run :: "(breaker_event \<times> gotime) list \<Rightarrow> CircuitBreaker \<Rightarrow> CircuitBreaker \<times> bool list"
  where "breaker_run \<equiv> exec_with RecordSuccess RecordFailure CanAttempt"

abbreviation cb_run :: "(breaker_event \<times> gotime) list \<Rightarrow> circuitBreaker \<Rightarrow> circuitBreaker \<times> bool list"
  where "cb_run \<equiv> exec_with cb_RecordSuccess cb_RecordFailure cb_CanAttempt"

locale breaker =
  fixes success :: "gotime \<Rightarrow> 'b \<Rightarrow> 'b"
    and failure :: "gotime \<Rightarrow> 'b \<Rightarrow> 'b"
    and attempt :: "gotime \<Rightarrow> 'b \<Rightarrow> 'b \<times> bool"
    and state :: "'b \<Rightarrow> CircuitState"
    and invar :: "'b \<Rightarrow> bool"
  assumes success_invar: "invar b \<Longrightarrow> invar (success now b)"
    and failure_invar: "invar b \<Longrightarrow> invar (failure now b)"
    and attempt_invar: "invar b \<Longrightarrow> invar (fst (attempt now b))"
    and success_closes: "invar b \<Longrightarrow> state (success now b) = CircuitClosed"
    and failure_opens: "invar b \<Longrightarrow> state b \<noteq> CircuitClosed \<Longrightarrow> state (failure now b) = CircuitOpen"
    and attempt_closed: "invar b \<Longrightarrow> state b = CircuitClosed \<Longrightarrow> attempt now b = (b, True)"
    and attempt_half_open: "invar b \<Longrightarrow> state b = CircuitHalfOpen \<Longrightarrow> attempt now b = (b, False)"
    and attempt_open_granted: "invar b \<Longrightarrow> state b = CircuitOpen \<Longrightarrow> snd (attempt now b) \<Longrightarrow>
      state (fst (attempt now b)) = CircuitHalfOpen"
    and attempt_open_refused: "invar b \<Longrightarrow> state b = CircuitOpen \<Longrightarrow> \<not> snd (attempt now b) \<Longrightarrow>
      fst (attempt now b) = b"
begin

abbreviation run :: "(breaker_event \<times> gotime) list \<Rightarrow> 'b \<Rightarrow> 'b \<times> bool list"
  where "run \<equiv> exec_with success failure attempt"

lemma run_invar: "invar b \<Longrightarrow> invar (fst (run evs b))"
proof (induction evs arbitrary: b)
  case (Cons ev evs)
  obtain e now where ev: "ev = (e, now)" by fastforce
  show ?case
    using Cons.IH [OF success_invar, of b now] Cons.IH [OF failure_invar, of b now]
      Cons.IH [OF attempt_invar, of b now] Cons.prems
    by (cases e) (auto simp: ev split: prod.splits)
qed simp

lemma half_open_refuses:
  "invar b \<Longrightarrow> state b = CircuitHalfOpen \<Longrightarrow> fst ` set evs \<subseteq> {EvAttempt} \<Longrightarrow>
    run evs b = (b, replicate (length evs) False)"
proof (induction evs)
  case (Cons ev evs)
  then obtain now where "ev = (EvAttempt, now)" by (cases ev) auto
  with Cons show ?case by (simp add: attempt_half_open)
qed simp

lemma one_probe_per_outcome:
  assumes "invar b" "state b \<noteq> CircuitClosed" "fst ` set evs \<subseteq> {EvAttempt}"
  shows "length (filter id (snd (run evs b))) \<le> 1"
  using assms
proof (induction evs arbitrary: b)
  case (Cons ev evs)
  obtain now where ev: "ev = (EvAttempt, now)" using Cons.prems(3) by (cases ev) auto
  have only: "fst ` set evs \<subseteq> {EvAttempt}" using Cons.prems(3) by auto
  obtain b' ok where at: "attempt now b = (b', ok)" by fastforce
  have inv': "invar b'" using attempt_invar [OF Cons.prems(1), of now] at by simp
  show ?case
  proof (cases "state b = CircuitHalfOpen \<or> ok")
    case True
    then have "state b' = CircuitHalfOpen"
      using at Cons.prems attempt_half_open [of b now] attempt_open_granted [of b now]
      by (cases "state b") auto
    then show ?thesis
      using half_open_refuses [OF inv' _ only] ev at by simp
  next
    case False
    then have "b' = b" using at Cons.prems attempt_open_refused [of b now]
      by (cases "state b") auto
    then show ?thesis
      using Cons.IH [OF Cons.prems(1,2) only] False ev at by (cases "run evs b") simp
  qed
qed simp

end

section \<open>The breaker's invariant\<close>

text \<open>
  Closed means fewer failures than the threshold; open and half-open mean the threshold was
  reached; the recovery test is in progress exactly in the half-open state.
\<close>

definition cb_inv :: "circuitBreaker \<Rightarrow> bool" where
  "cb_inv cb \<longleftrightarrow> 1 \<le> cb_failureThreshold cb \<and> 0 \<le> cb_failureCount cb \<and>
     (cb_halfOpenTestInProgress cb \<longleftrightarrow> cb_state cb = CircuitHalfOpen) \<and>
     (cb_state cb = CircuitClosed \<longleftrightarrow> cb_failureCount cb < cb_failureThreshold cb)"

lemmas cb_defs = newCircuitBreaker_def transitionTo_def cb_RecordSuccess_def cb_RecordFailure_def
  tryTransitionOpenToHalfOpen_def cb_CanAttempt_def Let_def

lemma cb_inv_new [simp, inv_intros]: "1 \<le> threshold \<Longrightarrow> cb_inv (newCircuitBreaker threshold timeout name now)"
  by (simp add: cb_inv_def cb_defs)

lemma cb_inv_success [simp, inv_intros]: "cb_inv cb \<Longrightarrow> cb_inv (cb_RecordSuccess now cb)"
  by (auto simp: cb_inv_def cb_defs)

lemma cb_inv_failure [simp, inv_intros]: "cb_inv cb \<Longrightarrow> cb_inv (cb_RecordFailure now cb)"
  by (cases "cb_state cb") (auto simp: cb_inv_def cb_defs)

lemma cb_inv_attempt [simp, inv_intros]: "cb_inv cb \<Longrightarrow> cb_inv (fst (cb_CanAttempt now cb))"
  by (cases "cb_state cb") (auto simp: cb_inv_def cb_defs)

interpretation cbr: breaker cb_RecordSuccess cb_RecordFailure cb_CanAttempt cb_state cb_inv
proof unfold_locales
  fix b now
  assume inv: "cb_inv b"
  show "cb_state (cb_RecordSuccess now b) = CircuitClosed" by (simp add: cb_defs)
  show "cb_state b \<noteq> CircuitClosed \<Longrightarrow> cb_state (cb_RecordFailure now b) = CircuitOpen"
    by (cases "cb_state b") (simp_all add: cb_defs)
  show "cb_state b = CircuitClosed \<Longrightarrow> cb_CanAttempt now b = (b, True)" by (simp add: cb_defs)
  show "cb_state b = CircuitHalfOpen \<Longrightarrow> cb_CanAttempt now b = (b, False)"
    using inv by (simp add: cb_defs cb_inv_def)
  show "cb_state b = CircuitOpen \<Longrightarrow> snd (cb_CanAttempt now b) \<Longrightarrow>
      cb_state (fst (cb_CanAttempt now b)) = CircuitHalfOpen"
    by (auto simp: cb_defs split: if_splits)
  show "cb_state b = CircuitOpen \<Longrightarrow> \<not> snd (cb_CanAttempt now b) \<Longrightarrow> fst (cb_CanAttempt now b) = b"
    by (auto simp: cb_defs split: if_splits)
qed (simp_all)

text \<open>The interface value keeps the invariant of whichever implementation it holds.\<close>

fun breaker_inv :: "CircuitBreaker \<Rightarrow> bool" where
  "breaker_inv (RealBreaker cb) = cb_inv cb"
| "breaker_inv AlwaysClosed = True"

lemma breaker_inv_ops [simp, inv_intros]:
  "breaker_inv b \<Longrightarrow> breaker_inv (RecordSuccess now b)"
  "breaker_inv b \<Longrightarrow> breaker_inv (RecordFailure now b)"
  "breaker_inv b \<Longrightarrow> breaker_inv (fst (CanAttempt now b))"
proof -
  assume inv: "breaker_inv b"
  show "breaker_inv (RecordSuccess now b)" "breaker_inv (RecordFailure now b)"
    using inv by (cases b; simp)+
  show "breaker_inv (fst (CanAttempt now b))"
  proof (cases b)
    case (RealBreaker cb)
    then show ?thesis
      using inv cb_inv_attempt [of cb now] by (cases "cb_CanAttempt now cb") simp
  qed simp
qed

interpretation ifc: breaker RecordSuccess RecordFailure CanAttempt GetState breaker_inv
proof unfold_locales
  fix b now
  assume inv: "breaker_inv b"
  show "GetState (RecordSuccess now b) = CircuitClosed"
    using inv by (cases b) (simp_all add: cbr.success_closes)
  show "GetState b \<noteq> CircuitClosed \<Longrightarrow> GetState (RecordFailure now b) = CircuitOpen"
    using inv by (cases b) (simp_all add: cbr.failure_opens)
  show "GetState b = CircuitClosed \<Longrightarrow> CanAttempt now b = (b, True)"
    using inv by (cases b) (simp_all add: cbr.attempt_closed)
  show "GetState b = CircuitHalfOpen \<Longrightarrow> CanAttempt now b = (b, False)"
    using inv by (cases b) (simp_all add: cbr.attempt_half_open)
  show "GetState b = CircuitOpen \<Longrightarrow> snd (CanAttempt now b) \<Longrightarrow> GetState (fst (CanAttempt now b)) = CircuitHalfOpen"
    using inv
  proof (cases b)
    case (RealBreaker cb)
    then show "GetState b = CircuitOpen \<Longrightarrow> snd (CanAttempt now b) \<Longrightarrow> ?thesis"
      using inv cbr.attempt_open_granted [of cb now] by (cases "cb_CanAttempt now cb") simp
  qed simp
  show "GetState b = CircuitOpen \<Longrightarrow> \<not> snd (CanAttempt now b) \<Longrightarrow> fst (CanAttempt now b) = b"
    using inv
  proof (cases b)
    case (RealBreaker cb)
    then show "GetState b = CircuitOpen \<Longrightarrow> \<not> snd (CanAttempt now b) \<Longrightarrow> ?thesis"
      using inv cbr.attempt_open_refused [of cb now] by (cases "cb_CanAttempt now cb") simp
  qed simp
qed simp_all

section \<open>Abstract specification and refinement\<close>

text \<open>
  What a breaker promises, without counters and flags: it passes requests while fewer than
  \<open>k\<close> consecutive failures were seen, then blocks from a point in time, and after the timeout
  lets one probe through.
\<close>

datatype breaker_spec = Passing nat | Blocking gotime | Probing

definition spec_success :: "gotime \<Rightarrow> breaker_spec \<Rightarrow> breaker_spec" where
  "spec_success now s = Passing 0"

fun spec_failure :: "nat \<Rightarrow> gotime \<Rightarrow> breaker_spec \<Rightarrow> breaker_spec" where
  "spec_failure k now (Passing n) = (if Suc n < k then Passing (Suc n) else Blocking now)"
| "spec_failure k now (Blocking since) = Blocking since"
| "spec_failure k now Probing = Blocking now"

fun spec_attempt :: "duration \<Rightarrow> gotime \<Rightarrow> breaker_spec \<Rightarrow> breaker_spec \<times> bool" where
  "spec_attempt timeout now (Passing n) = (Passing n, True)"
| "spec_attempt timeout now (Blocking since) =
     (if since + timeout \<le> now then (Probing, True) else (Blocking since, False))"
| "spec_attempt timeout now Probing = (Probing, False)"

definition cb_abs :: "circuitBreaker \<Rightarrow> breaker_spec" where
  "cb_abs cb = (case cb_state cb of CircuitClosed \<Rightarrow> Passing (nat (cb_failureCount cb))
     | CircuitOpen \<Rightarrow> Blocking (cb_lastStateChange cb) | CircuitHalfOpen \<Rightarrow> Probing)"

lemma cb_config_unchanged [simp]:
  "cb_failureThreshold (cb_RecordSuccess now cb) = cb_failureThreshold cb"
  "cb_failureThreshold (cb_RecordFailure now cb) = cb_failureThreshold cb"
  "cb_failureThreshold (fst (cb_CanAttempt now cb)) = cb_failureThreshold cb"
  "cb_timeout (cb_RecordSuccess now cb) = cb_timeout cb"
  "cb_timeout (cb_RecordFailure now cb) = cb_timeout cb"
  "cb_timeout (fst (cb_CanAttempt now cb)) = cb_timeout cb"
  by (simp_all add: cb_defs split: CircuitState.splits)

lemma cb_failureCount_ops [simp]:
  "cb_failureCount (newCircuitBreaker threshold timeout name now) = 0"
  "cb_failureCount (cb_RecordSuccess now cb) = 0"
  "cb_failureCount (cb_RecordFailure now cb) = cb_failureCount cb + 1"
  "cb_failureCount (fst (cb_CanAttempt now cb)) = cb_failureCount cb"
  by (simp_all add: cb_defs split: CircuitState.splits)

lemma cb_abs_success: "cb_abs (cb_RecordSuccess now cb) = spec_success now (cb_abs cb)"
  by (simp add: cb_abs_def cb_defs spec_success_def)

lemma cb_abs_failure:
  "cb_inv cb \<Longrightarrow> cb_abs (cb_RecordFailure now cb) =
     spec_failure (nat (cb_failureThreshold cb)) now (cb_abs cb)"
  by (cases "cb_state cb") (auto simp: cb_abs_def cb_defs cb_inv_def Suc_nat_eq_nat_zadd1)

lemma cb_abs_attempt:
  "cb_inv cb \<Longrightarrow> map_prod cb_abs id (cb_CanAttempt now cb) =
     spec_attempt (cb_timeout cb) now (cb_abs cb)"
  by (cases "cb_state cb") (auto simp: cb_abs_def cb_defs cb_inv_def)

lemma cb_run_refines:
  assumes "cb_inv cb"
  shows "map_prod cb_abs id (cb_run evs cb) =
    exec_with spec_success (spec_failure (nat (cb_failureThreshold cb)))
      (spec_attempt (cb_timeout cb)) evs (cb_abs cb)"
  using assms
proof (induction evs arbitrary: cb)
  case (Cons ev evs)
  obtain e now where ev: "ev = (e, now)" by fastforce
  show ?case
  proof (cases e)
    case EvSuccess
    then show ?thesis
      using Cons.IH [OF cb_inv_success [OF Cons.prems], of now] by (simp add: ev cb_abs_success)
  next
    case EvFailure
    then show ?thesis
      using Cons.IH [OF cb_inv_failure [OF Cons.prems], of now] Cons.prems
      by (simp add: ev cb_abs_failure)
  next
    case EvAttempt
    obtain cb' ok where at: "cb_CanAttempt now cb = (cb', ok)" by fastforce
    have "spec_attempt (cb_timeout cb) now (cb_abs cb) = (cb_abs cb', ok)"
      using cb_abs_attempt [OF Cons.prems, of now] at by simp
    moreover have "cb_timeout cb' = cb_timeout cb" "cb_failureThreshold cb' = cb_failureThreshold cb"
      using cb_config_unchanged(3,6) [of now cb] at by simp_all
    ultimately show ?thesis
      using Cons.IH [OF cb_inv_attempt [OF Cons.prems], of now] at EvAttempt
      by (cases "cb_run evs cb'") (auto simp: ev split: prod.splits)
  qed
qed simp

text \<open>
  Claim C6: whatever the order of outcomes, permission requests and clock values, the breaker
  gives exactly the answers of the abstract specification and ends in the state the
  specification ends in: the counter, the half-open flag and the second half-open branch of
  \<open>CanAttempt\<close> add no behaviour.
\<close>

theorem breaker_refines_spec:
  assumes "1 \<le> threshold"
  shows "map_prod cb_abs id (cb_run evs (newCircuitBreaker threshold timeout name start)) =
    exec_with spec_success (spec_failure (nat threshold)) (spec_attempt timeout) evs (Passing 0)"
  using cb_run_refines [OF cb_inv_new [OF assms, of timeout name start], of evs]
  by (simp add: newCircuitBreaker_def cb_abs_def)

theorem breaker_refines_spec_witness:
  "map_prod cb_abs id (cb_run [(EvFailure, 1), (EvFailure, 2), (EvAttempt, 3), (EvAttempt, 70), (EvAttempt, 71)]
      (newCircuitBreaker 2 60 ''b'' 0)) = (Probing, [False, True, False])"
proof -
  have k: "(1::int) \<le> 2" by simp
  show ?thesis unfolding breaker_refines_spec [OF k] by (simp add: spec_success_def)
qed

text \<open>
  While a backend's breaker is not closed, at most one of any number of permission
  requests is granted until an outcome is recorded, for both implementations of the interface.
\<close>

theorem half_open_single_probe:
  assumes "breaker_inv b" and "GetState b \<noteq> CircuitClosed" and "fst ` set evs \<subseteq> {EvAttempt}"
  shows "length (filter id (snd (breaker_run evs b))) \<le> 1"
  using assms by (rule ifc.one_probe_per_outcome)

theorem half_open_single_probe_witness:
  "length (filter id (snd (breaker_run [(EvAttempt, 100), (EvAttempt, 101), (EvAttempt, 102)]
     (RealBreaker (cb_RecordFailure 1 (newCircuitBreaker 1 60 ''b'' 0)))))) \<le> 1"
  by (rule half_open_single_probe) (simp_all add: cb_defs cb_inv_def)

section \<open>Opening and recovery\<close>

lemma spec_failures_blocking:
  "fst (exec_with spec_success (spec_failure k) at (map (Pair EvFailure) ts) (Blocking s)) = Blocking s"
  by (induction ts) auto

lemma spec_failures_passing:
  assumes "n < k"
  shows "fst (exec_with spec_success (spec_failure k) at (map (Pair EvFailure) ts) (Passing n)) =
    (if length ts < k - n then Passing (n + length ts) else Blocking (ts ! (k - n - 1)))"
  using assms
proof (induction ts arbitrary: n)
  case (Cons now ts)
  show ?case
  proof (cases "Suc n < k")
    case True
    then have eq: "k - n - 1 = Suc (k - Suc n - 1)" by simp
    have "(now # ts) ! (k - n - 1) = ts ! (k - Suc n - 1)" unfolding eq by (rule nth_Cons_Suc)
    then show ?thesis using True Cons.IH [of "Suc n"] by auto
  next
    case False
    then have "k = Suc n" using Cons.prems by simp
    then show ?thesis by (simp add: spec_failures_blocking)
  qed
qed simp

lemma cb_abs_cases [simp]:
  "cb_abs cb = Blocking s \<longleftrightarrow> cb_state cb = CircuitOpen \<and> cb_lastStateChange cb = s"
  "cb_abs cb = Passing n \<longleftrightarrow> cb_state cb = CircuitClosed \<and> nat (cb_failureCount cb) = n"
  "cb_abs cb = Probing \<longleftrightarrow> cb_state cb = CircuitHalfOpen"
  by (auto simp: cb_abs_def split: CircuitState.splits)

text \<open>
  A fresh breaker opens at exactly the configured number of consecutive failures, its
  timeout counts from the failure that opened it, and further failures do not move that point.
\<close>

theorem opens_at_threshold:
  assumes "1 \<le> threshold"
  shows "let cb = fst (cb_run (map (Pair EvFailure) ts) (newCircuitBreaker threshold timeout name start))
    in if length ts < nat threshold then cb_state cb = CircuitClosed
       else cb_state cb = CircuitOpen \<and> cb_lastStateChange cb = ts ! (nat threshold - 1)"
proof -
  let ?cb = "fst (cb_run (map (Pair EvFailure) ts) (newCircuitBreaker threshold timeout name start))"
  have "cb_abs ?cb = fst (map_prod cb_abs id (cb_run (map (Pair EvFailure) ts)
      (newCircuitBreaker threshold timeout name start)))" by simp
  also have "\<dots> = (if length ts < nat threshold then Passing (length ts) else Blocking (ts ! (nat threshold - 1)))"
    using cb_run_refines [OF cb_inv_new [OF assms(1)]] spec_failures_passing [of 0 "nat threshold"] assms(1)
    by (simp add: newCircuitBreaker_def cb_abs_def)
  finally show ?thesis by (auto simp: Let_def split: if_splits)
qed

theorem opens_at_threshold_witness:
  "cb_lastStateChange (fst (cb_run (map (Pair EvFailure) [5, 6, 7]) (newCircuitBreaker 2 60 ''b'' 0))) = 6"
  using opens_at_threshold [of 2 "[5, 6, 7]" 60 "''b''" 0] by (simp add: Let_def)

text \<open>
  An open breaker refuses every request made before its timeout has elapsed and grants
  the first one after it; a success then closes it with a clean count, a failure reopens it and
  starts the timeout anew.
\<close>

theorem open_breaker_recovery:
  assumes "cb_inv cb" and "cb_state cb = CircuitOpen"
  shows "if now < cb_lastStateChange cb + cb_timeout cb then cb_CanAttempt now cb = (cb, False)
    else (\<exists>cb'. cb_CanAttempt now cb = (cb', True)
      \<and> cb_state (cb_RecordSuccess t cb') = CircuitClosed \<and> cb_failureCount (cb_RecordSuccess t cb') = 0
      \<and> cb_state (cb_RecordFailure t cb') = CircuitOpen \<and> cb_lastStateChange (cb_RecordFailure t cb') = t)"
  using assms by (auto simp: cb_defs)

theorem open_breaker_recovery_witness:
  "\<exists>cb'. cb_CanAttempt 61 (cb_RecordFailure 1 (newCircuitBreaker 1 60 ''b'' 0)) = (cb', True)
     \<and> cb_state (cb_RecordSuccess 62 cb') = CircuitClosed"
proof -
  let ?cb = "cb_RecordFailure 1 (newCircuitBreaker 1 60 ''b'' 0)"
  have "cb_inv ?cb" "cb_state ?cb = CircuitOpen" by (simp_all add: cb_defs cb_inv_def)
  from open_breaker_recovery [OF this, of 61 62] show ?thesis
    by (auto simp: cb_defs)
qed

end
