(* ===== verification/Health_Status.thy ===== *)
theory Health_Status
  imports Circuit_Breaker
begin

text \<open>
  The status tracker of \<open>pkg/vmcp/health/status.go\<close>, which keeps one health state and one circuit
  breaker per backend, the classification of a probe's outcome of \<open>checker.go\<close>, and the policy
  predicates of \<open>policy.go\<close>. The tracker's methods run under its mutex; each is a function on the
  tracker with the clock value it reads. The backend client's \<open>ListCapabilities\<close> is a parameter:
  its error, if any, and its duration.
\<close>

section \<open>Configuration and state\<close>

record CircuitBreakerConfig =
  cbc_Enabled :: bool
  cbc_FailureThreshold :: int
  cbc_Timeout :: duration

record backendHealthState =
  bhs_status :: BackendHealthStatus
  bhs_consecutiveFailures :: int
  bhs_lastCheckTime :: gotime
  bhs_lastError :: "goerror option"
  bhs_lastTransitionTime :: gotime
  bhs_circuitBreaker :: CircuitBreaker
  bhs_mcpRevision :: string

record statusTracker =
  st_states :: "(string, backendHealthState) gomap"
  st_removedBackends :: "(string, bool) gomap"
  st_unhealthyThreshold :: int
  st_circuitBreakerConfig :: "CircuitBreakerConfig option"

definition newStatusTracker :: "int \<Rightarrow> CircuitBreakerConfig option \<Rightarrow> statusTracker" where
  "newStatusTracker unhealthyThreshold circuitBreakerConfig =
     \<lparr>st_states = [], st_removedBackends = [],
      st_unhealthyThreshold = (if unhealthyThreshold < 1 then 1 else unhealthyThreshold),
      st_circuitBreakerConfig = circuitBreakerConfig\<rparr>"

definition isRemoved :: "statusTracker \<Rightarrow> string \<Rightarrow> bool" where
  "isRemoved t backendID = (case map_of (st_removedBackends t) backendID of None \<Rightarrow> False | Some r \<Rightarrow> r)"

definition initialBreaker :: "statusTracker \<Rightarrow> string \<Rightarrow> gotime \<Rightarrow> CircuitBreaker" where
  "initialBreaker t backendName now = (case st_circuitBreakerConfig t of None \<Rightarrow> AlwaysClosed
     | Some cfg \<Rightarrow> if \<not> cbc_Enabled cfg then AlwaysClosed
         else RealBreaker (newCircuitBreaker (cbc_FailureThreshold cfg) (cbc_Timeout cfg) backendName now))"

definition put_state :: "string \<Rightarrow> backendHealthState \<Rightarrow> statusTracker \<Rightarrow> statusTracker" where
  "put_state backendID s t = t\<lparr>st_states := AList.update backendID s (st_states t)\<rparr>"

text \<open>
  The tracker after the call, the state the returned pointer names, and whether it existed.
\<close>

definition getOrCreateState :: "statusTracker \<Rightarrow> string \<Rightarrow> string \<Rightarrow> BackendHealthStatus \<Rightarrow> int
    \<Rightarrow> goerror option \<Rightarrow> gotime \<Rightarrow> statusTracker \<times> backendHealthState \<times> bool" where
  "getOrCreateState t backendID backendName initialStatus consecutiveFailures err now =
     (case map_of (st_states t) backendID of Some state \<Rightarrow> (t, state, True)
      | None \<Rightarrow>
         let state = \<lparr>bhs_status = initialStatus, bhs_consecutiveFailures = consecutiveFailures,
               bhs_lastCheckTime = now, bhs_lastError = err, bhs_lastTransitionTime = now,
               bhs_circuitBreaker = initialBreaker t backendName now, bhs_mcpRevision = ''''\<rparr>
         in (put_state backendID state t, state, False))"

section \<open>Error categories\<close>

definition sanitizeError :: "goerror option \<Rightarrow> string" where
  "sanitizeError err = (case err of None \<Rightarrow> '''' | Some e \<Rightarrow>
     if errors_Is e ErrAuthenticationFailed \<or> errors_Is e ErrAuthorizationFailed then ''authentication_failed''
     else if IsAuthenticationError err then ''authentication_failed''
     else if errors_Is e ErrTimeout then ''timeout''
     else if IsTimeoutError err then ''timeout''
     else if errors_Is e ErrCancelled then ''cancelled''
     else if errors_Is e ErrBackendUnavailable then ''backend_unavailable''
     else if IsConnectionError err then ''connection_failed''
     else ''health_check_failed'')"

section \<open>Recording results\<close>

definition tracker_RecordSuccess :: "string \<Rightarrow> string \<Rightarrow> BackendHealthStatus \<Rightarrow> gotime
    \<Rightarrow> statusTracker \<Rightarrow> statusTracker" where
  "tracker_RecordSuccess backendID backendName status now t =
     (if isRemoved t backendID then t
      else case getOrCreateState t backendID backendName status 0 None now of (t1, state, exists) \<Rightarrow>
        if \<not> exists
        then put_state backendID
               (state\<lparr>bhs_circuitBreaker := RecordSuccess now (bhs_circuitBreaker state)\<rparr>) t1
        else
          let previousStatus = bhs_status state;
              previousFailures = bhs_consecutiveFailures state;
              newStatus = (if previousFailures > 0 then BackendDegraded else status);
              state1 = state\<lparr>bhs_status := newStatus, bhs_consecutiveFailures := 0,
                             bhs_lastCheckTime := now, bhs_lastError := None\<rparr>;
              state2 = (if previousStatus \<noteq> newStatus then state1\<lparr>bhs_lastTransitionTime := now\<rparr> else state1)
          in put_state backendID
               (state2\<lparr>bhs_circuitBreaker := RecordSuccess now (bhs_circuitBreaker state2)\<rparr>) t1)"

definition tracker_RecordRevision :: "string \<Rightarrow> string \<Rightarrow> statusTracker \<Rightarrow> statusTracker" where
  "tracker_RecordRevision backendID revision t = (case map_of (st_states t) backendID of None \<Rightarrow> t
     | Some state \<Rightarrow> put_state backendID (state\<lparr>bhs_mcpRevision := revision\<rparr>) t)"

definition tracker_RecordFailure :: "string \<Rightarrow> string \<Rightarrow> BackendHealthStatus \<Rightarrow> goerror option \<Rightarrow> gotime
    \<Rightarrow> statusTracker \<Rightarrow> statusTracker" where
  "tracker_RecordFailure backendID backendName status err now t =
     (if isRemoved t backendID then t
      else case getOrCreateState t backendID backendName BackendUnknown 1 err now of (t1, state, exists) \<Rightarrow>
        if \<not> exists
        then
          let state1 = (if bhs_consecutiveFailures state \<ge> st_unhealthyThreshold t
                        then state\<lparr>bhs_status := status\<rparr> else state)
          in put_state backendID
               (state1\<lparr>bhs_circuitBreaker := RecordFailure now (bhs_circuitBreaker state1)\<rparr>) t1
        else
          let previousStatus = bhs_status state;
              state1 = state\<lparr>bhs_consecutiveFailures := bhs_consecutiveFailures state + 1,
                             bhs_lastCheckTime := now, bhs_lastError := err\<rparr>;
              thresholdReached = (bhs_consecutiveFailures state1 \<ge> st_unhealthyThreshold t);
              statusChanged = (previousStatus \<noteq> status);
              state2 = (if thresholdReached \<and> statusChanged
                        then state1\<lparr>bhs_status := status, bhs_lastTransitionTime := now\<rparr> else state1)
          in put_state backendID
               (state2\<lparr>bhs_circuitBreaker := RecordFailure now (bhs_circuitBreaker state2)\<rparr>) t1)"

section \<open>Queries\<close>

record State =
  s_Status :: BackendHealthStatus
  s_ConsecutiveFailures :: int
  s_LastCheckTime :: gotime
  s_LastErrorCategory :: string
  s_LastError :: "goerror option"
  s_LastTransitionTime :: gotime
  s_CircuitState :: CircuitState
  s_CircuitLastChanged :: gotime
  s_MCPRevision :: string

definition copyState :: "backendHealthState \<Rightarrow> State" where
  "copyState state = (let snapshot = GetSnapshot (bhs_circuitBreaker state) in
     \<lparr>s_Status = bhs_status state, s_ConsecutiveFailures = bhs_consecutiveFailures state,
      s_LastCheckTime = bhs_lastCheckTime state,
      s_LastErrorCategory = sanitizeError (bhs_lastError state), s_LastError = bhs_lastError state,
      s_LastTransitionTime = bhs_lastTransitionTime state,
      s_CircuitState = snap_State snapshot, s_CircuitLastChanged = snap_LastStateChange snapshot,
      s_MCPRevision = bhs_mcpRevision state\<rparr>)"

definition tracker_GetStatus :: "statusTracker \<Rightarrow> string \<Rightarrow> BackendHealthStatus \<times> bool" where
  "tracker_GetStatus t backendID = (case map_of (st_states t) backendID of
     None \<Rightarrow> (BackendUnknown, False) | Some state \<Rightarrow> (bhs_status state, True))"

definition tracker_GetState :: "statusTracker \<Rightarrow> string \<Rightarrow> State option" where
  "tracker_GetState t backendID = map_option copyState (map_of (st_states t) backendID)"

definition tracker_GetAllStates :: "statusTracker \<Rightarrow> (string, State) gomap" where
  "tracker_GetAllStates t = map (\<lambda>(backendID, state). (backendID, copyState state)) (st_states t)"

definition tracker_IsHealthy :: "statusTracker \<Rightarrow> string \<Rightarrow> bool" where
  "tracker_IsHealthy t backendID = (case tracker_GetStatus t backendID of (status, exists) \<Rightarrow>
     exists \<and> status = BackendHealthy)"

definition tracker_RemoveBackend :: "string \<Rightarrow> statusTracker \<Rightarrow> statusTracker" where
  "tracker_RemoveBackend backendID t = t\<lparr>st_states := AList.delete backendID (st_states t),
     st_removedBackends := AList.update backendID True (st_removedBackends t)\<rparr>"

definition tracker_ClearRemovedFlag :: "string \<Rightarrow> statusTracker \<Rightarrow> statusTracker" where
  "tracker_ClearRemovedFlag backendID t =
     t\<lparr>st_removedBackends := AList.delete backendID (st_removedBackends t)\<rparr>"

definition CanAttemptHealthCheck :: "string \<Rightarrow> gotime \<Rightarrow> statusTracker \<Rightarrow> statusTracker \<times> bool" where
  "CanAttemptHealthCheck backendID now t = (case map_of (st_states t) backendID of
     None \<Rightarrow> (t, True)
   | Some state \<Rightarrow> (case CanAttempt now (bhs_circuitBreaker state) of (cb, ok) \<Rightarrow>
       (put_state backendID (state\<lparr>bhs_circuitBreaker := cb\<rparr>) t, ok)))"

definition GetCircuitBreakerState :: "statusTracker \<Rightarrow> string \<Rightarrow> CircuitState option" where
  "GetCircuitBreakerState t backendID =
     map_option (\<lambda>state. GetState (bhs_circuitBreaker state)) (map_of (st_states t) backendID)"

definition IsCircuitOpen :: "statusTracker \<Rightarrow> string \<Rightarrow> bool" where
  "IsCircuitOpen t backendID = (GetCircuitBreakerState t backendID = Some CircuitOpen)"

text \<open>The log messages apart, \<open>ShouldAttemptHealthCheck\<close> returns what \<open>CanAttemptHealthCheck\<close> does.\<close>

definition ShouldAttemptHealthCheck :: "string \<Rightarrow> gotime \<Rightarrow> statusTracker \<Rightarrow> statusTracker \<times> bool" where
  "ShouldAttemptHealthCheck backendID now t = (case CanAttemptHealthCheck backendID now t of (t1, ok) \<Rightarrow>
     if \<not> ok then (t1, False) else (t1, True))"

section \<open>Classifying a probe\<close>

definition authErrorStatus :: "BackendTarget option \<Rightarrow> BackendHealthStatus" where
  "authErrorStatus target = (case target of None \<Rightarrow> BackendUnauthenticated | Some t \<Rightarrow>
     (case t_AuthConfig t of None \<Rightarrow> BackendUnauthenticated | Some a \<Rightarrow>
       if auth_Type a \<noteq> StrategyTypeUnauthenticated then BackendHealthy else BackendUnauthenticated))"

definition categorizeError :: "BackendTarget option \<Rightarrow> goerror option \<Rightarrow> BackendHealthStatus" where
  "categorizeError target err = (case err of None \<Rightarrow> BackendHealthy | Some e \<Rightarrow>
     if errors_Is e ErrAuthenticationFailed \<or> errors_Is e ErrAuthorizationFailed then authErrorStatus target
     else if errors_Is e ErrTimeout \<or> errors_Is e ErrCancelled then BackendUnhealthy
     else if errors_Is e ErrBackendUnavailable then BackendUnhealthy
     else if IsAuthenticationError err then authErrorStatus target
     else if IsTimeoutError err \<or> IsConnectionError err then BackendUnhealthy
     else BackendUnhealthy)"

text \<open>
  The checker. The backend client is a parameter: from the deadline it runs under, if any, and the
  target, \<open>ListCapabilities\<close> gives its error, if any, and the time it took. The capabilities it
  returns are discarded by the caller. The target is dereferenced unconditionally, so it is not
  optional here.
\<close>

record healthChecker =
  hc_client :: "duration option \<Rightarrow> BackendTarget \<Rightarrow> goerror option \<times> duration"
  hc_timeout :: duration
  hc_degradedThreshold :: duration

definition NewHealthChecker :: "(duration option \<Rightarrow> BackendTarget \<Rightarrow> goerror option \<times> duration)
    \<Rightarrow> duration \<Rightarrow> duration \<Rightarrow> healthChecker" where
  "NewHealthChecker client timeout degradedThreshold =
     \<lparr>hc_client = client, hc_timeout = timeout, hc_degradedThreshold = degradedThreshold\<rparr>"

definition CheckHealth :: "healthChecker \<Rightarrow> BackendTarget \<Rightarrow> BackendHealthStatus \<times> goerror option" where
  "CheckHealth h target =
     (let deadline = (if hc_timeout h > 0 then Some (hc_timeout h) else None) in
      case hc_client h deadline target of (err, responseDuration) \<Rightarrow>
        (case err of
          Some e \<Rightarrow>
            let status = categorizeError (Some target) err in
            if status = BackendHealthy then (BackendHealthy, None)
            else (status, Some (wrap_error ''health check failed: '' e))
        | None \<Rightarrow>
            if hc_degradedThreshold h > 0 \<and> responseDuration > hc_degradedThreshold h
            then (BackendDegraded, None)
            else (BackendHealthy, None)))"

section \<open>Policy\<close>

definition ShouldAdvertise :: "BackendHealthStatus \<Rightarrow> bool" where
  "ShouldAdvertise status \<longleftrightarrow> status = NoHealthStatus \<or> status = BackendHealthy \<or> status = BackendDegraded"

definition ShouldOpenSession :: "BackendHealthStatus \<Rightarrow> bool" where
  "ShouldOpenSession status \<longleftrightarrow> status \<noteq> BackendUnhealthy \<and> status \<noteq> BackendUnauthenticated"

section \<open>Runs of the tracker\<close>

text \<open>
  The mutating calls, each of which holds the tracker's lock for its whole body, so that concurrent
  callers produce some sequence of them. A failure always carries an error: \<open>performHealthCheck\<close>
  records one exactly when the check returned a non-nil error.
\<close>

datatype tracker_op =
    OpSuccess (op_target: string) string BackendHealthStatus
  | OpFailure (op_target: string) string BackendHealthStatus goerror
  | OpRevision (op_target: string) string
  | OpRemove (op_target: string)
  | OpClear (op_target: string)
  | OpAttempt (op_target: string)

fun tracker_step :: "tracker_op \<times> gotime \<Rightarrow> statusTracker \<Rightarrow> statusTracker" where
  "tracker_step (OpSuccess i n s, now) t = tracker_RecordSuccess i n s now t"
| "tracker_step (OpFailure i n s e, now) t = tracker_RecordFailure i n s (Some e) now t"
| "tracker_step (OpRevision i r, now) t = tracker_RecordRevision i r t"
| "tracker_step (OpRemove i, now) t = tracker_RemoveBackend i t"
| "tracker_step (OpClear i, now) t = tracker_ClearRemovedFlag i t"
| "tracker_step (OpAttempt i, now) t = fst (ShouldAttemptHealthCheck i now t)"

abbreviation tracker_run :: "(tracker_op \<times> gotime) list \<Rightarrow> statusTracker \<Rightarrow> statusTracker"
  where "tracker_run \<equiv> fold tracker_step"

section \<open>Invariant\<close>

text \<open>
  The two failure counters of a backend agree when its breaker is enabled, an error is stored
  exactly while failures are pending, and the breaker is the one the configuration asks for.
\<close>

fun breaker_enabled :: "CircuitBreakerConfig option \<Rightarrow> bool" where
  "breaker_enabled None = False"
| "breaker_enabled (Some cfg) = cbc_Enabled cfg"

fun breaker_agrees :: "CircuitBreakerConfig option \<Rightarrow> int \<Rightarrow> CircuitBreaker \<Rightarrow> bool" where
  "breaker_agrees cfg failures AlwaysClosed = (\<not> breaker_enabled cfg)"
| "breaker_agrees cfg failures (RealBreaker cb) = (breaker_enabled cfg \<and> cb_inv cb \<and>
     cb_failureCount cb = failures \<and> cb_failureThreshold cb = cbc_FailureThreshold (the cfg)
     \<and> cb_timeout cb = cbc_Timeout (the cfg))"

definition state_inv :: "CircuitBreakerConfig option \<Rightarrow> backendHealthState \<Rightarrow> bool" where
  "state_inv cfg s \<longleftrightarrow> 0 \<le> bhs_consecutiveFailures s \<and>
     (bhs_lastError s = None \<longleftrightarrow> bhs_consecutiveFailures s = 0) \<and>
     breaker_agrees cfg (bhs_consecutiveFailures s) (bhs_circuitBreaker s)"

definition breaker_config_ok :: "CircuitBreakerConfig option \<Rightarrow> bool" where
  "breaker_config_ok cfg \<longleftrightarrow> (breaker_enabled cfg \<longrightarrow> 1 \<le> cbc_FailureThreshold (the cfg))"

definition tracker_inv :: "statusTracker \<Rightarrow> bool" where
  "tracker_inv t \<longleftrightarrow> gomap_ok (st_states t) \<and> gomap_ok (st_removedBackends t) \<and>
     1 \<le> st_unhealthyThreshold t \<and> breaker_config_ok (st_circuitBreakerConfig t) \<and>
     (\<forall>i s. map_of (st_states t) i = Some s \<longrightarrow>
        \<not> isRemoved t i \<and> state_inv (st_circuitBreakerConfig t) s)"

section \<open>The life of one backend\<close>

text \<open>
  What the tracker promises about one backend, as a machine of its own: a backend is removed,
  untracked or tracked with a state, and only the calls that name it move it.
\<close>

datatype backend_view = Removed | Untracked | Tracked backendHealthState

definition tracker_view :: "statusTracker \<Rightarrow> string \<Rightarrow> backend_view" where
  "tracker_view t i = (if isRemoved t i then Removed
     else case map_of (st_states t) i of None \<Rightarrow> Untracked | Some s \<Rightarrow> Tracked s)"

fun fresh_breaker :: "CircuitBreakerConfig option \<Rightarrow> string \<Rightarrow> gotime \<Rightarrow> CircuitBreaker" where
  "fresh_breaker None name now = AlwaysClosed"
| "fresh_breaker (Some cfg) name now = (if cbc_Enabled cfg
     then RealBreaker (newCircuitBreaker (cbc_FailureThreshold cfg) (cbc_Timeout cfg) name now)
     else AlwaysClosed)"

definition fresh_state :: "CircuitBreakerConfig option \<Rightarrow> string \<Rightarrow> gotime \<Rightarrow> backendHealthState" where
  "fresh_state cfg name now = \<lparr>bhs_status = BackendUnknown, bhs_consecutiveFailures = 0,
     bhs_lastCheckTime = now, bhs_lastError = None, bhs_lastTransitionTime = now,
     bhs_circuitBreaker = fresh_breaker cfg name now, bhs_mcpRevision = ''''\<rparr>"

definition after_success :: "BackendHealthStatus \<Rightarrow> gotime \<Rightarrow> backendHealthState \<Rightarrow> backendHealthState" where
  "after_success status now s =
     (let new = (if bhs_consecutiveFailures s > 0 then BackendDegraded else status) in
      s\<lparr>bhs_status := new, bhs_consecutiveFailures := 0, bhs_lastCheckTime := now, bhs_lastError := None,
        bhs_lastTransitionTime := (if bhs_status s = new then bhs_lastTransitionTime s else now),
        bhs_circuitBreaker := RecordSuccess now (bhs_circuitBreaker s)\<rparr>)"

definition after_failure :: "int \<Rightarrow> BackendHealthStatus \<Rightarrow> goerror \<Rightarrow> gotime \<Rightarrow> backendHealthState
    \<Rightarrow> backendHealthState" where
  "after_failure threshold status e now s =
     (let n = bhs_consecutiveFailures s + 1; new = (if n \<ge> threshold then status else bhs_status s) in
      s\<lparr>bhs_status := new, bhs_consecutiveFailures := n, bhs_lastCheckTime := now, bhs_lastError := Some e,
        bhs_lastTransitionTime := (if bhs_status s = new then bhs_lastTransitionTime s else now),
        bhs_circuitBreaker := RecordFailure now (bhs_circuitBreaker s)\<rparr>)"

fun view_step :: "int \<Rightarrow> CircuitBreakerConfig option \<Rightarrow> tracker_op \<times> gotime \<Rightarrow> backend_view \<Rightarrow> backend_view" where
  "view_step k cfg (OpRemove i, now) v = Removed"
| "view_step k cfg (OpClear i, now) Removed = Untracked"
| "view_step k cfg (OpSuccess i n st, now) Untracked = Tracked (after_success st now (fresh_state cfg n now))"
| "view_step k cfg (OpFailure i n st e, now) Untracked = Tracked (after_failure k st e now (fresh_state cfg n now))"
| "view_step k cfg (OpSuccess i n st, now) (Tracked s) = Tracked (after_success st now s)"
| "view_step k cfg (OpFailure i n st e, now) (Tracked s) = Tracked (after_failure k st e now s)"
| "view_step k cfg (OpRevision i r, now) (Tracked s) = Tracked (s\<lparr>bhs_mcpRevision := r\<rparr>)"
| "view_step k cfg (OpAttempt i, now) (Tracked s) =
     Tracked (s\<lparr>bhs_circuitBreaker := fst (CanAttempt now (bhs_circuitBreaker s))\<rparr>)"
| "view_step k cfg op v = v"

section \<open>Each call on the maps of the tracker\<close>

lemmas tracker_defs = tracker_RecordSuccess_def tracker_RecordFailure_def tracker_RecordRevision_def
  tracker_RemoveBackend_def tracker_ClearRemovedFlag_def ShouldAttemptHealthCheck_def
  CanAttemptHealthCheck_def getOrCreateState_def put_state_def Let_def

lemma initialBreaker_fresh [simp]: "initialBreaker t name now = fresh_breaker (st_circuitBreakerConfig t) name now"
  by (cases "st_circuitBreakerConfig t") (simp_all add: initialBreaker_def)

lemma isRemoved_fields [simp]:
  "isRemoved (t\<lparr>st_states := m\<rparr>) i = isRemoved t i"
  "isRemoved (t\<lparr>st_removedBackends := r\<rparr>) i = (case map_of r i of None \<Rightarrow> False | Some b \<Rightarrow> b)"
  by (simp_all add: isRemoved_def)

lemma tracker_config_step [simp]:
  "st_unhealthyThreshold (tracker_step (op, now) t) = st_unhealthyThreshold t"
  "st_circuitBreakerConfig (tracker_step (op, now) t) = st_circuitBreakerConfig t"
  by (cases op; auto simp: tracker_defs split: option.splits prod.splits if_splits)+

lemma isRemoved_step:
  "isRemoved (tracker_step (op, now) t) i = (case op of OpRemove j \<Rightarrow> i = j \<or> isRemoved t i
     | OpClear j \<Rightarrow> i \<noteq> j \<and> isRemoved t i | _ \<Rightarrow> isRemoved t i)"
  by (cases op) (auto simp: tracker_defs isRemoved_def split: option.splits prod.splits if_splits)

lemma gomap_ok_step [inv_intros]:
  "gomap_ok (st_states t) \<Longrightarrow> gomap_ok (st_states (tracker_step (op, now) t))"
  "gomap_ok (st_removedBackends t) \<Longrightarrow> gomap_ok (st_removedBackends (tracker_step (op, now) t))"
  by (cases op; auto simp: tracker_defs split: option.splits prod.splits if_splits)+

lemma tracker_view_other:
  "i \<noteq> op_target op \<Longrightarrow> tracker_view (tracker_step (op, now) t) i = tracker_view t i"
  by (cases op) (auto simp: tracker_view_def isRemoved_def tracker_defs split: option.splits prod.splits if_splits)

lemma tracker_view_target:
  assumes "tracker_inv t"
  shows "tracker_view (tracker_step (op, now) t) (op_target op) =
    view_step (st_unhealthyThreshold t) (st_circuitBreakerConfig t) (op, now) (tracker_view t (op_target op))"
proof -
  have "\<not> isRemoved t i" if "map_of (st_states t) i = Some s" for i s
    using assms that by (auto simp: tracker_inv_def)
  then have absent: "isRemoved t i \<Longrightarrow> map_of (st_states t) i = None" for i
    by (metis not_Some_eq)
  show ?thesis
    using absent [of "op_target op"]
    by (cases op)
      (auto simp: tracker_view_def isRemoved_step tracker_defs after_success_def after_failure_def fresh_state_def
        split: option.splits prod.splits if_splits)
qed

lemma breaker_agrees_ops [simp, inv_intros]:
  "breaker_config_ok cfg \<Longrightarrow> breaker_agrees cfg 0 (fresh_breaker cfg name now)"
  "breaker_agrees cfg n b \<Longrightarrow> breaker_agrees cfg 0 (RecordSuccess now b)"
  "breaker_agrees cfg n b \<Longrightarrow> breaker_agrees cfg (n + 1) (RecordFailure now b)"
  "breaker_agrees cfg n b \<Longrightarrow> breaker_agrees cfg n (fst (CanAttempt now b))"
proof -
  show "breaker_config_ok cfg \<Longrightarrow> breaker_agrees cfg 0 (fresh_breaker cfg name now)"
    by (cases cfg) (auto simp: breaker_config_ok_def cb_inv_def newCircuitBreaker_def)
  show "breaker_agrees cfg n b \<Longrightarrow> breaker_agrees cfg n (fst (CanAttempt now b))"
    by (cases b) (auto simp: case_prod_unfold)
qed (cases b; simp)+

lemma state_inv_ops [simp, inv_intros]:
  "breaker_config_ok cfg \<Longrightarrow> state_inv cfg (fresh_state cfg name now)"
  "state_inv cfg s \<Longrightarrow> state_inv cfg (after_success status now s)"
  "state_inv cfg s \<Longrightarrow> state_inv cfg (after_failure k status e now s)"
  "state_inv cfg s \<Longrightarrow> state_inv cfg (s\<lparr>bhs_mcpRevision := r\<rparr>)"
  "state_inv cfg s \<Longrightarrow> state_inv cfg (s\<lparr>bhs_circuitBreaker := fst (CanAttempt now (bhs_circuitBreaker s))\<rparr>)"
  by (auto simp: state_inv_def fresh_state_def after_success_def after_failure_def Let_def)

fun view_inv :: "CircuitBreakerConfig option \<Rightarrow> backend_view \<Rightarrow> bool" where
  "view_inv cfg (Tracked s) = state_inv cfg s"
| "view_inv cfg v = True"

lemma view_inv_step [simp, inv_intros]:
  "breaker_config_ok cfg \<Longrightarrow> view_inv cfg v \<Longrightarrow> view_inv cfg (view_step k cfg op v)"
  by (induction k cfg op v rule: view_step.induct) simp_all

lemma tracker_inv_view:
  "tracker_inv t \<longleftrightarrow> gomap_ok (st_states t) \<and> gomap_ok (st_removedBackends t) \<and>
     1 \<le> st_unhealthyThreshold t \<and> breaker_config_ok (st_circuitBreakerConfig t) \<and>
     (\<forall>i. isRemoved t i \<longrightarrow> map_of (st_states t) i = None) \<and>
     (\<forall>i. view_inv (st_circuitBreakerConfig t) (tracker_view t i))"
  by (auto simp: tracker_inv_def tracker_view_def split: option.splits)
    (metis not_Some_eq, metis option.distinct(1))

lemma removed_untracked_step:
  assumes "\<forall>i. isRemoved t i \<longrightarrow> map_of (st_states t) i = None"
  shows "isRemoved (tracker_step (op, now) t) i \<longrightarrow> map_of (st_states (tracker_step (op, now) t)) i = None"
  using assms
  by (cases op) (auto simp: isRemoved_def tracker_defs split: option.splits prod.splits if_splits)

lemma tracker_inv_step [inv_intros]:
  assumes "tracker_inv t"
  shows "tracker_inv (tracker_step op t)"
proof -
  obtain c now where op: "op = (c, now)" by fastforce
  have "view_inv (st_circuitBreakerConfig t) (tracker_view (tracker_step (c, now) t) i)" for i
    using assms tracker_view_target [OF assms, of c now] tracker_view_other [of i c now t]
    by (cases "i = op_target c") (auto simp: tracker_inv_view)
  then show ?thesis
    using assms removed_untracked_step [of t c now]
    by (auto simp: op tracker_inv_view intro: gomap_ok_step)
qed

lemma tracker_inv_new [simp]: "breaker_config_ok cfg \<Longrightarrow> tracker_inv (newStatusTracker k cfg)"
  by (simp add: tracker_inv_def newStatusTracker_def)

section \<open>The contract the monitor relies on\<close>

text \<open>
  A store of per-backend views: a call moves only the view of the backend it names, by a function
  of that view, and a view that is gone comes back only through a reset.
\<close>

locale view_store =
  fixes apply_op :: "'o \<Rightarrow> 't \<Rightarrow> 't"
    and target :: "'o \<Rightarrow> string"
    and is_reset :: "'o \<Rightarrow> bool"
    and view :: "'t \<Rightarrow> string \<Rightarrow> 'v"
    and gone :: "'v"
    and next_view :: "'c \<Rightarrow> 'o \<Rightarrow> 'v \<Rightarrow> 'v"
    and config :: "'t \<Rightarrow> 'c"
    and invar :: "'t \<Rightarrow> bool"
  assumes invar_op: "invar t \<Longrightarrow> invar (apply_op c t)"
    and config_op: "config (apply_op c t) = config t"
    and view_op: "invar t \<Longrightarrow> view (apply_op c t) i =
      (if i = target c then next_view (config t) c (view t i) else view t i)"
    and gone_op: "\<not> is_reset c \<Longrightarrow> next_view k c gone = gone"
begin

lemma fold_invar: "invar t \<Longrightarrow> invar (fold apply_op cs t)"
  by (induction cs arbitrary: t) (simp_all add: invar_op)

lemma fold_config: "config (fold apply_op cs t) = config t"
  by (induction cs arbitrary: t) (simp_all add: config_op)

lemma fold_view:
  "invar t \<Longrightarrow> view (fold apply_op cs t) i =
    fold (next_view (config t)) (filter (\<lambda>c. target c = i) cs) (view t i)"
  by (induction cs arbitrary: t) (auto simp: invar_op config_op view_op)

lemma gone_fold:
  assumes "invar t" "view t i = gone" "\<forall>c \<in> set cs. target c = i \<longrightarrow> \<not> is_reset c"
  shows "view (fold apply_op cs t) i = gone"
  using assms
proof (induction cs arbitrary: t)
  case (Cons c cs)
  have "view (apply_op c t) i = gone" using Cons.prems gone_op [of c "config t"] by (auto simp: view_op)
  then show ?case using Cons by (simp add: invar_op)
qed simp

end

fun is_clear :: "tracker_op \<times> gotime \<Rightarrow> bool" where
  "is_clear (OpClear i, now) = True"
| "is_clear _ = False"

lemma is_clear_iff: "is_clear c \<longleftrightarrow> (\<exists>i. fst c = OpClear i)"
  by (cases c rule: is_clear.cases) auto

interpretation trk: view_store tracker_step "\<lambda>c. op_target (fst c)" is_clear tracker_view Removed
  "\<lambda>(k, cfg). view_step k cfg" "\<lambda>t. (st_unhealthyThreshold t, st_circuitBreakerConfig t)" tracker_inv
proof unfold_locales
  fix c :: "tracker_op \<times> gotime" and t i
  obtain o' now where c: "c = (o', now)" by fastforce
  show "tracker_inv t \<Longrightarrow> tracker_inv (tracker_step c t)" by (rule tracker_inv_step)
  show "(st_unhealthyThreshold (tracker_step c t), st_circuitBreakerConfig (tracker_step c t)) =
      (st_unhealthyThreshold t, st_circuitBreakerConfig t)" by (simp add: c)
  show "tracker_inv t \<Longrightarrow> tracker_view (tracker_step c t) i =
      (if i = op_target (fst c) then (case (st_unhealthyThreshold t, st_circuitBreakerConfig t) of
         (k, cfg) \<Rightarrow> view_step k cfg) c (tracker_view t i) else tracker_view t i)"
    using tracker_view_target [of t o' now] tracker_view_other [of i o' now t] by (simp add: c)
next
  fix c :: "tracker_op \<times> gotime" and k :: "int \<times> CircuitBreakerConfig option"
  show "\<not> is_clear c \<Longrightarrow> (case k of (k, cfg) \<Rightarrow> view_step k cfg) c Removed = Removed"
    by (cases k; cases c; cases "fst c") auto
qed

lemma GetState_view:
  assumes "tracker_inv t"
  shows "tracker_GetState t i = (case tracker_view t i of Tracked s \<Rightarrow> Some (copyState s) | _ \<Rightarrow> None)"
    and "tracker_GetStatus t i = (case tracker_view t i of Tracked s \<Rightarrow> (bhs_status s, True)
      | _ \<Rightarrow> (BackendUnknown, False))"
  using assms by (auto simp: tracker_view_def tracker_inv_view tracker_GetState_def tracker_GetStatus_def
      split: option.splits)

section \<open>Properties of the tracker\<close>

text \<open>
  Claim C28: Whatever sequence of calls concurrent callers make, the tracker keeps one state per
  backend, no state for a removed backend, an error stored exactly while failures are pending,
  and, when the circuit breaker is enabled, a breaker whose failure count is the backend's count
  of consecutive failures.
\<close>

theorem tracker_invariant:
  assumes "breaker_config_ok cfg"
  shows "tracker_inv (tracker_run ops (newStatusTracker threshold cfg))"
  using assms by (intro trk.fold_invar) simp

theorem tracker_invariant_witness:
  "tracker_inv (tracker_run [(OpFailure ''a'' ''A'' BackendUnhealthy (new_error ''x''), 1), (OpRemove ''a'', 2),
     (OpSuccess ''a'' ''A'' BackendHealthy, 3)]
     (newStatusTracker 3 (Some \<lparr>cbc_Enabled = True, cbc_FailureThreshold = 5, cbc_Timeout = 60\<rparr>)))"
  by (rule tracker_invariant) (simp add: breaker_config_ok_def)

text \<open>
  Claim C5: Refinement: what the tracker holds of a backend after any interleaving of calls is what
  the backend's own machine holds after the calls that name it, in their order. Calls about other
  backends never show.
\<close>

theorem tracker_refines_view:
  assumes "breaker_config_ok cfg"
  shows "tracker_view (tracker_run ops (newStatusTracker threshold cfg)) i =
    fold (view_step (max 1 threshold) cfg) (filter (\<lambda>c. op_target (fst c) = i) ops) Untracked"
proof -
  have "tracker_view (newStatusTracker threshold cfg) i = Untracked"
    "st_unhealthyThreshold (newStatusTracker threshold cfg) = max 1 threshold"
    "st_circuitBreakerConfig (newStatusTracker threshold cfg) = cfg"
    by (auto simp: newStatusTracker_def tracker_view_def isRemoved_def)
  then show ?thesis using trk.fold_view [of "newStatusTracker threshold cfg" ops i] assms by simp
qed

theorem tracker_refines_view_witness:
  "tracker_view (tracker_run [(OpFailure ''a'' ''A'' BackendUnhealthy (new_error ''x''), 1), (OpRemove ''a'', 2),
     (OpSuccess ''b'' ''B'' BackendHealthy, 3), (OpSuccess ''a'' ''A'' BackendHealthy, 4)]
     (newStatusTracker 3 None)) ''a'' = Removed"
  using tracker_refines_view [of None "[(OpFailure ''a'' ''A'' BackendUnhealthy (new_error ''x''), 1),
     (OpRemove ''a'', 2), (OpSuccess ''b'' ''B'' BackendHealthy, 3), (OpSuccess ''a'' ''A'' BackendHealthy, 4)]" 3 "''a''"]
  by (simp add: breaker_config_ok_def)

text \<open>
  Once a backend is removed, no later result of a check still in flight brings it back:
  until its removed flag is cleared, every sequence of calls leaves it untracked.
\<close>

theorem removed_backend_stays_gone:
  assumes "tracker_inv t" and "\<forall>c \<in> set ops. fst c \<noteq> OpClear i"
  shows "tracker_GetState (tracker_run ops (tracker_RemoveBackend i t)) i = None
    \<and> tracker_GetStatus (tracker_run ops (tracker_RemoveBackend i t)) i = (BackendUnknown, False)"
proof -
  let ?t = "tracker_RemoveBackend i t"
  have inv: "tracker_inv ?t" using tracker_inv_step [OF assms(1), of "(OpRemove i, 0)"] by simp
  have gone: "tracker_view ?t i = Removed" by (simp add: tracker_view_def tracker_RemoveBackend_def)
  have "\<forall>c \<in> set ops. op_target (fst c) = i \<longrightarrow> \<not> is_clear c"
    using assms(2) by (auto simp: is_clear_iff)
  from trk.gone_fold [OF inv gone this] trk.fold_invar [OF inv, of ops]
  show "tracker_GetState (tracker_run ops ?t) i = None
    \<and> tracker_GetStatus (tracker_run ops ?t) i = (BackendUnknown, False)"
    by (simp add: GetState_view)
qed

theorem removed_backend_stays_gone_witness:
  "tracker_GetState (tracker_run [(OpSuccess ''a'' ''A'' BackendHealthy, 4), (OpRevision ''a'' ''r'', 5)]
     (tracker_RemoveBackend ''a'' (tracker_RecordSuccess ''a'' ''A'' BackendHealthy 1 (newStatusTracker 3 None)))) ''a''
   = None"
proof -
  have "tracker_inv (tracker_RecordSuccess ''a'' ''A'' BackendHealthy 1 (newStatusTracker 3 None))"
    using tracker_inv_step [of "newStatusTracker 3 None" "(OpSuccess ''a'' ''A'' BackendHealthy, 1)"]
    by (simp add: breaker_config_ok_def)
  then show ?thesis by (rule removed_backend_stays_gone [THEN conjunct1]) simp
qed

subsection \<open>Failures and recovery\<close>

lemma fold_after_failure:
  fixes fs :: "(BackendHealthStatus \<times> goerror \<times> gotime) list" and s :: backendHealthState
  shows "let s' = fold (\<lambda>(status, e, now). after_failure k status e now) fs s in
    bhs_consecutiveFailures s' = bhs_consecutiveFailures s + int (length fs)
    \<and> bhs_status s' = (if fs = [] \<or> bhs_consecutiveFailures s + int (length fs) < k
        then bhs_status s else fst (last fs))"
  by (induction fs rule: rev_induct) (auto simp: after_failure_def Let_def case_prod_unfold)

abbreviation failure_ops :: "string \<Rightarrow> string \<Rightarrow> (BackendHealthStatus \<times> goerror \<times> gotime) list
    \<Rightarrow> (tracker_op \<times> gotime) list" where
  "failure_ops i n \<equiv> map (\<lambda>(status, e, now). (OpFailure i n status e, now))"

lemma view_failures:
  "fold (view_step k cfg) (failure_ops i n fs) (Tracked s) =
     Tracked (fold (\<lambda>(status, e, now). after_failure k status e now) fs s)"
  by (induction fs arbitrary: s) auto

lemma filter_failure_ops [simp]: "filter (\<lambda>c. op_target (fst c) = i) (failure_ops i n fs) = failure_ops i n fs"
  by (induction fs) auto

lemma breaker_agrees_state:
  "breaker_agrees cfg n b \<Longrightarrow> snap_State (GetSnapshot b) = CircuitClosed \<longleftrightarrow>
     (breaker_enabled cfg \<longrightarrow> n < cbc_FailureThreshold (the cfg))"
  by (cases b) (auto simp: cb_inv_def cb_GetSnapshot_def)

text \<open>
  A backend with no pending failures keeps its status through fewer consecutive failures
  than the unhealthy threshold; from the threshold on it has the status the last check reported.
  Its failure count is the number of failures, and an enabled circuit breaker has left the closed
  state exactly when that number has reached the breaker's own threshold.
\<close>

theorem failures_flip_at_threshold:
  assumes inv: "tracker_inv t" and s: "tracker_view t i = Tracked s" and zero: "bhs_consecutiveFailures s = 0"
    and fs: "fs \<noteq> []"
  shows "\<exists>r. tracker_GetState (tracker_run (failure_ops i n fs) t) i = Some r
    \<and> s_Status r = (if int (length fs) < st_unhealthyThreshold t then bhs_status s else fst (last fs))
    \<and> s_ConsecutiveFailures r = int (length fs)
    \<and> (s_CircuitState r = CircuitClosed \<longleftrightarrow>
        (breaker_enabled (st_circuitBreakerConfig t) \<longrightarrow>
         int (length fs) < cbc_FailureThreshold (the (st_circuitBreakerConfig t))))"
proof -
  let ?t = "tracker_run (failure_ops i n fs) t"
  let ?s = "fold (\<lambda>(status, e, now). after_failure (st_unhealthyThreshold t) status e now) fs s"
  have inv': "tracker_inv ?t" by (rule trk.fold_invar [OF inv])
  have v: "tracker_view ?t i = Tracked ?s"
    using trk.fold_view [OF inv, of "failure_ops i n fs" i] s by (simp add: view_failures)
  have "st_circuitBreakerConfig ?t = st_circuitBreakerConfig t" using trk.fold_config by simp
  then have "state_inv (st_circuitBreakerConfig t) ?s" using inv' v by (auto simp: tracker_inv_view dest: spec [of _ i])
  then show ?thesis
    using fold_after_failure [where k = "st_unhealthyThreshold t" and fs = fs and s = s] zero fs
    by (simp add: GetState_view [OF inv'] v copyState_def Let_def state_inv_def breaker_agrees_state)
qed

theorem failures_flip_at_threshold_witness:
  "\<exists>r. tracker_GetState (tracker_run (failure_ops ''a'' ''A''
      [(BackendUnhealthy, new_error ''x'', 2), (BackendUnauthenticated, new_error ''401'', 3)])
      (tracker_RecordSuccess ''a'' ''A'' BackendHealthy 1 (newStatusTracker 2 None))) ''a'' = Some r
    \<and> s_Status r = BackendUnauthenticated"
proof -
  let ?t = "tracker_RecordSuccess ''a'' ''A'' BackendHealthy 1 (newStatusTracker 2 None)"
  have "tracker_inv ?t"
    using tracker_inv_step [of "newStatusTracker 2 None" "(OpSuccess ''a'' ''A'' BackendHealthy, 1)"]
    by (simp add: breaker_config_ok_def)
  moreover have "\<exists>s. tracker_view ?t ''a'' = Tracked s \<and> bhs_consecutiveFailures s = 0 \<and> bhs_status s = BackendHealthy"
    "st_unhealthyThreshold ?t = 2"
    by (simp_all add: tracker_view_def tracker_defs newStatusTracker_def isRemoved_def)
  ultimately show ?thesis
    using failures_flip_at_threshold [of ?t "''a''" _
        "[(BackendUnhealthy, new_error ''x'', 2), (BackendUnauthenticated, new_error ''401'', 3)]" "''A''"]
    by fastforce
qed

lemma after_success_fields:
  "bhs_status (after_success st now s) = (if bhs_consecutiveFailures s > 0 then BackendDegraded else st)"
  "bhs_consecutiveFailures (after_success st now s) = 0"
  "bhs_lastError (after_success st now s) = None"
  by (simp_all add: after_success_def Let_def)

text \<open>
  Recovery takes two good checks: after failures, the first success reports the backend
  degraded, with its counters and error cleared and its circuit closed; the second reports the
  status the check itself gave.
\<close>

theorem recovery_in_two_checks:
  assumes inv: "tracker_inv t" and s: "tracker_view t i = Tracked s" and pending: "0 < bhs_consecutiveFailures s"
  shows "\<exists>r r'. tracker_GetState (tracker_RecordSuccess i n st now t) i = Some r
    \<and> tracker_GetState (tracker_RecordSuccess i n st' now' (tracker_RecordSuccess i n st now t)) i = Some r'
    \<and> s_Status r = BackendDegraded \<and> s_ConsecutiveFailures r = 0 \<and> s_LastErrorCategory r = ''''
    \<and> s_CircuitState r = CircuitClosed \<and> s_Status r' = st'"
proof -
  let ?t = "tracker_RecordSuccess i n st now t" and ?s = "after_success st now s"
  let ?u = "tracker_RecordSuccess i n st' now' ?t"
  have invs: "tracker_inv ?t" "tracker_inv ?u"
    using tracker_inv_step [OF inv, of "(OpSuccess i n st, now)"]
      tracker_inv_step [of ?t "(OpSuccess i n st', now')"] by simp_all
  have v: "tracker_view ?t i = Tracked ?s" "tracker_view ?u i = Tracked (after_success st' now' ?s)"
    using tracker_view_target [OF inv, of "OpSuccess i n st" now]
      tracker_view_target [OF invs(1), of "OpSuccess i n st'" now'] s by simp_all
  have "state_inv (st_circuitBreakerConfig ?t) ?s" "breaker_config_ok (st_circuitBreakerConfig ?t)"
    using invs(1) v by (auto simp: tracker_inv_view dest: spec [of _ i])
  then have "snap_State (GetSnapshot (bhs_circuitBreaker ?s)) = CircuitClosed"
    by (auto simp: state_inv_def after_success_fields breaker_agrees_state breaker_config_ok_def)
  then show ?thesis
    using pending by (simp add: GetState_view invs v copyState_def Let_def after_success_fields sanitizeError_def)
qed

theorem recovery_in_two_checks_witness:
  "\<exists>r. tracker_GetState (tracker_RecordSuccess ''a'' ''A'' BackendHealthy 3
      (tracker_RecordSuccess ''a'' ''A'' BackendHealthy 2
        (tracker_RecordFailure ''a'' ''A'' BackendUnhealthy (Some (new_error ''x'')) 1 (newStatusTracker 1 None)))) ''a''
      = Some r \<and> s_Status r = BackendHealthy"
proof -
  let ?t = "tracker_RecordFailure ''a'' ''A'' BackendUnhealthy (Some (new_error ''x'')) 1 (newStatusTracker 1 None)"
  have "tracker_inv ?t"
    using tracker_inv_step [of "newStatusTracker 1 None" "(OpFailure ''a'' ''A'' BackendUnhealthy (new_error ''x''), 1)"]
    by (simp add: breaker_config_ok_def)
  moreover have "\<exists>s. tracker_view ?t ''a'' = Tracked s \<and> 0 < bhs_consecutiveFailures s"
    by (simp add: tracker_view_def tracker_defs newStatusTracker_def isRemoved_def)
  ultimately show ?thesis
    using recovery_in_two_checks [of ?t "''a''" _ "''A''" BackendHealthy 2 BackendHealthy 3] by blast
qed

text \<open>
  The reported transition time is sound: a call that leaves a tracked backend tracked moves
  the time of its last transition exactly when it changes the backend's status, and then to the
  moment of the call.
\<close>

theorem transition_time_sound:
  assumes inv: "tracker_inv t" and r: "tracker_GetState t i = Some r"
    and r': "tracker_GetState (tracker_step (c, now) t) i = Some r'"
  shows "s_LastTransitionTime r' = (if s_Status r' = s_Status r then s_LastTransitionTime r else now)"
proof (cases "i = op_target c")
  case False
  then show ?thesis
    using r r' tracker_view_other [OF False, of now t] by (auto simp: GetState_view inv tracker_inv_step)
next
  case True
  obtain s where s: "tracker_view t i = Tracked s" "r = copyState s"
    using r by (auto simp: GetState_view inv split: backend_view.splits)
  obtain s' where s': "tracker_view (tracker_step (c, now) t) i = Tracked s'" "r' = copyState s'"
    using r' by (auto simp: GetState_view [OF tracker_inv_step [OF inv]] split: backend_view.splits)
  have "view_step (st_unhealthyThreshold t) (st_circuitBreakerConfig t) (c, now) (Tracked s) = Tracked s'"
    using tracker_view_target [OF inv, of c now] True s s' by simp
  then show ?thesis
    by (cases c) (auto simp: s s' copyState_def after_success_def after_failure_def Let_def)
qed

theorem transition_time_sound_witness:
  "\<exists>r'. tracker_GetState (tracker_step (OpFailure ''a'' ''A'' BackendUnhealthy (new_error ''x''), 7)
      (tracker_RecordSuccess ''a'' ''A'' BackendHealthy 2 (newStatusTracker 1 None))) ''a'' = Some r'
    \<and> s_LastTransitionTime r' = 7"
proof -
  let ?t = "tracker_RecordSuccess ''a'' ''A'' BackendHealthy 2 (newStatusTracker 1 None)"
  have inv: "tracker_inv ?t"
    using tracker_inv_step [of "newStatusTracker 1 None" "(OpSuccess ''a'' ''A'' BackendHealthy, 2)"]
    by (simp add: breaker_config_ok_def)
  have "\<exists>r. tracker_GetState ?t ''a'' = Some r \<and> s_Status r = BackendHealthy"
    "\<exists>r'. tracker_GetState (tracker_step (OpFailure ''a'' ''A'' BackendUnhealthy (new_error ''x''), 7) ?t) ''a'' = Some r'
      \<and> s_Status r' = BackendUnhealthy"
    by (simp_all add: tracker_GetState_def tracker_defs newStatusTracker_def isRemoved_def copyState_def)
  then show ?thesis using transition_time_sound [OF inv] by fastforce
qed

section \<open>Properties of the checker\<close>

text \<open>
  A check returns no error exactly when it reports the backend healthy or degraded, and
  otherwise reports it unhealthy or unauthenticated; unauthenticated is reported only of a backend
  with no outgoing authentication strategy. So an authentication challenge from a backend that has
  a strategy never counts as a failure.
\<close>

theorem CheckHealth_outcome:
  assumes "CheckHealth h target = (status, err)"
  shows "(err = None \<longrightarrow> status \<in> {BackendHealthy, BackendDegraded})
    \<and> (err \<noteq> None \<longrightarrow> status \<in> {BackendUnhealthy, BackendUnauthenticated})
    \<and> (status = BackendUnauthenticated \<longrightarrow> (\<forall>a. t_AuthConfig target = Some a \<longrightarrow> auth_Type a = StrategyTypeUnauthenticated))
    \<and> (\<forall>a e d deadline. t_AuthConfig target = Some a \<and> auth_Type a \<noteq> StrategyTypeUnauthenticated
        \<and> hc_client h (if hc_timeout h > 0 then Some (hc_timeout h) else None) target = (Some e, d)
        \<and> (errors_Is e ErrAuthenticationFailed \<or> errors_Is e ErrAuthorizationFailed)
        \<longrightarrow> (status, err) = (BackendHealthy, None))"
  using assms
  by (auto simp: CheckHealth_def categorizeError_def authErrorStatus_def Let_def
      split: prod.splits option.splits if_splits)

theorem CheckHealth_outcome_witness:
  "fst (CheckHealth (NewHealthChecker (\<lambda>d t. (None, 7)) 10 5) (zero_BackendTarget))
     \<in> {BackendHealthy, BackendDegraded}"
proof -
  have "CheckHealth (NewHealthChecker (\<lambda>d t. (None, 7)) 10 5) zero_BackendTarget = (BackendDegraded, None)"
    by (simp add: CheckHealth_def NewHealthChecker_def)
  from CheckHealth_outcome [OF this] show ?thesis using \<open>CheckHealth _ _ = _\<close> by simp
qed

text \<open>
  The error category exposed for a backend is one of seven fixed words whatever the error's
  text, and is empty exactly when no failure is pending, so that no part of an error message
  reaches the status API.
\<close>

theorem error_category_fixed:
  assumes "tracker_inv t" and "tracker_GetState t i = Some r"
  shows "s_LastErrorCategory r \<in> {'''', ''authentication_failed'', ''timeout'', ''cancelled'',
      ''backend_unavailable'', ''connection_failed'', ''health_check_failed''}
    \<and> (s_LastErrorCategory r = '''' \<longleftrightarrow> s_ConsecutiveFailures r = 0)"
proof -
  obtain s where s: "tracker_view t i = Tracked s" "r = copyState s"
    using assms by (auto simp: GetState_view split: backend_view.splits)
  then have "state_inv (st_circuitBreakerConfig t) s"
    using assms(1) by (auto simp: tracker_inv_view dest: spec [of _ i])
  then show ?thesis
    by (auto simp: s copyState_def state_inv_def sanitizeError_def Let_def split: option.splits)
qed

theorem error_category_fixed_witness:
  "\<exists>r. tracker_GetState (tracker_RecordFailure ''a'' ''A'' BackendUnhealthy (Some (new_error ''http://secret'')) 1
      (newStatusTracker 1 None)) ''a'' = Some r \<and> s_LastErrorCategory r \<noteq> ''''"
proof -
  let ?t = "tracker_RecordFailure ''a'' ''A'' BackendUnhealthy (Some (new_error ''http://secret'')) 1 (newStatusTracker 1 None)"
  have inv: "tracker_inv ?t"
    using tracker_inv_step [of "newStatusTracker 1 None"
        "(OpFailure ''a'' ''A'' BackendUnhealthy (new_error ''http://secret''), 1)"]
    by (simp add: breaker_config_ok_def)
  have "\<exists>r. tracker_GetState ?t ''a'' = Some r \<and> s_ConsecutiveFailures r = 1"
    by (simp add: tracker_GetState_def tracker_defs newStatusTracker_def isRemoved_def copyState_def)
  then show ?thesis using error_category_fixed [OF inv] by fastforce
qed

end
