(* ===== verification/Health_Monitor.thy ===== *)
theory Health_Monitor
  imports Health_Status
begin

text \<open>
  The health monitor of \<open>pkg/vmcp/health/monitor.go\<close>: its lifecycle (\<open>Start\<close>, \<open>Stop\<close>,
  \<open>UpdateBackends\<close>) and the goroutine that checks each backend. Goroutines, contexts and wait
  groups are explicit: a goroutine has an identifier, its cancellation flag and a program counter;
  the wait groups are counters. \<open>mon_step\<close> interleaves them as the locks allow: \<open>Start\<close> and
  \<open>Stop\<close> hold \<open>m.mu\<close>; \<open>UpdateBackends\<close> holds it too, and each iteration of its loops, which
  makes at most one call to the tracker, is a step, between which the goroutines may run.
\<close>

section \<open>State\<close>

datatype Revision = RevisionLegacy | RevisionModern

fun revision_String :: "Revision \<Rightarrow> string" where
  "revision_String RevisionModern = ''2026-07-28''"
| "revision_String RevisionLegacy = ''2025-11-25''"

record backendCheck =
  bc_backend :: Backend
  bc_go :: nat

text \<open>
  The program counter of \<open>monitorBackend\<close>: before a check, waiting for the backend's answer, the
  result recorded and the revision outstanding, and in the \<open>select\<close>. The flag marks the first check.
\<close>

datatype go_phase = Checking bool | Probing bool | Recorded bool | Selecting

record goroutine =
  g_backend :: Backend
  g_isInitial :: bool
  g_cancelled :: bool
  g_phase :: go_phase

datatype update_action = StartCheck Backend | StopCheck string

record Monitor =
  mon_checker :: healthChecker
  mon_revisions :: bool
  mon_statusTracker :: statusTracker
  mon_checkInterval :: duration
  mon_backends :: "Backend list"
  mon_activeChecks :: "(string, backendCheck) gomap"
  mon_ctxDone :: bool
  mon_goroutines :: "(nat, goroutine) gomap"
  mon_nextGo :: nat
  mon_initialCheckWg :: int
  mon_started :: bool
  mon_stopped :: bool
  mon_todo :: "update_action list"

record MonitorConfig =
  mc_CheckInterval :: duration
  mc_UnhealthyThreshold :: int
  mc_Timeout :: duration
  mc_DegradedThreshold :: duration
  mc_CircuitBreaker :: "CircuitBreakerConfig option"

definition second :: duration where
  "second = 1000000000"

definition DefaultConfig :: MonitorConfig where
  "DefaultConfig = \<lparr>mc_CheckInterval = 30 * second, mc_UnhealthyThreshold = 3, mc_Timeout = 10 * second,
     mc_DegradedThreshold = 5 * second, mc_CircuitBreaker = None\<rparr>"

definition new_monitor :: "(duration option \<Rightarrow> BackendTarget \<Rightarrow> goerror option \<times> duration) \<Rightarrow> bool
    \<Rightarrow> Backend list \<Rightarrow> MonitorConfig \<Rightarrow> Monitor" where
  "new_monitor client reports backends config =
     \<lparr>mon_checker = NewHealthChecker client (mc_Timeout config) (mc_DegradedThreshold config),
      mon_revisions = reports,
      mon_statusTracker = newStatusTracker (mc_UnhealthyThreshold config) (mc_CircuitBreaker config),
      mon_checkInterval = mc_CheckInterval config, mon_backends = backends, mon_activeChecks = [],
      mon_ctxDone = False, mon_goroutines = [], mon_nextGo = 0, mon_initialCheckWg = 0,
      mon_started = False, mon_stopped = False, mon_todo = []\<rparr>"

text \<open>
  The client is the parameter of the checker; the flag says whether it also implements
  \<open>RevisionReporter\<close>. Durations in error texts are written as integers.
\<close>

definition NewMonitor :: "(duration option \<Rightarrow> BackendTarget \<Rightarrow> goerror option \<times> duration) \<Rightarrow> bool
    \<Rightarrow> Backend list \<Rightarrow> MonitorConfig \<Rightarrow> goerror + Monitor" where
  "NewMonitor client reports backends config =
     (if mc_CheckInterval config \<le> 0
      then Inl (new_error (''check interval must be > 0, got '' @ show_int (mc_CheckInterval config)))
      else if mc_UnhealthyThreshold config < 1
      then Inl (new_error (''unhealthy threshold must be >= 1, got '' @ show_int (mc_UnhealthyThreshold config)))
      else case mc_CircuitBreaker config of
        Some cb \<Rightarrow>
          if cbc_Enabled cb \<and> cbc_FailureThreshold cb < 1
          then Inl (new_error (''circuit breaker failure threshold must be >= 1, got ''
                 @ show_int (cbc_FailureThreshold cb)))
          else if cbc_Enabled cb \<and> cbc_Timeout cb \<le> 0
          then Inl (new_error (''circuit breaker timeout must be > 0, got '' @ show_int (cbc_Timeout cb)))
          else Inr (new_monitor client reports backends config)
      | None \<Rightarrow> Inr (new_monitor client reports backends config))"

section \<open>Starting and stopping goroutines\<close>

definition bc_start :: "Backend \<Rightarrow> bool \<Rightarrow> Monitor \<Rightarrow> Monitor \<times> backendCheck" where
  "bc_start backend isInitial m =
     (m\<lparr>mon_goroutines := mon_goroutines m @ [(mon_nextGo m,
          \<lparr>g_backend = backend, g_isInitial = isInitial, g_cancelled = False, g_phase = Checking True\<rparr>)],
        mon_nextGo := mon_nextGo m + 1,
        mon_initialCheckWg := (if isInitial then mon_initialCheckWg m + 1 else mon_initialCheckWg m)\<rparr>,
      \<lparr>bc_backend = backend, bc_go = mon_nextGo m\<rparr>)"

definition bc_stop :: "backendCheck \<Rightarrow> Monitor \<Rightarrow> Monitor" where
  "bc_stop bc m = m\<lparr>mon_goroutines :=
     map (\<lambda>(k, g). if k = bc_go bc then (k, g\<lparr>g_cancelled := True\<rparr>) else (k, g)) (mon_goroutines m)\<rparr>"

definition start_check :: "bool \<Rightarrow> Backend \<Rightarrow> Monitor \<Rightarrow> Monitor" where
  "start_check isInitial b m = (case bc_start b isInitial m of (m1, bc) \<Rightarrow>
     m1\<lparr>mon_activeChecks := AList.update (b_ID b) bc (mon_activeChecks m1)\<rparr>)"

section \<open>Lifecycle\<close>

text \<open>
  The context is \<open>None\<close> when the caller passes nil, and otherwise says whether it is already
  cancelled.
\<close>

definition monitor_Start :: "bool option \<Rightarrow> Monitor \<Rightarrow> Monitor \<times> goerror option" where
  "monitor_Start ctx m =
     (if mon_stopped m then (m, Some (new_error ''monitor has been stopped and cannot be restarted''))
      else if mon_started m then (m, Some (new_error ''monitor already started''))
      else case ctx of None \<Rightarrow> (m, Some (new_error ''context cannot be nil''))
      | Some cancelled \<Rightarrow>
          (fold (start_check True) (mon_backends m) (m\<lparr>mon_ctxDone := cancelled, mon_started := True\<rparr>), None))"

definition WaitForInitialHealthChecks_returns :: "Monitor \<Rightarrow> bool" where
  "WaitForInitialHealthChecks_returns m \<longleftrightarrow> mon_initialCheckWg m = 0"

text \<open>\<open>Stop\<close> up to the release of \<open>m.mu\<close>; then it waits until no goroutine is left.\<close>

definition monitor_Stop :: "Monitor \<Rightarrow> Monitor \<times> goerror option" where
  "monitor_Stop m = (if \<not> mon_started m then (m, Some (new_error ''monitor not started''))
     else (m\<lparr>mon_ctxDone := True, mon_started := False, mon_stopped := True\<rparr>, None))"

definition Stop_returns :: "Monitor \<Rightarrow> bool" where
  "Stop_returns m \<longleftrightarrow> mon_goroutines m = []"

definition backendChanged :: "Backend \<Rightarrow> Backend \<Rightarrow> bool" where
  "backendChanged old updated \<longleftrightarrow> b_BaseURL old \<noteq> b_BaseURL updated \<or> b_TransportType old \<noteq> b_TransportType updated"

definition newBackendsMap :: "Backend list \<Rightarrow> (string, Backend) gomap" where
  "newBackendsMap newBackends = fold (\<lambda>b. AList.update (b_ID b) b) newBackends []"

fun update_iteration :: "update_action \<Rightarrow> Monitor \<Rightarrow> Monitor" where
  "update_iteration (StartCheck backend) m =
     (let clear = (\<lambda>m. m\<lparr>mon_statusTracker := tracker_ClearRemovedFlag (b_ID backend) (mon_statusTracker m)\<rparr>) in
      case map_of (mon_activeChecks m) (b_ID backend) of
        Some existing \<Rightarrow>
          if \<not> backendChanged (bc_backend existing) backend then m
          else start_check False backend (clear (bc_stop existing m))
      | None \<Rightarrow> start_check False backend (clear m))"
| "update_iteration (StopCheck i) m = (case map_of (mon_activeChecks m) i of None \<Rightarrow> m
     | Some bc \<Rightarrow>
         let m1 = bc_stop bc m in
         m1\<lparr>mon_activeChecks := AList.delete i (mon_activeChecks m1),
            mon_statusTracker := tracker_RemoveBackend i (mon_statusTracker m1)\<rparr>)"

definition start_actions :: "Backend list \<Rightarrow> update_action list" where
  "start_actions newBackends = map (\<lambda>(i, b). StartCheck b) (newBackendsMap newBackends)"

definition stop_actions :: "Backend list \<Rightarrow> Monitor \<Rightarrow> update_action list" where
  "stop_actions newBackends m = map StopCheck
     (filter (\<lambda>i. map_of (newBackendsMap newBackends) i = None) (map fst (mon_activeChecks m)))"

text \<open>
  The iterations the two loops make, in the order of one traversal of each map: the first loop
  adds to the active checks only keys of the new map, which the second one skips.
\<close>

definition UpdateBackends :: "Backend list \<Rightarrow> Monitor \<Rightarrow> Monitor" where
  "UpdateBackends newBackends m = (if \<not> mon_started m \<or> mon_stopped m then m
     else fold update_iteration (start_actions newBackends @ stop_actions newBackends m)
            (m\<lparr>mon_backends := newBackends\<rparr>))"

section \<open>One health check\<close>

definition put_go :: "nat \<Rightarrow> goroutine \<Rightarrow> Monitor \<Rightarrow> Monitor" where
  "put_go k g m = m\<lparr>mon_goroutines := AList.update k g (mon_goroutines m)\<rparr>"

definition check_target :: "Backend \<Rightarrow> BackendTarget" where
  "check_target backend = zero_BackendTarget\<lparr>t_WorkloadID := b_ID backend, t_WorkloadName := b_Name backend,
     t_BaseURL := b_BaseURL backend, t_TransportType := b_TransportType backend,
     t_CABundlePath := b_CABundlePath backend, t_CABundleData := b_CABundleData backend,
     t_AuthConfig := b_AuthConfig backend, t_HeaderForward := b_HeaderForward backend,
     t_HealthStatus := BackendUnknown, t_Metadata := b_Metadata backend\<rparr>"

definition record_result :: "Backend \<Rightarrow> BackendHealthStatus \<times> goerror option \<Rightarrow> gotime
    \<Rightarrow> statusTracker \<Rightarrow> statusTracker" where
  "record_result backend result now t = (case result of
     (status, Some e) \<Rightarrow> tracker_RecordFailure (b_ID backend) (b_Name backend) status (Some e) now t
   | (status, None) \<Rightarrow> tracker_RecordSuccess (b_ID backend) (b_Name backend) status now t)"

definition record_revision :: "Backend \<Rightarrow> bool \<Rightarrow> Revision option \<Rightarrow> statusTracker \<Rightarrow> statusTracker" where
  "record_revision backend reports cached t = (if \<not> reports then t else case cached of None \<Rightarrow> t
     | Some revision \<Rightarrow> tracker_RecordRevision (b_ID backend) (revision_String revision) t)"

text \<open>
  \<open>performHealthCheck\<close> run without interruption, with the clock at its two calls to the tracker
  and the revision the client has cached.
\<close>

definition performHealthCheck :: "Backend \<Rightarrow> gotime \<Rightarrow> gotime \<Rightarrow> Revision option \<Rightarrow> Monitor \<Rightarrow> Monitor" where
  "performHealthCheck backend now1 now2 cached m =
     (case ShouldAttemptHealthCheck (b_ID backend) now1 (mon_statusTracker m) of (t1, ok) \<Rightarrow>
        if \<not> ok then m\<lparr>mon_statusTracker := t1\<rparr>
        else
          let result = CheckHealth (mon_checker m) (check_target backend);
              t2 = record_result backend result now2 t1;
              t3 = record_revision backend (mon_revisions m) cached t2
          in m\<lparr>mon_statusTracker := t3\<rparr>)"

section \<open>Steps of the system\<close>

definition finish_check :: "nat \<Rightarrow> goroutine \<Rightarrow> bool \<Rightarrow> Monitor \<Rightarrow> Monitor" where
  "finish_check k g first m =
     (let m1 = put_go k (g\<lparr>g_phase := Selecting\<rparr>) m in
      if first \<and> g_isInitial g then m1\<lparr>mon_initialCheckWg := mon_initialCheckWg m1 - 1\<rparr> else m1)"

definition go_check :: "nat \<Rightarrow> goroutine \<Rightarrow> bool \<Rightarrow> gotime \<Rightarrow> Monitor \<Rightarrow> Monitor" where
  "go_check k g first now m =
     (case ShouldAttemptHealthCheck (b_ID (g_backend g)) now (mon_statusTracker m) of (t, ok) \<Rightarrow>
        let m1 = m\<lparr>mon_statusTracker := t\<rparr> in
        if ok then put_go k (g\<lparr>g_phase := Probing first\<rparr>) m1 else finish_check k g first m1)"

definition go_record :: "nat \<Rightarrow> goroutine \<Rightarrow> bool \<Rightarrow> goerror option \<times> duration \<Rightarrow> gotime \<Rightarrow> Monitor \<Rightarrow> Monitor" where
  "go_record k g first answer now m =
     (let result = CheckHealth ((mon_checker m)\<lparr>hc_client := (\<lambda>deadline target. answer)\<rparr>)
            (check_target (g_backend g))
      in put_go k (g\<lparr>g_phase := Recorded first\<rparr>)
           (m\<lparr>mon_statusTracker := record_result (g_backend g) result now (mon_statusTracker m)\<rparr>))"

definition go_revision :: "nat \<Rightarrow> goroutine \<Rightarrow> bool \<Rightarrow> Revision option \<Rightarrow> Monitor \<Rightarrow> Monitor" where
  "go_revision k g first cached m = finish_check k g first
     (m\<lparr>mon_statusTracker := record_revision (g_backend g) (mon_revisions m) cached (mon_statusTracker m)\<rparr>)"

inductive mon_step :: "Monitor \<Rightarrow> Monitor \<Rightarrow> bool" where
  step_start: "mon_todo m = [] \<Longrightarrow> monitor_Start ctx m = (m', err) \<Longrightarrow> mon_step m m'"
| step_stop: "mon_todo m = [] \<Longrightarrow> monitor_Stop m = (m', err) \<Longrightarrow> mon_step m m'"
| step_parent_cancel: "mon_started m \<Longrightarrow> mon_step m (m\<lparr>mon_ctxDone := True\<rparr>)"
| step_update: "mon_todo m = [] \<Longrightarrow> mon_started m \<Longrightarrow> \<not> mon_stopped m \<Longrightarrow>
    mset starts = mset (start_actions bs) \<Longrightarrow> mset stops = mset (stop_actions bs m) \<Longrightarrow>
    mon_step m (m\<lparr>mon_backends := bs, mon_todo := starts @ stops\<rparr>)"
| step_iteration: "mon_todo m = a # as \<Longrightarrow> mon_step m (update_iteration a (m\<lparr>mon_todo := as\<rparr>))"
| step_check: "map_of (mon_goroutines m) k = Some g \<Longrightarrow> g_phase g = Checking first \<Longrightarrow>
    mon_step m (go_check k g first now m)"
| step_record: "map_of (mon_goroutines m) k = Some g \<Longrightarrow> g_phase g = Probing first \<Longrightarrow>
    mon_step m (go_record k g first answer now m)"
| step_revision: "map_of (mon_goroutines m) k = Some g \<Longrightarrow> g_phase g = Recorded first \<Longrightarrow>
    mon_step m (go_revision k g first cached m)"
| step_tick: "map_of (mon_goroutines m) k = Some g \<Longrightarrow> g_phase g = Selecting \<Longrightarrow>
    mon_step m (put_go k (g\<lparr>g_phase := Checking False\<rparr>) m)"
| step_exit: "map_of (mon_goroutines m) k = Some g \<Longrightarrow> g_phase g = Selecting \<Longrightarrow>
    g_cancelled g \<or> mon_ctxDone m \<Longrightarrow>
    mon_step m (m\<lparr>mon_goroutines := AList.delete k (mon_goroutines m)\<rparr>)"

inductive mon_reach :: "Monitor \<Rightarrow> Monitor \<Rightarrow> bool" for m0 where
  reach_init: "mon_reach m0 m0"
| reach_step: "mon_reach m0 m \<Longrightarrow> mon_step m m' \<Longrightarrow> mon_reach m0 m'"

definition GetBackendStatus :: "Monitor \<Rightarrow> string \<Rightarrow> goerror + BackendHealthStatus" where
  "GetBackendStatus m backendID = (case tracker_GetStatus (mon_statusTracker m) backendID of (status, exists) \<Rightarrow>
     if \<not> exists then Inl (new_error (''backend '' @ backendID @ '' not found'')) else Inr status)"

definition QueryBackendStatus :: "Monitor \<Rightarrow> string \<Rightarrow> BackendHealthStatus \<times> bool" where
  "QueryBackendStatus m backendID = tracker_GetStatus (mon_statusTracker m) backendID"

definition GetBackendState :: "Monitor \<Rightarrow> string \<Rightarrow> goerror + State" where
  "GetBackendState m backendID = (case tracker_GetState (mon_statusTracker m) backendID of
     None \<Rightarrow> Inl (new_error (''backend '' @ backendID @ '' not found'')) | Some state \<Rightarrow> Inr state)"

definition GetAllBackendStates :: "Monitor \<Rightarrow> (string, State) gomap" where
  "GetAllBackendStates m = tracker_GetAllStates (mon_statusTracker m)"

definition IsBackendHealthy :: "Monitor \<Rightarrow> string \<Rightarrow> bool" where
  "IsBackendHealthy m backendID = tracker_IsHealthy (mon_statusTracker m) backendID"

section \<open>Invariant\<close>

abbreviation go_id :: "goroutine \<Rightarrow> string" where
  "go_id g \<equiv> b_ID (g_backend g)"

fun first_due :: "go_phase \<Rightarrow> bool" where
  "first_due (Checking first) = first"
| "first_due (Probing first) = first"
| "first_due (Recorded first) = first"
| "first_due Selecting = False"

definition initial_due :: "goroutine \<Rightarrow> int" where
  "initial_due g = of_bool (g_isInitial g \<and> first_due (g_phase g))"

text \<open>
  What holds between the tracker, the active checks and the goroutines: a backend that is not
  actively checked is flagged removed, or has neither a state nor a goroutine; a backend that is
  actively checked is not flagged; a goroutine that is not cancelled is the one its backend's
  active check names; and \<open>initialCheckWg\<close> counts the initial goroutines that still owe their
  first check.
\<close>

definition checks_owned :: "Monitor \<Rightarrow> bool" where
  "checks_owned m \<longleftrightarrow> (\<forall>i. map_of (mon_activeChecks m) i = None \<longrightarrow>
     tracker_view (mon_statusTracker m) i = Removed \<or>
     tracker_view (mon_statusTracker m) i = Untracked \<and>
       (\<forall>k g. map_of (mon_goroutines m) k = Some g \<longrightarrow> go_id g \<noteq> i))"

definition checks_clear :: "Monitor \<Rightarrow> bool" where
  "checks_clear m \<longleftrightarrow> (\<forall>i bc. map_of (mon_activeChecks m) i = Some bc \<longrightarrow>
     tracker_view (mon_statusTracker m) i \<noteq> Removed \<and> b_ID (bc_backend bc) = i \<and> bc_go bc < mon_nextGo m)"

definition checks_unique :: "Monitor \<Rightarrow> bool" where
  "checks_unique m \<longleftrightarrow> (\<forall>k g. map_of (mon_goroutines m) k = Some g \<longrightarrow> k < mon_nextGo m \<and>
     (\<not> g_cancelled g \<longrightarrow> map_of (mon_activeChecks m) (go_id g) = Some \<lparr>bc_backend = g_backend g, bc_go = k\<rparr>))"

definition initial_count :: "Monitor \<Rightarrow> bool" where
  "initial_count m \<longleftrightarrow> mon_initialCheckWg m = (\<Sum>(k, g) \<leftarrow> mon_goroutines m. initial_due g)"

definition mon_core :: "Monitor \<Rightarrow> bool" where
  "mon_core m \<longleftrightarrow> tracker_inv (mon_statusTracker m) \<and> gomap_ok (mon_activeChecks m) \<and>
     gomap_ok (mon_goroutines m) \<and> checks_owned m \<and> checks_clear m \<and> checks_unique m \<and> initial_count m"

lemmas mon_core_defs = mon_core_def checks_owned_def checks_clear_def checks_unique_def initial_count_def

fun start_ids :: "update_action list \<Rightarrow> string set" where
  "start_ids [] = {}"
| "start_ids (StartCheck b # as) = insert (b_ID b) (start_ids as)"
| "start_ids (StopCheck i # as) = start_ids as"

fun stop_ids :: "update_action list \<Rightarrow> string set" where
  "stop_ids [] = {}"
| "stop_ids (StartCheck b # as) = stop_ids as"
| "stop_ids (StopCheck i # as) = insert i (stop_ids as)"

text \<open>
  The lifecycle flags, and how far an update in progress is: once started, the actively checked
  backends are the configured ones, except for those the update has still to start or stop.
\<close>

definition mon_life :: "Monitor \<Rightarrow> bool" where
  "mon_life m \<longleftrightarrow>
     (mon_started m \<longrightarrow> \<not> mon_stopped m) \<and> (mon_stopped m \<longrightarrow> mon_ctxDone m) \<and>
     (mon_todo m \<noteq> [] \<longrightarrow> mon_started m) \<and> distinct (mon_todo m) \<and>
     (\<not> mon_started m \<and> \<not> mon_stopped m \<longrightarrow> mon_goroutines m = [] \<and> mon_activeChecks m = [] \<and>
        (\<forall>i. tracker_view (mon_statusTracker m) i = Untracked) \<and> distinct (map b_ID (mon_backends m))) \<and>
     (mon_started m \<or> mon_stopped m \<longrightarrow>
        dom (map_of (mon_activeChecks m)) \<union> start_ids (mon_todo m) =
          b_ID ` set (mon_backends m) \<union> stop_ids (mon_todo m) \<and>
        start_ids (mon_todo m) \<subseteq> b_ID ` set (mon_backends m) \<and>
        stop_ids (mon_todo m) \<inter> b_ID ` set (mon_backends m) = {})"

definition mon_inv :: "Monitor \<Rightarrow> bool" where
  "mon_inv m \<longleftrightarrow> mon_core m \<and> mon_life m"

section \<open>Each step keeps the invariant\<close>

lemma sum_list_update:
  fixes f :: "'v \<Rightarrow> int"
  assumes "gomap_ok m" and "map_of m k = Some v"
  shows "(\<Sum>(k, v) \<leftarrow> AList.update k v' m. f v) = (\<Sum>(k, v) \<leftarrow> m. f v) - f v + f v'"
    and "(\<Sum>(k, v) \<leftarrow> AList.delete k m. f v) = (\<Sum>(k, v) \<leftarrow> m. f v) - f v"
  using assms
proof (induction m)
  case (Cons p m)
  have absent: "k \<notin> fst ` set m \<Longrightarrow> AList.delete k m = m" by (simp add: delete_idem)
  case 1 then show ?case using Cons.IH(1) by (cases p) (auto simp: gomap_ok_def)
  case 2 then show ?case using Cons.IH(2) absent by (cases p) (auto simp: gomap_ok_def)
qed simp_all

text \<open>The calls a goroutine makes: results and probes for its own backend.\<close>

fun is_result :: "string \<Rightarrow> tracker_op \<times> gotime \<Rightarrow> bool" where
  "is_result i (OpRemove j, now) = False"
| "is_result i (OpClear j, now) = False"
| "is_result i (c, now) = (op_target c = i)"

lemma result_view:
  assumes "tracker_inv t" and "is_result i c"
  shows "tracker_view (tracker_step c t) j = Removed \<longleftrightarrow> tracker_view t j = Removed"
    and "j \<noteq> i \<Longrightarrow> tracker_view (tracker_step c t) j = tracker_view t j"
proof -
  obtain o' now where c: "c = (o', now)" by fastforce
  have target: "op_target o' = i" using assms(2) c by (cases o') auto
  show "j \<noteq> i \<Longrightarrow> tracker_view (tracker_step c t) j = tracker_view t j"
    using trk.view_op [OF assms(1), of c j] target c by simp
  show "tracker_view (tracker_step c t) j = Removed \<longleftrightarrow> tracker_view t j = Removed"
    using trk.view_op [OF assms(1), of c j] assms(2) c
    by (cases o'; cases "tracker_view t j") (auto split: if_splits)
qed

lemma fold_result_view:
  assumes "tracker_inv t" and "\<forall>c \<in> set cs. is_result i c"
  shows "tracker_view (fold tracker_step cs t) j = Removed \<longleftrightarrow> tracker_view t j = Removed"
    and "j \<noteq> i \<Longrightarrow> tracker_view (fold tracker_step cs t) j = tracker_view t j"
  using assms by (induction cs arbitrary: t) (auto simp: tracker_inv_step result_view [where i = i])

lemma mon_core_go:
  assumes core: "mon_core m" and g: "map_of (mon_goroutines m) k = Some g"
    and cs: "\<forall>c \<in> set cs. is_result (go_id g) c"
    and g': "g_backend g' = g_backend g" "g_cancelled g' = g_cancelled g"
    and wg: "wg = mon_initialCheckWg m - initial_due g + initial_due g'"
  shows "mon_core (m\<lparr>mon_statusTracker := fold tracker_step cs (mon_statusTracker m),
    mon_goroutines := AList.update k g' (mon_goroutines m), mon_initialCheckWg := wg\<rparr>)" (is "mon_core ?m")
proof -
  let ?t = "mon_statusTracker m"
  have inv: "tracker_inv ?t" and ok: "gomap_ok (mon_goroutines m)" using core by (auto simp: mon_core_def)
  note view = fold_result_view [OF inv cs]
  have owned: "map_of (mon_activeChecks m) (go_id g) = None \<Longrightarrow> tracker_view ?t (go_id g) = Removed"
    using core g by (auto simp: mon_core_def checks_owned_def)
  have "checks_owned ?m"
    unfolding checks_owned_def
  proof (intro allI impI)
    fix i assume none: "map_of (mon_activeChecks ?m) i = None"
    show "tracker_view (mon_statusTracker ?m) i = Removed \<or> tracker_view (mon_statusTracker ?m) i = Untracked \<and>
        (\<forall>k g. map_of (mon_goroutines ?m) k = Some g \<longrightarrow> go_id g \<noteq> i)"
      using none owned view [of i] g' core by (cases "i = go_id g") (auto simp: mon_core_def checks_owned_def)
  qed
  moreover have "checks_clear ?m" using core view by (auto simp: mon_core_def checks_clear_def)
  moreover have "checks_unique ?m" using core g g' by (auto simp: mon_core_def checks_unique_def)
  moreover have "initial_count ?m"
    using core sum_list_update(1) [OF ok g, of initial_due g'] wg by (simp add: mon_core_def initial_count_def)
  ultimately show ?thesis
    using core trk.fold_invar [OF inv] by (simp add: mon_core_def)
qed

lemma mon_core_delete:
  assumes core: "mon_core m" and g: "map_of (mon_goroutines m) k = Some g" and phase: "g_phase g = Selecting"
  shows "mon_core (m\<lparr>mon_goroutines := AList.delete k (mon_goroutines m)\<rparr>)"
proof -
  have ok: "gomap_ok (mon_goroutines m)" using core by (simp add: mon_core_def)
  have "initial_due g = 0" by (simp add: initial_due_def phase)
  then show ?thesis
    using core sum_list_update(2) [OF ok g, of initial_due]
    by (auto simp: mon_core_defs fun_upd_def split: if_splits)
qed

lemma map_of_stop:
  "map_of (mon_goroutines (bc_stop bc m)) k =
     map_option (\<lambda>g. if k = bc_go bc then g\<lparr>g_cancelled := True\<rparr> else g) (map_of (mon_goroutines m) k)"
proof -
  have "map_of (map (\<lambda>(k, g). if k = n then (k, f g) else (k, g)) xs) k =
      map_option (\<lambda>g. if k = n then f g else g) (map_of xs k)" for n f and xs :: "(nat, goroutine) gomap"
    by (induction xs) auto
  then show ?thesis by (simp add: bc_stop_def)
qed

lemma stop_keeps [simp]:
  "mon_statusTracker (bc_stop bc m) = mon_statusTracker m" "mon_activeChecks (bc_stop bc m) = mon_activeChecks m"
  "mon_nextGo (bc_stop bc m) = mon_nextGo m" "mon_initialCheckWg (bc_stop bc m) = mon_initialCheckWg m"
  "mon_backends (bc_stop bc m) = mon_backends m" "mon_todo (bc_stop bc m) = mon_todo m"
  "mon_started (bc_stop bc m) = mon_started m" "mon_stopped (bc_stop bc m) = mon_stopped m"
  "mon_ctxDone (bc_stop bc m) = mon_ctxDone m"
  by (simp_all add: bc_stop_def)

lemma gomap_ok_stop [simp]: "gomap_ok (mon_goroutines (bc_stop bc m)) = gomap_ok (mon_goroutines m)"
  by (simp add: gomap_ok_def bc_stop_def comp_def case_prod_unfold if_distrib cong: if_cong)

lemma initial_due_stop [simp]:
  "(\<Sum>(k, g) \<leftarrow> mon_goroutines (bc_stop bc m). initial_due g) = (\<Sum>(k, g) \<leftarrow> mon_goroutines m. initial_due g)"
proof -
  have "(\<Sum>(k, g) \<leftarrow> map (\<lambda>(k, g). if k = n then (k, g\<lparr>g_cancelled := True\<rparr>) else (k, g)) xs. initial_due g) =
      (\<Sum>(k, g) \<leftarrow> xs. initial_due g)" for n and xs :: "(nat, goroutine) gomap"
    by (induction xs) (auto simp: initial_due_def)
  then show ?thesis by (simp add: bc_stop_def)
qed

lemma stopped_go:
  assumes "map_of (mon_goroutines (bc_stop bc m)) k = Some g"
  shows "\<exists>g'. map_of (mon_goroutines m) k = Some g' \<and> g_backend g = g_backend g' \<and>
    (\<not> g_cancelled g \<longrightarrow> g' = g \<and> k \<noteq> bc_go bc)"
  using assms by (cases "map_of (mon_goroutines m) k"; cases "k = bc_go bc") (auto simp: map_of_stop)

lemma mon_core_stop:
  assumes core: "mon_core m"
  shows "mon_core (bc_stop bc m)"
proof -
  have "checks_owned (bc_stop bc m)"
    using core unfolding mon_core_def checks_owned_def stop_keeps by (metis stopped_go)
  moreover have "checks_clear (bc_stop bc m)" using core by (simp add: mon_core_def checks_clear_def)
  moreover have "checks_unique (bc_stop bc m)"
    using core unfolding mon_core_def checks_unique_def stop_keeps by (metis stopped_go)
  moreover have "initial_count (bc_stop bc m)" using core by (simp add: mon_core_def initial_count_def)
  ultimately show ?thesis using core by (simp add: mon_core_def)
qed

lemma stop_cancels:
  assumes core: "mon_core m" and bc: "map_of (mon_activeChecks m) i = Some bc"
    and g: "map_of (mon_goroutines (bc_stop bc m)) k = Some g" and i: "go_id g = i"
  shows "g_cancelled g"
proof (rule ccontr)
  assume live: "\<not> g_cancelled g"
  then have "map_of (mon_goroutines m) k = Some g" and k: "k \<noteq> bc_go bc" using stopped_go [OF g] by auto
  then have "bc = \<lparr>bc_backend = g_backend g, bc_go = k\<rparr>"
    using core bc i live by (auto simp: mon_core_def checks_unique_def)
  with k show False by simp
qed

lemma start_fields [simp]:
  "mon_statusTracker (start_check init b m) = mon_statusTracker m"
  "mon_activeChecks (start_check init b m) =
     AList.update (b_ID b) \<lparr>bc_backend = b, bc_go = mon_nextGo m\<rparr> (mon_activeChecks m)"
  "mon_nextGo (start_check init b m) = mon_nextGo m + 1"
  "mon_initialCheckWg (start_check init b m) = (if init then mon_initialCheckWg m + 1 else mon_initialCheckWg m)"
  "mon_backends (start_check init b m) = mon_backends m" "mon_todo (start_check init b m) = mon_todo m"
  "mon_started (start_check init b m) = mon_started m" "mon_stopped (start_check init b m) = mon_stopped m"
  "mon_ctxDone (start_check init b m) = mon_ctxDone m"
  by (simp_all add: start_check_def bc_start_def)

lemma start_goroutines:
  "mon_goroutines (start_check init b m) = mon_goroutines m @ [(mon_nextGo m,
     \<lparr>g_backend = b, g_isInitial = init, g_cancelled = False, g_phase = Checking True\<rparr>)]"
  by (simp add: start_check_def bc_start_def)

lemma fresh_go:
  assumes "mon_core m"
  shows "map_of (mon_goroutines m) (mon_nextGo m) = None" and "mon_nextGo m \<notin> fst ` set (mon_goroutines m)"
proof -
  show none: "map_of (mon_goroutines m) (mon_nextGo m) = None"
    using assms by (auto simp: mon_core_def checks_unique_def intro: ccontr)
  then show "mon_nextGo m \<notin> fst ` set (mon_goroutines m)" by (simp add: map_of_eq_None_iff)
qed

lemma mon_core_start:
  assumes core: "mon_core m" and view: "tracker_view (mon_statusTracker m) (b_ID b) \<noteq> Removed"
    and free: "\<forall>k g. map_of (mon_goroutines m) k = Some g \<and> go_id g = b_ID b \<longrightarrow> g_cancelled g"
  shows "mon_core (start_check init b m)" (is "mon_core ?m")
proof -
  have gos: "map_of (mon_goroutines ?m) k = (if k = mon_nextGo m
      then Some \<lparr>g_backend = b, g_isInitial = init, g_cancelled = False, g_phase = Checking True\<rparr>
      else map_of (mon_goroutines m) k)" for k
    using fresh_go(1) [OF core] by (auto simp: start_goroutines map_of_append map_add_def split: option.splits)
  have "gomap_ok (mon_goroutines ?m)" using core fresh_go(2) [OF core] by (simp add: mon_core_def gomap_ok_def start_goroutines)
  moreover have "checks_owned ?m" using core by (auto simp: mon_core_def checks_owned_def gos)
  moreover have "checks_clear ?m" using core view by (auto simp: mon_core_def checks_clear_def less_SucI)
  moreover have "checks_unique ?m" using core free by (auto simp: mon_core_def checks_unique_def gos less_SucI)
  moreover have "initial_count ?m" using core by (simp add: mon_core_def initial_count_def initial_due_def start_goroutines)
  ultimately show ?thesis using core by (simp add: mon_core_def)
qed

lemma mon_core_flags [simp]:
  "mon_core (m\<lparr>mon_todo := td\<rparr>) = mon_core m" "mon_core (m\<lparr>mon_backends := bs\<rparr>) = mon_core m"
  "mon_core (m\<lparr>mon_ctxDone := d\<rparr>) = mon_core m" "mon_core (m\<lparr>mon_started := st\<rparr>) = mon_core m"
  "mon_core (m\<lparr>mon_stopped := sp\<rparr>) = mon_core m"
  by (simp_all add: mon_core_defs)

lemma view_clear:
  assumes "tracker_inv t"
  shows "tracker_view (tracker_ClearRemovedFlag i t) j =
    (if j = i \<and> tracker_view t i = Removed then Untracked else tracker_view t j)"
  using trk.view_op [OF assms, of "(OpClear i, 0)" j] by (cases "tracker_view t i") auto

lemma view_remove:
  assumes "tracker_inv t"
  shows "tracker_view (tracker_RemoveBackend i t) j = (if j = i then Removed else tracker_view t j)"
  using trk.view_op [OF assms, of "(OpRemove i, 0)" j] by simp

lemma tracker_inv_flags [simp]:
  "tracker_inv t \<Longrightarrow> tracker_inv (tracker_ClearRemovedFlag i t)"
  "tracker_inv t \<Longrightarrow> tracker_inv (tracker_RemoveBackend i t)"
  using tracker_inv_step [of t "(OpClear i, 0)"] tracker_inv_step [of t "(OpRemove i, 0)"] by simp_all

text \<open>
  Clearing the flag of a backend breaks \<open>checks_owned\<close> for it alone until its new check starts.
\<close>

lemma mon_core_clear_start:
  assumes core: "mon_core m"
    and free: "\<forall>k g. map_of (mon_goroutines m) k = Some g \<and> go_id g = b_ID b \<longrightarrow> g_cancelled g"
  shows "mon_core (start_check False b
    (m\<lparr>mon_statusTracker := tracker_ClearRemovedFlag (b_ID b) (mon_statusTracker m)\<rparr>))" (is "mon_core ?m")
proof -
  let ?g = "\<lparr>g_backend = b, g_isInitial = False, g_cancelled = False, g_phase = Checking True\<rparr>"
  have inv: "tracker_inv (mon_statusTracker m)" using core by (simp add: mon_core_def)
  note view = view_clear [OF inv, of "b_ID b"]
  have gos: "map_of (mon_goroutines ?m) k = (if k = mon_nextGo m then Some ?g else map_of (mon_goroutines m) k)" for k
    using fresh_go(1) [OF core] by (auto simp: start_goroutines map_of_append map_add_def split: option.splits)
  have "gomap_ok (mon_goroutines ?m)" using core fresh_go(2) [OF core]
    by (simp add: mon_core_def gomap_ok_def start_goroutines)
  moreover have "checks_owned ?m" using core by (auto simp: mon_core_def checks_owned_def gos view)
  moreover have "checks_clear ?m" using core by (auto simp: mon_core_def checks_clear_def less_SucI view)
  moreover have "checks_unique ?m" using core free by (auto simp: mon_core_def checks_unique_def gos less_SucI)
  moreover have "initial_count ?m" using core by (simp add: mon_core_def initial_count_def initial_due_def start_goroutines)
  ultimately show ?thesis using core inv by (simp add: mon_core_def)
qed

lemma mon_core_remove:
  assumes core: "mon_core m" and bc: "map_of (mon_activeChecks m) i = Some bc"
  shows "mon_core ((bc_stop bc m)\<lparr>mon_activeChecks := AList.delete i (mon_activeChecks m),
    mon_statusTracker := tracker_RemoveBackend i (mon_statusTracker m)\<rparr>)" (is "mon_core ?m")
proof -
  have inv: "tracker_inv (mon_statusTracker m)" using core by (simp add: mon_core_def)
  note view = view_remove [OF inv, of i]
  have core': "mon_core (bc_stop bc m)" by (rule mon_core_stop [OF core])
  have "checks_owned ?m" using core' by (auto simp: mon_core_def checks_owned_def view)
  moreover have "checks_clear ?m" using core' by (auto simp: mon_core_def checks_clear_def view split: if_splits)
  moreover have "checks_unique ?m"
    using core' stop_cancels [OF core bc] by (auto simp: mon_core_def checks_unique_def)
  moreover have "initial_count ?m" using core' by (simp add: mon_core_def initial_count_def)
  ultimately show ?thesis using core' inv by (simp add: mon_core_def)
qed

lemma mon_core_iteration:
  assumes core: "mon_core m"
  shows "mon_core (update_iteration a m)"
proof (cases a)
  case (StopCheck i)
  then show ?thesis using core mon_core_remove [OF core, of i]
    by (cases "map_of (mon_activeChecks m) i") (simp_all add: Let_def)
next
  case (StartCheck b)
  show ?thesis
  proof (cases "map_of (mon_activeChecks m) (b_ID b)")
    case None
    have "\<forall>k g. map_of (mon_goroutines m) k = Some g \<and> go_id g = b_ID b \<longrightarrow> g_cancelled g"
      using core None unfolding mon_core_def checks_unique_def by (metis option.distinct(1))
    then show ?thesis using mon_core_clear_start [OF core] StartCheck None by simp
  next
    case (Some bc)
    then show ?thesis
      using StartCheck core stop_cancels [OF core Some] mon_core_clear_start [OF mon_core_stop [OF core], of bc b]
      by auto
  qed
qed

lemma mon_core_Start:
  assumes "mon_core m" and "distinct (map b_ID bs)"
    and "\<forall>b \<in> set bs. tracker_view (mon_statusTracker m) (b_ID b) \<noteq> Removed"
    and "\<forall>k g. map_of (mon_goroutines m) k = Some g \<longrightarrow> go_id g \<notin> b_ID ` set bs"
  shows "mon_core (fold (start_check True) bs m)"
  using assms
proof (induction bs arbitrary: m)
  case (Cons b bs)
  have "mon_core (start_check True b m)" by (rule mon_core_start) (use Cons.prems in auto)
  moreover have "go_id g \<notin> b_ID ` set bs" if "map_of (mon_goroutines (start_check True b m)) k = Some g" for k g
    using that Cons.prems fresh_go(1) [OF Cons.prems(1)]
    by (auto simp: start_goroutines map_of_append map_add_def split: option.splits if_splits)
  ultimately show ?case using Cons.IH [of "start_check True b m"] Cons.prems by auto
qed simp

lemma fold_start_fields [simp]:
  "mon_backends (fold (start_check True) bs m) = mon_backends m" "mon_todo (fold (start_check True) bs m) = mon_todo m"
  "mon_started (fold (start_check True) bs m) = mon_started m" "mon_stopped (fold (start_check True) bs m) = mon_stopped m"
  "mon_ctxDone (fold (start_check True) bs m) = mon_ctxDone m"
  "dom (map_of (mon_activeChecks (fold (start_check True) bs m))) =
     dom (map_of (mon_activeChecks m)) \<union> b_ID ` set bs"
  by (induction bs arbitrary: m) auto

lemma start_ids_eq: "start_ids as = {b_ID b |b. StartCheck b \<in> set as}"
  by (induction as rule: start_ids.induct) auto

lemma stop_ids_eq: "stop_ids as = {i. StopCheck i \<in> set as}"
  by (induction as rule: stop_ids.induct) auto

lemma newBackendsMap_keys:
  "gomap_ok (newBackendsMap bs)" "dom (map_of (newBackendsMap bs)) = b_ID ` set bs"
  "(i, b) \<in> set (newBackendsMap bs) \<Longrightarrow> b_ID b = i \<and> b \<in> set bs"
proof -
  have ok: "gomap_ok m \<Longrightarrow> gomap_ok (fold (\<lambda>b. AList.update (b_ID b) b) bs m)" for m
    by (induction bs arbitrary: m) auto
  show okn: "gomap_ok (newBackendsMap bs)" by (simp add: newBackendsMap_def ok)
  have "dom (map_of (fold (\<lambda>b. AList.update (b_ID b) b) bs m)) = dom (map_of m) \<union> b_ID ` set bs" for m
    by (induction bs arbitrary: m) auto
  then show "dom (map_of (newBackendsMap bs)) = b_ID ` set bs" by (simp add: newBackendsMap_def)
  have "map_of (fold (\<lambda>b. AList.update (b_ID b) b) bs m) i = Some b \<Longrightarrow>
      map_of m i = Some b \<or> b_ID b = i \<and> b \<in> set bs" for m
    by (induction bs arbitrary: m) (fastforce split: if_splits)+
  then show "(i, b) \<in> set (newBackendsMap bs) \<Longrightarrow> b_ID b = i \<and> b \<in> set bs"
    using okn by (fastforce simp: gomap_ok_lookup newBackendsMap_def)
qed

lemma start_ids_map: "start_ids (map (\<lambda>(i, b). StartCheck b) bs) = b_ID ` snd ` set bs"
  by (induction bs) (simp_all add: case_prod_unfold)

lemma start_actions_ids:
  "start_ids (start_actions bs) = b_ID ` set bs" "stop_ids (start_actions bs) = {}" "distinct (start_actions bs)"
proof -
  have "b_ID ` snd ` set (newBackendsMap bs) = fst ` set (newBackendsMap bs)"
    using newBackendsMap_keys(3) [of _ _ bs] by (auto simp: image_image intro!: image_cong)
  also have "\<dots> = b_ID ` set bs" using newBackendsMap_keys(2) [of bs] by (simp add: dom_map_of_conv_image_fst)
  finally show "start_ids (start_actions bs) = b_ID ` set bs"
    by (simp add: start_actions_def start_ids_map)
  show "stop_ids (start_actions bs) = {}" by (auto simp: stop_ids_eq start_actions_def)
  have "inj_on (\<lambda>(i, b). StartCheck b) (set (newBackendsMap bs))"
    by (rule inj_onI) (auto dest!: newBackendsMap_keys(3))
  then show "distinct (start_actions bs)"
    using newBackendsMap_keys(1) [of bs] by (auto simp: start_actions_def distinct_map gomap_ok_def)
qed

lemma stop_actions_ids:
  "start_ids (stop_actions bs m) = {}"
  "stop_ids (stop_actions bs m) = dom (map_of (mon_activeChecks m)) - b_ID ` set bs"
  "gomap_ok (mon_activeChecks m) \<Longrightarrow> distinct (stop_actions bs m)"
proof -
  show "start_ids (stop_actions bs m) = {}" by (auto simp: start_ids_eq stop_actions_def)
  have "map_of (newBackendsMap bs) i = None \<longleftrightarrow> i \<notin> b_ID ` set bs" for i
    using newBackendsMap_keys(2) [of bs] by (auto simp: domIff)
  then show "stop_ids (stop_actions bs m) = dom (map_of (mon_activeChecks m)) - b_ID ` set bs"
    by (auto simp: stop_ids_eq stop_actions_def dom_map_of_conv_image_fst)
  show "gomap_ok (mon_activeChecks m) \<Longrightarrow> distinct (stop_actions bs m)"
    by (auto simp: stop_actions_def gomap_ok_def distinct_map inj_on_def)
qed

lemma mon_life_go:
  assumes "mon_life m" and "map_of (mon_goroutines m) k = Some g"
  shows "mon_life (m\<lparr>mon_statusTracker := t, mon_goroutines := gs, mon_initialCheckWg := wg\<rparr>)"
  using assms by (auto simp: mon_life_def)

lemma mon_life_update:
  assumes core: "mon_core m" and life: "mon_life m" and started: "mon_started m" "mon_todo m = []"
    and order: "mset starts = mset (start_actions bs)" "mset stops = mset (stop_actions bs m)"
  shows "mon_life (m\<lparr>mon_backends := bs, mon_todo := starts @ stops\<rparr>)"
proof -
  have sets: "set starts = set (start_actions bs)" "set stops = set (stop_actions bs m)"
    using order by (metis set_mset_mset)+
  have ok: "gomap_ok (mon_activeChecks m)" using core by (simp add: mon_core_def)
  have "distinct starts" "distinct stops"
    using order start_actions_ids(3) stop_actions_ids(3) [OF ok] by (metis mset_eq_imp_distinct_iff)+
  then have "distinct (starts @ stops)" by (auto simp: sets start_actions_def stop_actions_def)
  moreover have "start_ids (starts @ stops) = b_ID ` set bs"
    "stop_ids (starts @ stops) = dom (map_of (mon_activeChecks m)) - b_ID ` set bs"
    using start_actions_ids(1,2) stop_actions_ids(1,2) by (auto simp: start_ids_eq stop_ids_eq sets)
  ultimately show ?thesis using life started by (auto simp: mon_life_def)
qed

lemma iteration_fields [simp]:
  "mon_backends (update_iteration a m) = mon_backends m" "mon_todo (update_iteration a m) = mon_todo m"
  "mon_started (update_iteration a m) = mon_started m" "mon_stopped (update_iteration a m) = mon_stopped m"
  "mon_ctxDone (update_iteration a m) = mon_ctxDone m"
  by (cases a; simp add: Let_def split: option.splits)+

lemma iteration_active:
  "dom (map_of (mon_activeChecks (update_iteration a m))) = (case a of
     StartCheck b \<Rightarrow> insert (b_ID b) (dom (map_of (mon_activeChecks m)))
   | StopCheck i \<Rightarrow> dom (map_of (mon_activeChecks m)) - {i})"
  by (cases a) (auto simp: Let_def split: option.splits if_splits)

lemma mon_life_iteration:
  assumes life: "mon_life m" and todo: "mon_todo m = a # as"
  shows "mon_life (update_iteration a (m\<lparr>mon_todo := as\<rparr>))"
proof (cases a)
  case (StartCheck b)
  then show ?thesis using life todo by (auto simp: mon_life_def iteration_active simp del: update_iteration.simps)
next
  case (StopCheck i)
  have "i \<notin> stop_ids as" using life todo StopCheck by (auto simp: mon_life_def stop_ids_eq)
  then show ?thesis
    using life todo StopCheck by (auto simp: mon_life_def iteration_active simp del: update_iteration.simps)
qed

text \<open>The calls a goroutine makes to the tracker, as operations of the tracker's run.\<close>

lemma goroutine_calls:
  "fst (ShouldAttemptHealthCheck i now t) = fold tracker_step [(OpAttempt i, now)] t"
  "\<exists>cs. (\<forall>c \<in> set cs. is_result (b_ID b) c) \<and> record_result b result now t = fold tracker_step cs t"
  "\<exists>cs. (\<forall>c \<in> set cs. is_result (b_ID b) c) \<and> record_revision b reports cached t = fold tracker_step cs t"
proof -
  show "fst (ShouldAttemptHealthCheck i now t) = fold tracker_step [(OpAttempt i, now)] t" by simp
  obtain status err where r: "result = (status, err)" by fastforce
  show "\<exists>cs. (\<forall>c \<in> set cs. is_result (b_ID b) c) \<and> record_result b result now t = fold tracker_step cs t"
    by (rule exI [of _ "[(case err of None \<Rightarrow> OpSuccess (b_ID b) (b_Name b) status
        | Some e \<Rightarrow> OpFailure (b_ID b) (b_Name b) status e, now)]"])
      (simp add: record_result_def r split: option.splits)
  show "\<exists>cs. (\<forall>c \<in> set cs. is_result (b_ID b) c) \<and> record_revision b reports cached t = fold tracker_step cs t"
  proof (cases "reports \<and> cached \<noteq> None")
    case True
    then obtain revision where "cached = Some revision" by auto
    then show ?thesis
      using True by (intro exI [of _ "[(OpRevision (b_ID b) (revision_String revision), 0)]"]) (simp add: record_revision_def)
  next
    case False
    then show ?thesis by (intro exI [of _ "[]"]) (auto simp: record_revision_def split: option.splits)
  qed
qed

lemma mon_core_put:
  assumes "mon_core m" and "map_of (mon_goroutines m) k = Some g"
    and "\<exists>cs. (\<forall>c \<in> set cs. is_result (go_id g) c) \<and> t = fold tracker_step cs (mon_statusTracker m)"
    and "initial_due (g\<lparr>g_phase := ph\<rparr>) = initial_due g"
  shows "mon_core (put_go k (g\<lparr>g_phase := ph\<rparr>) (m\<lparr>mon_statusTracker := t\<rparr>))"
proof -
  obtain cs where cs: "\<forall>c \<in> set cs. is_result (go_id g) c" "t = fold tracker_step cs (mon_statusTracker m)"
    using assms(3) by blast
  have "put_go k (g\<lparr>g_phase := ph\<rparr>) (m\<lparr>mon_statusTracker := t\<rparr>) =
      m\<lparr>mon_statusTracker := t, mon_goroutines := AList.update k (g\<lparr>g_phase := ph\<rparr>) (mon_goroutines m),
        mon_initialCheckWg := mon_initialCheckWg m\<rparr>" by (simp add: put_go_def)
  then show ?thesis
    using mon_core_go [OF assms(1,2) cs(1), of "g\<lparr>g_phase := ph\<rparr>"] cs(2) assms(4) by simp
qed

lemma mon_core_finish:
  assumes "mon_core m" and "map_of (mon_goroutines m) k = Some g"
    and "\<exists>cs. (\<forall>c \<in> set cs. is_result (go_id g) c) \<and> t = fold tracker_step cs (mon_statusTracker m)"
    and "first_due (g_phase g) = first"
  shows "mon_core (finish_check k g first (m\<lparr>mon_statusTracker := t\<rparr>))"
proof -
  obtain cs where cs: "\<forall>c \<in> set cs. is_result (go_id g) c" "t = fold tracker_step cs (mon_statusTracker m)"
    using assms(3) by blast
  have "finish_check k g first (m\<lparr>mon_statusTracker := t\<rparr>) =
      m\<lparr>mon_statusTracker := t, mon_goroutines := AList.update k (g\<lparr>g_phase := Selecting\<rparr>) (mon_goroutines m),
        mon_initialCheckWg := mon_initialCheckWg m - initial_due g + initial_due (g\<lparr>g_phase := Selecting\<rparr>)\<rparr>"
    using assms(4) by (auto simp: finish_check_def put_go_def initial_due_def Let_def)
  then show ?thesis using mon_core_go [OF assms(1,2) cs(1), of "g\<lparr>g_phase := Selecting\<rparr>"] cs(2) by simp
qed

lemma mon_core_check:
  assumes core: "mon_core m" and g: "map_of (mon_goroutines m) k = Some g" and phase: "g_phase g = Checking first"
  shows "mon_core (go_check k g first now m)"
proof -
  obtain t ok where t: "ShouldAttemptHealthCheck (go_id g) now (mon_statusTracker m) = (t, ok)" by fastforce
  have calls: "\<exists>cs. (\<forall>c \<in> set cs. is_result (go_id g) c) \<and> t = fold tracker_step cs (mon_statusTracker m)"
    using goroutine_calls(1) [of "go_id g" now "mon_statusTracker m"] t
    by (intro exI [of _ "[(OpAttempt (go_id g), now)]"]) simp
  show ?thesis
    using mon_core_put [OF core g calls, of "Probing first"] mon_core_finish [OF core g calls, of first]
    by (simp add: go_check_def t Let_def phase initial_due_def)
qed

lemma mon_life_fields:
  assumes "mon_life m" and "map_of (mon_goroutines m) k = Some g"
    and "m' = m\<lparr>mon_statusTracker := mon_statusTracker m', mon_goroutines := mon_goroutines m',
      mon_initialCheckWg := mon_initialCheckWg m'\<rparr>"
  shows "mon_life m'"
  by (subst assms(3)) (rule mon_life_go [OF assms(1,2)])

lemma mon_inv_Start:
  assumes inv: "mon_inv m" and todo: "mon_todo m = []"
  shows "mon_inv (fst (monitor_Start ctx m))"
proof (cases "mon_stopped m \<or> mon_started m \<or> ctx = None")
  case True
  then show ?thesis using inv by (auto simp: monitor_Start_def)
next
  case False
  then obtain c where ctx: "ctx = Some c" by auto
  let ?m = "m\<lparr>mon_ctxDone := c, mon_started := True\<rparr>"
  have empty: "mon_goroutines m = []" "mon_activeChecks m = []" "\<forall>i. tracker_view (mon_statusTracker m) i = Untracked"
    "distinct (map b_ID (mon_backends m))" "mon_core m"
    using inv False by (auto simp: mon_inv_def mon_life_def)
  then have "mon_core (fold (start_check True) (mon_backends m) ?m)" by (intro mon_core_Start) simp_all
  moreover have "mon_life (fold (start_check True) (mon_backends m) ?m)"
    using False empty todo by (simp add: mon_life_def)
  ultimately show ?thesis using False ctx by (simp add: mon_inv_def monitor_Start_def)
qed

lemma mon_inv_step:
  assumes "mon_step m m'" and "mon_inv m"
  shows "mon_inv m'"
  using assms
proof (induction rule: mon_step.induct)
  case (step_start m ctx m' err)
  then show ?case using mon_inv_Start [of m ctx] by simp
next
  case (step_stop m m' err)
  then show ?case by (cases "mon_started m") (clarsimp simp: mon_inv_def mon_life_def monitor_Stop_def)+
next
  case (step_parent_cancel m)
  then show ?case by (simp add: mon_inv_def mon_life_def)
next
  case (step_update m starts bs stops)
  then show ?case using mon_life_update [of m starts bs stops] by (simp add: mon_inv_def)
next
  case (step_iteration m a as)
  then show ?case using mon_core_iteration [of "m\<lparr>mon_todo := as\<rparr>" a] mon_life_iteration [of m a as]
    by (simp add: mon_inv_def del: update_iteration.simps)
next
  case (step_check m k g first now)
  have "mon_life (go_check k g first now m)"
    by (rule mon_life_fields [OF _ step_check(1)])
      (use step_check in \<open>auto simp: mon_inv_def go_check_def finish_check_def put_go_def Let_def case_prod_unfold\<close>)
  then show ?case using mon_core_check [OF _ step_check(1,2)] step_check(3) by (simp add: mon_inv_def)
next
  case (step_record m k g first answer now)
  have "mon_life (go_record k g first answer now m)"
    by (rule mon_life_fields [OF _ step_record(1)]) (use step_record in \<open>auto simp: mon_inv_def go_record_def put_go_def Let_def\<close>)
  then show ?case
    using mon_core_put [OF _ step_record(1) goroutine_calls(2), of "Recorded first"] step_record(2,3)
    by (simp add: mon_inv_def go_record_def Let_def initial_due_def)
next
  case (step_revision m k g first cached)
  have "mon_life (go_revision k g first cached m)"
    by (rule mon_life_fields [OF _ step_revision(1)])
      (use step_revision in \<open>auto simp: mon_inv_def go_revision_def finish_check_def put_go_def Let_def\<close>)
  then show ?case
    using mon_core_finish [OF _ step_revision(1) goroutine_calls(3), of first] step_revision(2,3)
    by (simp add: mon_inv_def go_revision_def)
next
  case (step_tick m k g)
  then show ?case
    using mon_core_put [OF _ step_tick(1), of "mon_statusTracker m" "Checking False"]
      mon_life_fields [OF _ step_tick(1), of "put_go k (g\<lparr>g_phase := Checking False\<rparr>) m"]
    by (force simp: mon_inv_def put_go_def initial_due_def intro: exI [of _ "[]"])
next
  case (step_exit m k g)
  then show ?case
    using mon_core_delete [of m k g]
      mon_life_fields [OF _ step_exit(1), of "m\<lparr>mon_goroutines := AList.delete k (mon_goroutines m)\<rparr>"]
    by (simp add: mon_inv_def)
qed

lemma mon_inv_reach: "mon_reach m0 m \<Longrightarrow> mon_inv m0 \<Longrightarrow> mon_inv m"
  by (induction rule: mon_reach.induct) (auto intro: mon_inv_step)

lemma mon_inv_new:
  assumes "NewMonitor client reports bs config = Inr m" and "distinct (map b_ID bs)"
  shows "mon_inv m"
proof -
  have "breaker_config_ok (mc_CircuitBreaker config)" and m: "m = new_monitor client reports bs config"
    using assms(1) by (auto simp: NewMonitor_def breaker_config_ok_def split: if_splits option.splits)
  then show ?thesis
    using assms(2) tracker_inv_new [of "mc_CircuitBreaker config" "mc_UnhealthyThreshold config"]
    by (auto simp: mon_inv_def mon_core_defs mon_life_def new_monitor_def newStatusTracker_def
        tracker_view_def isRemoved_def)
qed

section \<open>What an update does to each backend\<close>

fun action_id :: "update_action \<Rightarrow> string" where
  "action_id (StartCheck b) = b_ID b"
| "action_id (StopCheck i) = i"

definition active_backend :: "Monitor \<Rightarrow> string \<Rightarrow> Backend option" where
  "active_backend m i = map_option bc_backend (map_of (mon_activeChecks m) i)"

fun action_backend :: "update_action \<Rightarrow> Backend option \<Rightarrow> Backend option" where
  "action_backend (StartCheck b) None = Some b"
| "action_backend (StartCheck b) (Some old) = (if backendChanged old b then Some b else Some old)"
| "action_backend (StopCheck i) old = None"

fun action_view :: "update_action \<Rightarrow> Backend option \<Rightarrow> backend_view \<Rightarrow> backend_view" where
  "action_view (StartCheck b) old v = (if v = Removed then Untracked else v)"
| "action_view (StopCheck i) None v = v"
| "action_view (StopCheck i) (Some old) v = Removed"

lemma iteration_effect:
  assumes core: "mon_core m"
  shows "active_backend (update_iteration a m) i =
      (if i = action_id a then action_backend a (active_backend m i) else active_backend m i)"
    and "tracker_view (mon_statusTracker (update_iteration a m)) i =
      (if i = action_id a then action_view a (active_backend m i) (tracker_view (mon_statusTracker m) i)
       else tracker_view (mon_statusTracker m) i)"
proof -
  have inv: "tracker_inv (mon_statusTracker m)" using core by (simp add: mon_core_def)
  have flagged: "map_of (mon_activeChecks m) i = Some bc \<Longrightarrow> tracker_view (mon_statusTracker m) i \<noteq> Removed" for i bc
    using core by (auto simp: mon_core_def checks_clear_def)
  show "active_backend (update_iteration a m) i =
      (if i = action_id a then action_backend a (active_backend m i) else active_backend m i)"
    by (cases a) (auto simp: active_backend_def Let_def split: option.splits)
  show "tracker_view (mon_statusTracker (update_iteration a m)) i =
      (if i = action_id a then action_view a (active_backend m i) (tracker_view (mon_statusTracker m) i)
       else tracker_view (mon_statusTracker m) i)"
    using flagged
    by (cases a) (auto simp: active_backend_def Let_def view_clear [OF inv] view_remove [OF inv] split: option.splits)
qed

lemma fold_iteration_effect:
  assumes "mon_core m" and "distinct (map action_id as)"
  shows "active_backend (fold update_iteration as m) i =
      (case find (\<lambda>a. action_id a = i) as of None \<Rightarrow> active_backend m i
       | Some a \<Rightarrow> action_backend a (active_backend m i)) \<and>
    tracker_view (mon_statusTracker (fold update_iteration as m)) i =
      (case find (\<lambda>a. action_id a = i) as of None \<Rightarrow> tracker_view (mon_statusTracker m) i
       | Some a \<Rightarrow> action_view a (active_backend m i) (tracker_view (mon_statusTracker m) i))"
  using assms
proof (induction as arbitrary: m)
  case (Cons a as)
  have core: "mon_core (update_iteration a m)" using Cons.prems mon_core_iteration by blast
  have later: "find (\<lambda>b. action_id b = action_id a) as = None"
    using Cons.prems(2) by (simp add: find_None_iff) (metis image_eqI)
  show ?case
    using Cons.IH [OF core] Cons.prems later iteration_effect [OF Cons.prems(1), of a i]
    by (cases "i = action_id a"; cases "find (\<lambda>b. action_id b = i) as") (simp_all del: update_iteration.simps)
qed simp

lemma update_actions_distinct:
  assumes "mon_core m"
  shows "distinct (map action_id (start_actions bs @ stop_actions bs m))"
proof -
  have "map action_id (start_actions bs) = map fst (newBackendsMap bs)"
    using newBackendsMap_keys(3) [of _ _ bs] by (auto simp: start_actions_def)
  moreover have "map action_id (stop_actions bs m) =
      filter (\<lambda>i. map_of (newBackendsMap bs) i = None) (map fst (mon_activeChecks m))"
    by (simp add: stop_actions_def comp_def)
  ultimately show ?thesis
    using assms newBackendsMap_keys(1) [of bs]
    by (auto simp: gomap_ok_def mon_core_def map_of_eq_None_iff)
qed

lemma find_update_action:
  assumes "mon_core m"
  shows "find (\<lambda>a. action_id a = i) (start_actions bs @ stop_actions bs m) =
    (case map_of (newBackendsMap bs) i of Some b \<Rightarrow> Some (StartCheck b)
     | None \<Rightarrow> if map_of (mon_activeChecks m) i = None then None else Some (StopCheck i))"
proof -
  have starts: "find (\<lambda>a. action_id a = i) (map (\<lambda>(i, b). StartCheck b) xs) = map_option StartCheck (map_of xs i)"
    if "\<forall>(j, b) \<in> set xs. b_ID b = j" for xs
    using that by (induction xs) auto
  have stops: "find (\<lambda>a. action_id a = i) (map StopCheck xs) = (if i \<in> set xs then Some (StopCheck i) else None)" for xs
    by (induction xs) auto
  have app: "find P (xs @ ys) = (case find P xs of None \<Rightarrow> find P ys | Some x \<Rightarrow> Some x)" for P and xs ys :: "update_action list"
    by (induction xs) auto
  have "\<forall>(j, b) \<in> set (newBackendsMap bs). b_ID b = j" using newBackendsMap_keys(3) [of _ _ bs] by auto
  from starts [OF this] show ?thesis
    by (cases "map_of (newBackendsMap bs) i")
      (simp_all add: app start_actions_def stop_actions_def stops map_of_eq_None_iff [of "mon_activeChecks m"])
qed

lemma mon_reach_trans: "mon_reach a b \<Longrightarrow> mon_reach b c \<Longrightarrow> mon_reach a c"
  by (rotate_tac, induction rule: mon_reach.induct) (auto intro: reach_step)

lemma reach_iterations: "mon_reach (m\<lparr>mon_todo := as\<rparr>) (fold update_iteration as (m\<lparr>mon_todo := []\<rparr>))"
proof (induction as arbitrary: m)
  case Nil
  then show ?case by (simp add: reach_init)
next
  case (Cons a as)
  have set: "update_iteration a (m\<lparr>mon_todo := td\<rparr>) = (update_iteration a m)\<lparr>mon_todo := td\<rparr>" for td
    by (cases a) (simp_all add: Let_def start_check_def bc_start_def bc_stop_def split: option.splits)
  have "mon_step (m\<lparr>mon_todo := a # as\<rparr>) (update_iteration a (m\<lparr>mon_todo := as\<rparr>))"
    using step_iteration [of "m\<lparr>mon_todo := a # as\<rparr>" a as] by simp
  then have "mon_reach (m\<lparr>mon_todo := a # as\<rparr>) ((update_iteration a m)\<lparr>mon_todo := as\<rparr>)"
    using reach_step [OF reach_init] by (simp add: set)
  then show ?case using Cons.IH [of "update_iteration a m"] by (auto simp: set intro: mon_reach_trans)
qed

text \<open>\<open>UpdateBackends\<close> run without interruption is one of the interleavings of the step relation.\<close>

lemma reach_UpdateBackends:
  assumes "mon_todo m = []"
  shows "mon_reach m (UpdateBackends bs m)"
proof (cases "mon_started m \<and> \<not> mon_stopped m")
  case True
  let ?as = "start_actions bs @ stop_actions bs m"
  have "mon_step m (m\<lparr>mon_backends := bs, mon_todo := ?as\<rparr>)"
    by (rule step_update) (use True assms in auto)
  then have "mon_reach m ((m\<lparr>mon_backends := bs\<rparr>)\<lparr>mon_todo := ?as\<rparr>)"
    using reach_step [OF reach_init] by simp
  then have "mon_reach m (fold update_iteration ?as ((m\<lparr>mon_backends := bs\<rparr>)\<lparr>mon_todo := []\<rparr>))"
    using reach_iterations mon_reach_trans by blast
  moreover have "(m\<lparr>mon_backends := bs\<rparr>)\<lparr>mon_todo := []\<rparr> = m\<lparr>mon_backends := bs\<rparr>" using assms by simp
  ultimately show ?thesis using True by (simp add: UpdateBackends_def)
qed (auto simp: UpdateBackends_def reach_init)

section \<open>Properties\<close>

text \<open>A monitor as the server builds it: a valid configuration and backends with distinct IDs.\<close>

inductive monitor_of :: "Monitor \<Rightarrow> bool" where
  monitor_new: "NewMonitor client reports bs config = Inr m \<Longrightarrow> distinct (map b_ID bs) \<Longrightarrow> monitor_of m"
| monitor_step: "monitor_of m \<Longrightarrow> mon_step m m' \<Longrightarrow> monitor_of m'"

lemma monitor_of_inv: "monitor_of m \<Longrightarrow> mon_inv m"
  by (induction rule: monitor_of.induct) (auto intro: mon_inv_new mon_inv_step)

lemma monitor_of_reach:
  assumes "monitor_of m" and "mon_reach m m'"
  shows "monitor_of m'"
  using assms(2,1) by (induction rule: mon_reach.induct) (auto intro: monitor_step)

lemma monitor_of_Start:
  "monitor_of m \<Longrightarrow> mon_todo m = [] \<Longrightarrow> monitor_of (fst (monitor_Start ctx m))"
  by (rule monitor_step [OF _ step_start [of m ctx _ "snd (monitor_Start ctx m)"]]) simp_all

lemma QueryBackendStatus_view:
  "mon_inv m \<Longrightarrow> QueryBackendStatus m i = (case tracker_view (mon_statusTracker m) i of
     Tracked s \<Rightarrow> (bhs_status s, True) | _ \<Rightarrow> (BackendUnknown, False))"
  by (simp add: QueryBackendStatus_def GetState_view mon_inv_def mon_core_def)

lemma example_monitor:
  assumes "distinct (map b_ID bs)"
  shows "monitor_of (new_monitor client reports bs DefaultConfig)"
proof (rule monitor_new)
  show "NewMonitor client reports bs DefaultConfig = Inr (new_monitor client reports bs DefaultConfig)"
    by (simp add: NewMonitor_def DefaultConfig_def second_def)
qed (rule assms)

definition example_backend :: "string \<Rightarrow> string \<Rightarrow> Backend" where
  "example_backend i url = \<lparr>b_ID = i, b_Name = i, b_BaseURL = url, b_TransportType = ''sse'', b_Type = '''',
     b_CABundlePath = '''', b_CABundleData = '''', b_HealthStatus = BackendUnknown, b_AuthConfig = None,
     b_AuthConfigRef = '''', b_HeaderForward = None, b_Metadata = []\<rparr>"

text \<open>
  Claim C7: In every interleaving of the lifecycle calls, the loops of an update and the health
  checks in flight, a backend that is no longer actively checked is reported as not monitored: a
  check that was running when its backend was removed never re-creates it.
\<close>

theorem removed_backend_not_reported:
  assumes "monitor_of m" and "map_of (mon_activeChecks m) i = None"
  shows "QueryBackendStatus m i = (BackendUnknown, False)"
proof -
  have inv: "mon_inv m" by (rule monitor_of_inv [OF assms(1)])
  then have "tracker_view (mon_statusTracker m) i \<in> {Removed, Untracked}"
    using assms(2) by (auto simp: mon_inv_def mon_core_def checks_owned_def)
  then show ?thesis by (auto simp: QueryBackendStatus_view [OF inv])
qed

theorem removed_backend_not_reported_witness:
  "\<exists>m1 g m2 m3 m4 m5. m1 = fst (monitor_Start (Some False) (new_monitor (\<lambda>d t. (None, 0)) False [example_backend ''a'' ''u''] DefaultConfig)) \<and>
     mon_step m1 m2 \<and> map_of (mon_goroutines m2) 0 = Some g \<and> g_phase g = Probing True \<and>
     mon_step m2 m3 \<and> mon_backends m3 = [] \<and> mon_step m3 m4 \<and> mon_step m4 m5 \<and>
     map_of (mon_goroutines m5) 0 \<noteq> None \<and> QueryBackendStatus m5 ''a'' = (BackendUnknown, False)"
proof -
  define m1 where "m1 = fst (monitor_Start (Some False) (new_monitor (\<lambda>d t. (None, 0)) False [example_backend ''a'' ''u''] DefaultConfig))"
  define g1 where "g1 = the (map_of (mon_goroutines m1) 0)"
  define m2 where "m2 = go_check 0 g1 True 5 m1"
  define g2 where "g2 = the (map_of (mon_goroutines m2) 0)"
  define m3 where "m3 = m2\<lparr>mon_backends := [], mon_todo := start_actions [] @ stop_actions [] m2\<rparr>"
  define m4 where "m4 = update_iteration (hd (mon_todo m3)) (m3\<lparr>mon_todo := tl (mon_todo m3)\<rparr>)"
  define g4 where "g4 = the (map_of (mon_goroutines m4) 0)"
  define m5 where "m5 = go_record 0 g4 True (None, 1) 6 m4"
  note defs = m5_def g4_def m4_def m3_def g2_def m2_def g1_def m1_def
  have "map_of (mon_goroutines m1) 0 \<noteq> None" unfolding defs by code_simp
  then have "map_of (mon_goroutines m1) 0 = Some g1" unfolding g1_def by (rule option.collapse [symmetric])
  moreover have "g_phase g1 = Checking True" unfolding defs by code_simp
  ultimately have s2: "mon_step m1 m2" unfolding m2_def by (rule step_check)
  have "map_of (mon_goroutines m2) 0 \<noteq> None" unfolding defs by code_simp
  then have g2: "map_of (mon_goroutines m2) 0 = Some g2" unfolding g2_def by (rule option.collapse [symmetric])
  have p2: "g_phase g2 = Probing True" unfolding defs by code_simp
  have "mon_todo m2 = []" "mon_started m2" "\<not> mon_stopped m2" unfolding defs by code_simp+
  then have s3: "mon_step m2 m3" unfolding m3_def by (rule step_update) simp_all
  have "mon_todo m3 \<noteq> []" unfolding defs by code_simp
  then have "mon_todo m3 = hd (mon_todo m3) # tl (mon_todo m3)" by (rule list.collapse [symmetric])
  then have s4: "mon_step m3 m4" unfolding m4_def by (rule step_iteration)
  have "map_of (mon_goroutines m4) 0 \<noteq> None" unfolding defs by code_simp
  then have "map_of (mon_goroutines m4) 0 = Some g4" unfolding g4_def by (rule option.collapse [symmetric])
  moreover have "g_phase g4 = Probing True" unfolding defs by code_simp
  ultimately have s5: "mon_step m4 m5" unfolding m5_def by (rule step_record)
  have "monitor_of m1" unfolding m1_def by (rule monitor_of_Start [OF example_monitor]) (simp_all add: new_monitor_def)
  then have "monitor_of m5" by (intro monitor_step [OF _ s5] monitor_step [OF _ s4] monitor_step [OF _ s3] monitor_step [OF _ s2])
  moreover have "map_of (mon_activeChecks m5) ''a'' = None" unfolding defs by code_simp
  ultimately have "QueryBackendStatus m5 ''a'' = (BackendUnknown, False)" by (rule removed_backend_not_reported)
  moreover have "map_of (mon_goroutines m5) 0 \<noteq> None" unfolding defs by code_simp
  moreover have "mon_backends m3 = []" by (simp add: m3_def)
  ultimately show ?thesis using s2 s3 s4 s5 g2 p2 m1_def by blast
qed

text \<open>
  Whenever no update is in progress, every backend that has a health state is one of the
  configured backends, so the fallback entry of the status report for an unlisted backend is not
  used; and the actively checked backends of a started monitor are exactly the configured ones.
\<close>

theorem tracked_backends_configured:
  assumes "monitor_of m" and "mon_todo m = []"
  shows "fst ` set (GetAllBackendStates m) \<subseteq> b_ID ` set (mon_backends m)
    \<and> (mon_started m \<longrightarrow> dom (map_of (mon_activeChecks m)) = b_ID ` set (mon_backends m))"
proof -
  have inv: "mon_inv m" by (rule monitor_of_inv [OF assms(1)])
  let ?t = "mon_statusTracker m"
  have "i \<in> b_ID ` set (mon_backends m)" if i: "i \<in> fst ` set (GetAllBackendStates m)" for i
  proof -
    have "map_of (st_states ?t) i \<noteq> None"
      using i by (auto simp: GetAllBackendStates_def tracker_GetAllStates_def map_of_eq_None_iff rev_image_eqI)
    then have v: "\<exists>s. tracker_view ?t i = Tracked s"
      using inv by (auto simp: mon_inv_def mon_core_def tracker_inv_view tracker_view_def)
    then have "map_of (mon_activeChecks m) i \<noteq> None"
      using inv by (auto simp: mon_inv_def mon_core_def checks_owned_def)
    moreover have "mon_started m \<or> mon_stopped m"
      using inv calculation by (auto simp: mon_inv_def mon_life_def)
    ultimately show ?thesis using inv assms(2) by (auto simp: mon_inv_def mon_life_def)
  qed
  then show ?thesis using inv assms(2) by (auto simp: mon_inv_def mon_life_def)
qed

theorem tracked_backends_configured_witness:
  "fst ` set (GetAllBackendStates (fst (monitor_Start (Some False)
      (new_monitor (\<lambda>d t. (None, 0)) False [example_backend ''a'' ''u''] DefaultConfig)))) \<subseteq> {''a''}"
proof -
  let ?m0 = "new_monitor (\<lambda>d t. (None, 0)) False [example_backend ''a'' ''u''] DefaultConfig"
  have "monitor_of (fst (monitor_Start (Some False) ?m0))"
    by (rule monitor_of_Start [OF example_monitor]) (simp_all add: new_monitor_def)
  from tracked_backends_configured [OF this] show ?thesis
    by (simp add: monitor_Start_def new_monitor_def example_backend_def)
qed

text \<open>
  Claim C27: At any moment at most one goroutine that has not been cancelled checks a given backend,
  and it checks the version of the backend the monitor holds as active.
\<close>

theorem one_live_check_per_backend:
  assumes "monitor_of m"
    and "map_of (mon_goroutines m) k = Some g" and "\<not> g_cancelled g"
    and "map_of (mon_goroutines m) k' = Some g'" and "\<not> g_cancelled g'" and "go_id g = go_id g'"
  shows "k = k' \<and> active_backend m (go_id g) = Some (g_backend g)"
proof -
  have "checks_unique m" using monitor_of_inv [OF assms(1)] by (simp add: mon_inv_def mon_core_def)
  then have a: "map_of (mon_activeChecks m) (go_id g) = Some \<lparr>bc_backend = g_backend g, bc_go = k\<rparr>"
    and b: "map_of (mon_activeChecks m) (go_id g') = Some \<lparr>bc_backend = g_backend g', bc_go = k'\<rparr>"
    using assms unfolding checks_unique_def by blast+
  have "\<lparr>bc_backend = g_backend g, bc_go = k\<rparr> = \<lparr>bc_backend = g_backend g', bc_go = k'\<rparr>"
    using a b unfolding assms(6) by simp
  then show ?thesis using a by (simp add: active_backend_def)
qed

theorem one_live_check_per_backend_witness:
  "active_backend (fst (monitor_Start (Some False)
     (new_monitor (\<lambda>d t. (None, 0)) False [example_backend ''a'' ''u''] DefaultConfig))) ''a''
   = Some (example_backend ''a'' ''u'')"
proof -
  let ?m0 = "new_monitor (\<lambda>d t. (None, 0)) False [example_backend ''a'' ''u''] DefaultConfig"
  let ?g = "\<lparr>g_backend = example_backend ''a'' ''u'', g_isInitial = True, g_cancelled = False, g_phase = Checking True\<rparr>"
  have m: "monitor_of (fst (monitor_Start (Some False) ?m0))"
    by (rule monitor_of_Start [OF example_monitor]) (simp_all add: new_monitor_def)
  have g: "map_of (mon_goroutines (fst (monitor_Start (Some False) ?m0))) 0 = Some ?g"
    by (simp add: monitor_Start_def new_monitor_def start_goroutines)
  show ?thesis
    using one_live_check_per_backend [OF m g _ g] by (simp add: example_backend_def)
qed

lemma UpdateBackends_effect_core:
  assumes inv: "mon_inv m" and started: "mon_started m"
  shows "active_backend (UpdateBackends bs m) i = (case map_of (newBackendsMap bs) i of None \<Rightarrow> None
      | Some b \<Rightarrow> (case active_backend m i of Some old \<Rightarrow> Some (if backendChanged old b then b else old)
                   | None \<Rightarrow> Some b)) \<and>
    tracker_view (mon_statusTracker (UpdateBackends bs m)) i =
      (let v = tracker_view (mon_statusTracker m) i in
       case map_of (newBackendsMap bs) i of Some b \<Rightarrow> if v = Removed then Untracked else v
       | None \<Rightarrow> if active_backend m i = None then v else Removed)"
proof -
  let ?m = "m\<lparr>mon_backends := bs\<rparr>"
  have core: "mon_core ?m" "mon_core m" and st: "\<not> mon_stopped m" using inv started by (auto simp: mon_inv_def mon_life_def)
  have "active_backend ?m = active_backend m" by (rule ext) (simp add: active_backend_def)
  moreover have "UpdateBackends bs m = fold update_iteration (start_actions bs @ stop_actions bs m) ?m"
    using started st by (simp add: UpdateBackends_def)
  ultimately show ?thesis
    using fold_iteration_effect [OF core(1) update_actions_distinct [OF core(2)], of bs i]
    by (auto simp: find_update_action [OF core(2)] active_backend_def Let_def split: option.splits)
qed

text \<open>
  An update gives every backend the outcome it should have, whatever order the maps are
  traversed in: a listed backend keeps its check and its health history when its URL and transport
  are unchanged and is checked with its new version otherwise, a new one starts without history,
  and an unlisted one is no longer checked and its state is gone.
\<close>

theorem UpdateBackends_effect:
  assumes "monitor_of m" and "mon_started m"
  shows "active_backend (UpdateBackends bs m) i = (case map_of (newBackendsMap bs) i of None \<Rightarrow> None
      | Some b \<Rightarrow> (case active_backend m i of Some old \<Rightarrow> Some (if backendChanged old b then b else old)
                   | None \<Rightarrow> Some b)) \<and>
    (active_backend m i \<noteq> None \<and> map_of (newBackendsMap bs) i \<noteq> None \<longrightarrow>
       tracker_GetState (mon_statusTracker (UpdateBackends bs m)) i = tracker_GetState (mon_statusTracker m) i) \<and>
    (active_backend m i = None \<or> map_of (newBackendsMap bs) i = None \<longrightarrow>
       tracker_GetState (mon_statusTracker (UpdateBackends bs m)) i = None)"
proof -
  have inv: "mon_inv m" by (rule monitor_of_inv [OF assms(1)])
  have "mon_core (UpdateBackends bs m)"
  proof -
    have "mon_core m' \<Longrightarrow> mon_core (fold update_iteration as m')" for as m'
      by (induction as arbitrary: m') (simp_all add: mon_core_iteration del: update_iteration.simps)
    then show ?thesis using inv by (simp add: UpdateBackends_def mon_inv_def)
  qed
  then have ti: "tracker_inv (mon_statusTracker (UpdateBackends bs m))" "tracker_inv (mon_statusTracker m)"
    using inv by (auto simp: mon_core_def mon_inv_def)
  have "active_backend m i = None \<Longrightarrow> tracker_view (mon_statusTracker m) i \<in> {Removed, Untracked}"
    "active_backend m i \<noteq> None \<Longrightarrow> tracker_view (mon_statusTracker m) i \<noteq> Removed"
    using inv by (auto simp: active_backend_def mon_inv_def mon_core_def checks_owned_def checks_clear_def)
  then show ?thesis
    using UpdateBackends_effect_core [OF inv assms(2), of bs i]
    by (auto simp: GetState_view [OF ti(1)] GetState_view [OF ti(2)] Let_def split: option.splits)
qed

theorem UpdateBackends_effect_witness:
  "active_backend (UpdateBackends [example_backend ''a'' ''v'']
     (fst (monitor_Start (Some False) (new_monitor (\<lambda>d t. (None, 0)) False [example_backend ''a'' ''u''] DefaultConfig)))) ''a''
   = Some (example_backend ''a'' ''v'')"
proof -
  let ?m = "fst (monitor_Start (Some False) (new_monitor (\<lambda>d t. (None, 0)) False [example_backend ''a'' ''u''] DefaultConfig))"
  have m: "monitor_of ?m" by (rule monitor_of_Start [OF example_monitor]) (simp_all add: new_monitor_def)
  have "mon_started ?m" "active_backend ?m ''a'' = Some (example_backend ''a'' ''u'')"
    by (simp_all add: monitor_Start_def new_monitor_def active_backend_def example_backend_def)
  then show ?thesis
    using UpdateBackends_effect [OF m, of "[example_backend ''a'' ''v'']" "''a''"]
    by (simp add: newBackendsMap_def example_backend_def backendChanged_def)
qed

text \<open>
  Stopping is final: after \<open>Stop\<close> every goroutine's context is cancelled, the monitor never
  counts as started again, and no step of the system starts another goroutine, so the wait for the
  running ones is not extended.
\<close>

theorem stop_is_final:
  assumes "monitor_of m" and "mon_stopped m" and "mon_reach m m'"
  shows "mon_stopped m' \<and> \<not> mon_started m' \<and> mon_ctxDone m' \<and>
    fst ` set (mon_goroutines m') \<subseteq> fst ` set (mon_goroutines m)"
  using assms(3)
proof (induction rule: mon_reach.induct)
  case reach_init
  then show ?case using monitor_of_inv [OF assms(1)] assms(2) by (auto simp: mon_inv_def mon_life_def)
next
  case (reach_step m1 m2)
  have todo: "mon_todo m1 = []"
    using reach_step monitor_of_inv [OF monitor_of_reach [OF assms(1) reach_step(1)]]
    by (auto simp: mon_inv_def mon_life_def)
  have put: "fst ` set (AList.update k g (mon_goroutines m1)) = fst ` set (mon_goroutines m1)"
    if "map_of (mon_goroutines m1) k = Some g'" for k g g'
    using map_of_SomeD [OF that] by (auto simp: dom_update rev_image_eqI)
  have del: "p \<in> set (mon_goroutines m1)" if "p \<in> set (AList.delete k (mon_goroutines m1))" for k p
    using that by (auto simp: AList.delete_eq)
  show ?case
    using reach_step(2,3) todo put
    by (cases rule: mon_step.cases)
      (auto simp: monitor_Start_def monitor_Stop_def go_check_def go_record_def go_revision_def
        finish_check_def put_go_def Let_def case_prod_unfold dest!: del)
qed

theorem stop_is_final_witness:
  "mon_stopped (fst (monitor_Stop (fst (monitor_Start (Some False)
     (new_monitor (\<lambda>d t. (None, 0)) False [example_backend ''a'' ''u''] DefaultConfig)))))"
proof -
  let ?m = "fst (monitor_Start (Some False) (new_monitor (\<lambda>d t. (None, 0)) False [example_backend ''a'' ''u''] DefaultConfig))"
  have m: "monitor_of ?m" by (rule monitor_of_Start [OF example_monitor]) (simp_all add: new_monitor_def)
  have f: "mon_todo ?m = []" "mon_started ?m" by (simp_all add: monitor_Start_def new_monitor_def)
  have "mon_step ?m (fst (monitor_Stop ?m))"
    by (rule step_stop [OF f(1), of _ "snd (monitor_Stop ?m)"]) simp
  from monitor_step [OF m this] show ?thesis
    using stop_is_final [OF _ _ reach_init] f(2) by (simp add: monitor_Stop_def)
qed

text \<open>
  The wait group of the initial checks never goes negative, and waiting on it returns exactly
  when every initial goroutine still running has finished its first health check.
\<close>

theorem initial_checks_counted:
  assumes "monitor_of m"
  shows "0 \<le> mon_initialCheckWg m \<and> (WaitForInitialHealthChecks_returns m \<longleftrightarrow>
    (\<forall>(k, g) \<in> set (mon_goroutines m). g_isInitial g \<longrightarrow> \<not> first_due (g_phase g)))"
proof -
  have count: "mon_initialCheckWg m = (\<Sum>(k, g) \<leftarrow> mon_goroutines m. initial_due g)"
    using monitor_of_inv [OF assms] by (simp add: mon_inv_def mon_core_def initial_count_def)
  have due: "0 \<le> initial_due g" "initial_due g = 0 \<longleftrightarrow> (g_isInitial g \<longrightarrow> \<not> first_due (g_phase g))" for g
    by (auto simp: initial_due_def)
  have "0 \<le> (\<Sum>(k, g) \<leftarrow> xs. initial_due g)" for xs :: "(nat, goroutine) gomap"
    by (rule sum_list_nonneg) (auto simp: due)
  moreover have "(\<Sum>(k, g) \<leftarrow> xs. initial_due g) = 0 \<longleftrightarrow> (\<forall>(k, g) \<in> set xs. initial_due g = 0)"
    for xs :: "(nat, goroutine) gomap"
    by (subst sum_list_nonneg_eq_0_iff) (auto simp: due)
  ultimately show ?thesis unfolding count WaitForInitialHealthChecks_returns_def due(2) by blast
qed

theorem initial_checks_counted_witness:
  "\<not> WaitForInitialHealthChecks_returns (fst (monitor_Start (Some False)
     (new_monitor (\<lambda>d t. (None, 0)) False [example_backend ''a'' ''u''] DefaultConfig)))"
proof -
  let ?m = "fst (monitor_Start (Some False) (new_monitor (\<lambda>d t. (None, 0)) False [example_backend ''a'' ''u''] DefaultConfig))"
  have m: "monitor_of ?m" by (rule monitor_of_Start [OF example_monitor]) (simp_all add: new_monitor_def)
  have "mon_goroutines ?m = [(0, \<lparr>g_backend = example_backend ''a'' ''u'', g_isInitial = True, g_cancelled = False,
      g_phase = Checking True\<rparr>)]"
    by (simp add: monitor_Start_def new_monitor_def start_goroutines)
  with initial_checks_counted [OF m] show ?thesis by simp
qed

text \<open>
  Claim C38: The removed flag does not cover a backend that is removed and added again: a check still in
  flight from before the removal, whose goroutine is cancelled, is recorded as the health of the
  new version of the backend at its new URL, which has not been checked yet.
\<close>

theorem stale_result_after_readd:
  "\<exists>m m' k g. monitor_of m \<and> mon_step m m' \<and> map_of (mon_goroutines m) k = Some g \<and> g_cancelled g \<and>
     m' = go_record k g True (None, 0) 2 m \<and> b_BaseURL (g_backend g) = ''old'' \<and>
     map_option b_BaseURL (active_backend m (go_id g)) = Some ''new'' \<and>
     QueryBackendStatus m (go_id g) = (BackendUnknown, False) \<and>
     QueryBackendStatus m' (go_id g) = (BackendHealthy, True)"
proof -
  let ?old = "example_backend ''a'' ''old''" and ?new = "example_backend ''a'' ''new''"
  let ?g = "\<lparr>g_backend = ?old, g_isInitial = True, g_cancelled = False, g_phase = Checking True\<rparr>"
  let ?h = "?g\<lparr>g_cancelled := True, g_phase := Probing True\<rparr>"
  define m1 where "m1 = fst (monitor_Start (Some False) (new_monitor (\<lambda>d t. (None, 0)) False [?old] DefaultConfig))"
  define m2 where "m2 = go_check 0 ?g True 1 m1"
  define m3 where "m3 = UpdateBackends [] m2"
  define m4 where "m4 = UpdateBackends [?new] m3"
  note eval = monitor_Start_def new_monitor_def start_goroutines go_check_def put_go_def Let_def
    UpdateBackends_def start_actions_def stop_actions_def newBackendsMap_def example_backend_def
    bc_stop_def start_check_def bc_start_def backendChanged_def newStatusTracker_def
    tracker_defs isRemoved_def DefaultConfig_def second_def
  have r1: "monitor_of m1" unfolding m1_def
    by (rule monitor_of_Start [OF example_monitor]) (simp_all add: new_monitor_def)
  have "map_of (mon_goroutines m1) 0 = Some ?g" by (simp add: m1_def eval)
  then have "mon_step m1 m2" unfolding m2_def by (rule step_check) simp
  then have r2: "monitor_of m2" by (rule monitor_step [OF r1])
  have "mon_todo m2 = []" "mon_todo m3 = []" by (simp_all add: m3_def m2_def m1_def eval)
  then have r4: "monitor_of m4"
    using r2 unfolding m4_def m3_def by (meson monitor_of_reach reach_UpdateBackends)
  have g: "map_of (mon_goroutines m4) 0 = Some ?h" by (simp add: m4_def m3_def m2_def m1_def eval)
  then have s: "mon_step m4 (go_record 0 ?h True (None, 0) 2 m4)" by (rule step_record) simp
  have "map_option b_BaseURL (active_backend m4 ''a'') = Some ''new''"
    "QueryBackendStatus m4 ''a'' = (BackendUnknown, False)"
    "QueryBackendStatus (go_record 0 ?h True (None, 0) 2 m4) ''a'' = (BackendHealthy, True)"
    by (simp_all add: m4_def m3_def m2_def m1_def eval active_backend_def QueryBackendStatus_def
        tracker_GetStatus_def go_record_def record_result_def CheckHealth_def NewHealthChecker_def)
  then show ?thesis
    using r4 s g by (intro exI [of _ m4] exI [of _ "go_record 0 ?h True (None, 0) 2 m4"] exI [of _ 0] exI [of _ ?h])
      (simp add: example_backend_def)
qed

end
