(* ===== verification/Health_Report.thy ===== *)
theory Health_Report
  imports Health_Monitor
begin

text \<open>
  The status report the monitor builds from a snapshot of the health states
  (\<open>pkg/vmcp/health/monitor.go\<close>, \<open>computeSummary\<close> to \<open>buildConditions\<close>): the summary counts, the
  phase of the server, the conditions, the entry of each backend and the messages.
\<close>

section \<open>Summary and phase\<close>

record Summary =
  sum_Total :: int
  sum_Healthy :: int
  sum_Degraded :: int
  sum_Unhealthy :: int
  sum_Unknown :: int
  sum_Unauthenticated :: int

fun count_state :: "State \<Rightarrow> Summary \<Rightarrow> Summary" where
  "count_state state s = (case s_Status state of
     BackendHealthy \<Rightarrow> s\<lparr>sum_Healthy := sum_Healthy s + 1\<rparr>
   | BackendDegraded \<Rightarrow> s\<lparr>sum_Degraded := sum_Degraded s + 1\<rparr>
   | BackendUnhealthy \<Rightarrow> s\<lparr>sum_Unhealthy := sum_Unhealthy s + 1\<rparr>
   | BackendUnknown \<Rightarrow> s\<lparr>sum_Unknown := sum_Unknown s + 1\<rparr>
   | BackendUnauthenticated \<Rightarrow> s\<lparr>sum_Unauthenticated := sum_Unauthenticated s + 1\<rparr>
   | NoHealthStatus \<Rightarrow> s)"

definition computeSummary :: "(string, State) gomap \<Rightarrow> Summary" where
  "computeSummary allStates = fold (\<lambda>(i, state). count_state state) allStates
     \<lparr>sum_Total = int (length allStates), sum_Healthy = 0, sum_Degraded = 0, sum_Unhealthy = 0,
      sum_Unknown = 0, sum_Unauthenticated = 0\<rparr>"

definition Routable :: "Summary \<Rightarrow> int" where
  "Routable s = sum_Healthy s + sum_Unauthenticated s"

definition summary_String :: "Summary \<Rightarrow> string" where
  "summary_String s = ''total='' @ show_int (sum_Total s) @ '' healthy='' @ show_int (sum_Healthy s)
     @ '' degraded='' @ show_int (sum_Degraded s) @ '' unhealthy='' @ show_int (sum_Unhealthy s)
     @ '' unknown='' @ show_int (sum_Unknown s) @ '' unauthenticated='' @ show_int (sum_Unauthenticated s)"

definition GetHealthSummary :: "Monitor \<Rightarrow> Summary" where
  "GetHealthSummary m = computeSummary (tracker_GetAllStates (mon_statusTracker m))"

definition determinePhase :: "Summary \<Rightarrow> int \<Rightarrow> Phase" where
  "determinePhase summary configuredBackendCount =
     (if sum_Total summary = 0
      then (if configuredBackendCount = 0 then PhaseReady else PhasePending)
      else if Routable summary = sum_Total summary then PhaseReady
      else if Routable summary = 0 then PhaseFailed
      else PhaseDegraded)"

section \<open>Messages\<close>

definition pluralBackend :: "int \<Rightarrow> string" where
  "pluralBackend n = (if n = 1 then ''backend'' else ''backends'')"

definition pluralRequire :: "int \<Rightarrow> string" where
  "pluralRequire n = (if n = 1 then ''requires'' else ''require'')"

definition quantifyBackends :: "int \<Rightarrow> string" where
  "quantifyBackends n = (if n = 1 then show_int n @ '' backend'' else ''All '' @ show_int n @ '' backends'')"

definition formatStatusMessage :: "Summary \<Rightarrow> Phase \<Rightarrow> int \<Rightarrow> string" where
  "formatStatusMessage summary phase configuredBackendCount =
     (if sum_Total summary = 0 then
        (if configuredBackendCount = 0 then ''Ready, no backends configured''
         else ''Waiting for initial health checks ('' @ show_int configuredBackendCount @ '' backends configured)'')
      else if phase = PhaseReady then
        (if sum_Unauthenticated summary = 0
         then ''All '' @ show_int (sum_Healthy summary) @ '' '' @ pluralBackend (sum_Healthy summary) @ '' healthy''
         else if sum_Healthy summary = 0
         then quantifyBackends (sum_Unauthenticated summary) @ '' '' @ pluralRequire (sum_Unauthenticated summary)
                @ '' authentication''
         else show_int (sum_Healthy summary) @ '' '' @ pluralBackend (sum_Healthy summary) @ '' healthy, ''
                @ show_int (sum_Unauthenticated summary) @ '' '' @ pluralRequire (sum_Unauthenticated summary)
                @ '' authentication'')
      else
        let nonRoutableDetails = show_int (sum_Degraded summary) @ '' degraded, ''
              @ show_int (sum_Unhealthy summary) @ '' unhealthy, '' @ show_int (sum_Unknown summary) @ '' unknown''
        in if phase = PhaseFailed then ''No routable backends ('' @ nonRoutableDetails @ '')''
           else show_int (Routable summary) @ ''/'' @ show_int (sum_Total summary)
                  @ '' backends routable ('' @ nonRoutableDetails @ '')'')"

definition categorizeErrorForMessage :: "goerror option \<Rightarrow> string" where
  "categorizeErrorForMessage err = (case err of None \<Rightarrow> ''Unknown error'' | Some e \<Rightarrow>
     if errors_Is e ErrAuthenticationFailed \<or> errors_Is e ErrAuthorizationFailed then ''Authentication failed''
     else if IsAuthenticationError err then ''Authentication failed''
     else if errors_Is e ErrTimeout then ''Health check timed out''
     else if IsTimeoutError err then ''Health check timed out''
     else if errors_Is e ErrCancelled then ''Health check cancelled''
     else if errors_Is e ErrBackendUnavailable then ''Backend unavailable''
     else if IsConnectionError err then ''Connection failed''
     else ''Health check failed'')"

definition formatBackendMessage :: "State \<Rightarrow> string" where
  "formatBackendMessage state =
     (let baseMsg = (if s_LastError state \<noteq> None then
            let category = categorizeErrorForMessage (s_LastError state) in
            if s_ConsecutiveFailures state > 1
            then category @ '' (failures: '' @ show_int (s_ConsecutiveFailures state) @ '')''
            else category
          else case s_Status state of
            BackendHealthy \<Rightarrow> ''Healthy''
          | BackendDegraded \<Rightarrow>
              (if s_ConsecutiveFailures state > 0
               then ''Recovering from '' @ show_int (s_ConsecutiveFailures state) @ '' failures''
               else ''Degraded performance'')
          | BackendUnhealthy \<Rightarrow> ''Unhealthy''
          | BackendUnauthenticated \<Rightarrow> ''Authentication misconfigured (backend requires auth, none configured)''
          | BackendUnknown \<Rightarrow> ''Unknown''
          | NoHealthStatus \<Rightarrow> health_string NoHealthStatus)
      in case s_CircuitState state of
           CircuitOpen \<Rightarrow> ''Circuit breaker OPEN - '' @ baseMsg
         | CircuitHalfOpen \<Rightarrow> ''Circuit breaker testing recovery - '' @ baseMsg
         | CircuitClosed \<Rightarrow> baseMsg)"

section \<open>Conditions\<close>

record Condition =
  cond_Type :: string
  cond_Status :: bool
  cond_LastTransitionTime :: gotime
  cond_Reason :: string
  cond_Message :: string

definition readyCondition :: "Summary \<Rightarrow> Phase \<Rightarrow> int \<Rightarrow> gotime \<Rightarrow> Condition" where
  "readyCondition summary phase configuredBackendCount now =
     (let base = \<lparr>cond_Type = ''Ready'', cond_Status = False, cond_LastTransitionTime = now,
            cond_Reason = ''BackendsUnhealthy'', cond_Message = ''Not all backends are healthy''\<rparr>
      in case phase of
        PhaseReady \<Rightarrow> base\<lparr>cond_Status := True, cond_Reason := ''AllBackendsRoutable'', cond_Message :=
          (if sum_Total summary = 0 \<and> configuredBackendCount = 0 then ''Ready, no backends configured''
           else if sum_Unauthenticated summary = 0
           then ''All '' @ show_int (sum_Healthy summary) @ '' '' @ pluralBackend (sum_Healthy summary) @ '' are healthy''
           else if sum_Healthy summary = 0
           then quantifyBackends (sum_Unauthenticated summary) @ '' '' @ pluralRequire (sum_Unauthenticated summary)
                  @ '' authentication''
           else show_int (sum_Healthy summary) @ '' '' @ pluralBackend (sum_Healthy summary) @ '' healthy, ''
                  @ show_int (sum_Unauthenticated summary) @ '' '' @ pluralRequire (sum_Unauthenticated summary)
                  @ '' authentication'')\<rparr>
      | PhaseDegraded \<Rightarrow> base\<lparr>cond_Reason := ''SomeBackendsUnhealthy'', cond_Message :=
          show_int (Routable summary) @ ''/'' @ show_int (sum_Total summary) @ '' backends routable''\<rparr>
      | PhaseFailed \<Rightarrow> base\<lparr>cond_Reason := ''NoRoutableBackends'', cond_Message := ''No routable backends available''\<rparr>
      | PhasePending \<Rightarrow> base\<lparr>cond_Reason := ''BackendsPending'', cond_Message :=
          ''Waiting for initial health checks ('' @ show_int configuredBackendCount @ '' backends configured)''\<rparr>)"

definition buildConditions :: "Summary \<Rightarrow> Phase \<Rightarrow> int \<Rightarrow> gotime \<Rightarrow> Condition list" where
  "buildConditions summary phase configuredBackendCount now =
     [readyCondition summary phase configuredBackendCount now,
      \<lparr>cond_Type = ''BackendsDiscovered'', cond_Status = True, cond_LastTransitionTime = now,
       cond_Reason = ''BackendsDiscovered'',
       cond_Message = (if configuredBackendCount = 0 then ''No backends configured''
         else ''Discovered '' @ show_int configuredBackendCount @ '' backends'')\<rparr>] @
     (if sum_Degraded summary > 0
      then [\<lparr>cond_Type = ''Degraded'', cond_Status = True, cond_LastTransitionTime = now,
             cond_Reason = ''BackendsDegraded'',
             cond_Message = show_int (sum_Degraded summary) @ '' backends degraded''\<rparr>]
      else [])"

section \<open>The report\<close>

record DiscoveredBackend =
  db_Name :: string
  db_URL :: string
  db_Status :: string
  db_AuthConfigRef :: string
  db_AuthType :: string
  db_LastHealthCheck :: gotime
  db_Message :: string
  db_CircuitBreakerState :: string
  db_CircuitLastChanged :: gotime
  db_ConsecutiveFailures :: int
  db_MCPRevision :: string

definition extractAuthInfo :: "Backend \<Rightarrow> string \<times> string" where
  "extractAuthInfo backend = (case b_AuthConfig backend of None \<Rightarrow> ('''', '''')
     | Some a \<Rightarrow> (b_AuthConfigRef backend, auth_Type a))"

definition discovered_entry :: "(string, Backend) gomap \<Rightarrow> string \<Rightarrow> State \<Rightarrow> DiscoveredBackend" where
  "discovered_entry backendsByID backendID state =
     (let entry = (\<lambda>name url ref ty. \<lparr>db_Name = name, db_URL = url, db_Status = ToCRDStatus (s_Status state),
            db_AuthConfigRef = ref, db_AuthType = ty, db_LastHealthCheck = s_LastCheckTime state,
            db_Message = formatBackendMessage state,
            db_CircuitBreakerState = circuit_string (s_CircuitState state),
            db_CircuitLastChanged = s_CircuitLastChanged state,
            db_ConsecutiveFailures = s_ConsecutiveFailures state, db_MCPRevision = s_MCPRevision state\<rparr>)
      in case map_of backendsByID backendID of
           None \<Rightarrow> entry backendID '''' '''' ''''
         | Some backend \<Rightarrow> (case extractAuthInfo backend of (authConfigRef, authType) \<Rightarrow>
             entry (b_Name backend) (b_BaseURL backend) authConfigRef authType))"

definition convertToDiscoveredBackends :: "Backend list \<Rightarrow> (string, State) gomap \<Rightarrow> DiscoveredBackend list" where
  "convertToDiscoveredBackends backends allStates =
     (let backendsByID = fold (\<lambda>b. AList.update (b_ID b) b) backends []
      in map (\<lambda>(backendID, state). discovered_entry backendsByID backendID state) allStates)"

record Status =
  stat_Phase :: Phase
  stat_Message :: string
  stat_Conditions :: "Condition list"
  stat_DiscoveredBackends :: "DiscoveredBackend list"
  stat_BackendCount :: "32 word"
  stat_Timestamp :: gotime

text \<open>
  \<open>BuildStatus\<close> reads the monitor three times, taking and releasing a lock each time: the health
  states, the number of configured backends and the backends themselves. The three arguments are
  the monitor at those reads.
\<close>

definition BuildStatus :: "Monitor \<Rightarrow> Monitor \<Rightarrow> Monitor \<Rightarrow> gotime \<Rightarrow> Status" where
  "BuildStatus m1 m2 m3 now =
     (let allStates = GetAllBackendStates m1;
          summary = computeSummary allStates;
          configuredBackendCount = int (length (mon_backends m2));
          phase = determinePhase summary configuredBackendCount
      in \<lparr>stat_Phase = phase,
          stat_Message = formatStatusMessage summary phase configuredBackendCount,
          stat_Conditions = buildConditions summary phase configuredBackendCount now,
          stat_DiscoveredBackends = convertToDiscoveredBackends (mon_backends m3) allStates,
          stat_BackendCount = word_of_int (Routable summary),
          stat_Timestamp = now\<rparr>)"

section \<open>Statuses a monitor can hold\<close>

text \<open>
  The tracker only ever receives the statuses a check can return, so none of its backends has the
  empty status; this lifts from the tracker's calls to every step of the monitor.
\<close>

fun known_op :: "tracker_op \<times> gotime \<Rightarrow> bool" where
  "known_op (OpSuccess i n status, now) = (status \<noteq> NoHealthStatus)"
| "known_op (OpFailure i n status e, now) = (status \<noteq> NoHealthStatus)"
| "known_op _ = True"

fun known_view :: "backend_view \<Rightarrow> bool" where
  "known_view (Tracked s) = (bhs_status s \<noteq> NoHealthStatus)"
| "known_view _ = True"

lemma known_view_step: "known_op c \<Longrightarrow> known_view v \<Longrightarrow> known_view (view_step k cfg c v)"
  by (cases c; cases "fst c"; cases v)
    (simp_all add: after_success_def after_failure_def fresh_state_def Let_def)

lemma known_view_fold:
  assumes "tracker_inv t" and "\<forall>i. known_view (tracker_view t i)" and "\<forall>c \<in> set cs. known_op c"
  shows "known_view (tracker_view (fold tracker_step cs t) i)"
proof -
  have "known_view (fold (view_step k cfg) cs v)" if "known_view v" "\<forall>c \<in> set cs. known_op c" for k cfg cs v
    using that by (induction cs arbitrary: v) (simp_all add: known_view_step)
  then show ?thesis using assms trk.fold_view [OF assms(1), of cs i] by simp
qed

lemma categorizeError_known: "categorizeError target err \<noteq> NoHealthStatus"
proof -
  have "authErrorStatus target \<noteq> NoHealthStatus" by (simp add: authErrorStatus_def split: option.split)
  then show ?thesis by (simp add: categorizeError_def split: option.split)
qed

lemma CheckHealth_known: "fst (CheckHealth h target) \<noteq> NoHealthStatus"
  using categorizeError_known by (simp add: CheckHealth_def Let_def split: prod.split option.split)

definition known_calls :: "statusTracker \<Rightarrow> statusTracker \<Rightarrow> bool" where
  "known_calls t t' \<longleftrightarrow> (\<exists>cs. (\<forall>c \<in> set cs. known_op c) \<and> t' = fold tracker_step cs t)"

lemma known_calls_ops:
  "known_calls t t" "known_calls t (fst (ShouldAttemptHealthCheck i now t))"
  "known_calls t (tracker_ClearRemovedFlag i t)" "known_calls t (tracker_RemoveBackend i t)"
  "fst result \<noteq> NoHealthStatus \<Longrightarrow> known_calls t (record_result b result now t)"
  "known_calls t (record_revision b reports cached t)"
proof -
  have one: "known_op c \<Longrightarrow> known_calls t (tracker_step c t)" for c t
    unfolding known_calls_def by (rule exI [of _ "[c]"]) simp
  show refl: "known_calls t t" unfolding known_calls_def by (rule exI [of _ "[]"]) simp
  show "known_calls t (fst (ShouldAttemptHealthCheck i now t))"
    "known_calls t (tracker_ClearRemovedFlag i t)" "known_calls t (tracker_RemoveBackend i t)"
    using one [of "(OpAttempt i, now)" t] one [of "(OpClear i, now)" t] one [of "(OpRemove i, now)" t] by simp_all
  show "fst result \<noteq> NoHealthStatus \<Longrightarrow> known_calls t (record_result b result now t)"
    using one [of "(OpSuccess (b_ID b) (b_Name b) (fst result), now)" t]
      one [of "(OpFailure (b_ID b) (b_Name b) (fst result) (the (snd result)), now)" t]
    by (cases result; cases "snd result") (auto simp: record_result_def)
  show "known_calls t (record_revision b reports cached t)"
    using refl one [of "(OpRevision (b_ID b) (revision_String (the cached)), 0)" t]
    by (cases cached) (auto simp: record_revision_def)
qed

lemma fold_start_tracker [simp]:
  "mon_statusTracker (fold (start_check True) bs m) = mon_statusTracker m"
  by (induction bs arbitrary: m) simp_all

lemma mon_step_tracker: "mon_step m m' \<Longrightarrow> known_calls (mon_statusTracker m) (mon_statusTracker m')"
proof (induction rule: mon_step.induct)
  case (step_start m ctx m' err)
  then show ?case by (auto simp: monitor_Start_def known_calls_ops split: if_splits option.splits)
next
  case (step_stop m m' err)
  then show ?case by (auto simp: monitor_Stop_def known_calls_ops split: if_splits)
next
  case (step_iteration m a as)
  show ?case by (cases a) (auto simp: known_calls_ops Let_def split: option.splits)
qed (simp_all add: known_calls_ops go_check_def go_record_def go_revision_def finish_check_def put_go_def
    Let_def case_prod_unfold CheckHealth_known)

lemma monitor_statuses_known: "monitor_of m \<Longrightarrow> known_view (tracker_view (mon_statusTracker m) i)"
proof (induction arbitrary: i rule: monitor_of.induct)
  case (monitor_new client reports bs config m)
  then have "m = new_monitor client reports bs config"
    by (auto simp: NewMonitor_def split: if_splits option.splits)
  then show ?case by (simp add: new_monitor_def newStatusTracker_def tracker_view_def isRemoved_def)
next
  case (monitor_step m m')
  have "tracker_inv (mon_statusTracker m)"
    using monitor_of_inv [OF monitor_step(1)] by (simp add: mon_inv_def mon_core_def)
  then show ?case
    using mon_step_tracker [OF monitor_step(2)] known_view_fold monitor_step.IH by (auto simp: known_calls_def)
qed

lemma monitor_states:
  assumes "monitor_of m" and "(i, r) \<in> set (GetAllBackendStates m)"
  shows "s_Status r \<noteq> NoHealthStatus" and "\<exists>s. tracker_view (mon_statusTracker m) i = Tracked s \<and> r = copyState s"
proof -
  have inv: "tracker_inv (mon_statusTracker m)"
    using monitor_of_inv [OF assms(1)] by (simp add: mon_inv_def mon_core_def)
  obtain s where s: "(i, s) \<in> set (st_states (mon_statusTracker m))" "r = copyState s"
    using assms(2) by (auto simp: GetAllBackendStates_def tracker_GetAllStates_def)
  then have "map_of (st_states (mon_statusTracker m)) i = Some s"
    using inv by (simp add: tracker_inv_def gomap_ok_lookup [symmetric])
  then have "tracker_view (mon_statusTracker m) i = Tracked s"
    using inv by (auto simp: tracker_view_def tracker_inv_def)
  then show "\<exists>s. tracker_view (mon_statusTracker m) i = Tracked s \<and> r = copyState s" using s(2) by blast
  show "s_Status r \<noteq> NoHealthStatus"
    using monitor_statuses_known [OF assms(1), of i] \<open>tracker_view _ i = Tracked s\<close> s(2)
    by (simp add: copyState_def Let_def)
qed

section \<open>Counting\<close>

definition count_status :: "BackendHealthStatus \<Rightarrow> (string, State) gomap \<Rightarrow> int" where
  "count_status st allStates = int (length (filter (\<lambda>(i, r). s_Status r = st) allStates))"

lemma fold_count:
  "fold (\<lambda>(i, state). count_state state) xs s =
     s\<lparr>sum_Healthy := sum_Healthy s + count_status BackendHealthy xs,
       sum_Degraded := sum_Degraded s + count_status BackendDegraded xs,
       sum_Unhealthy := sum_Unhealthy s + count_status BackendUnhealthy xs,
       sum_Unknown := sum_Unknown s + count_status BackendUnknown xs,
       sum_Unauthenticated := sum_Unauthenticated s + count_status BackendUnauthenticated xs\<rparr>"
  by (induction xs arbitrary: s) (auto simp: count_status_def split: BackendHealthStatus.splits)

lemma computeSummary_eq:
  "computeSummary xs = \<lparr>sum_Total = int (length xs), sum_Healthy = count_status BackendHealthy xs,
     sum_Degraded = count_status BackendDegraded xs, sum_Unhealthy = count_status BackendUnhealthy xs,
     sum_Unknown = count_status BackendUnknown xs, sum_Unauthenticated = count_status BackendUnauthenticated xs\<rparr>"
  by (simp add: computeSummary_def fold_count)

lemma count_partition:
  "\<forall>(i, r) \<in> set xs. s_Status r \<noteq> NoHealthStatus \<Longrightarrow>
   count_status BackendHealthy xs + count_status BackendDegraded xs + count_status BackendUnhealthy xs
     + count_status BackendUnknown xs + count_status BackendUnauthenticated xs = int (length xs)"
proof (induction xs)
  case (Cons x xs)
  then show ?case by (cases x; cases "s_Status (snd x)") (auto simp: count_status_def)
qed (simp add: count_status_def)

abbreviation routable :: "State \<Rightarrow> bool" where
  "routable r \<equiv> s_Status r = BackendHealthy \<or> s_Status r = BackendUnauthenticated"

lemma Routable_count: "Routable (computeSummary xs) = int (length (filter (\<lambda>(i, r). routable r) xs))"
proof -
  have "count_status BackendHealthy xs + count_status BackendUnauthenticated xs =
      int (length (filter (\<lambda>(i, r). routable r) xs))"
    by (induction xs) (auto simp: count_status_def)
  then show ?thesis by (simp add: Routable_def computeSummary_eq)
qed

lemma length_filter_all: "length (filter P xs) = length xs \<longleftrightarrow> (\<forall>x \<in> set xs. P x)"
  by (metis filter_True length_filter_less less_irrefl)

lemma Routable_all: "Routable (computeSummary xs) = int (length xs) \<longleftrightarrow> (\<forall>(i, r) \<in> set xs. routable r)"
  unfolding Routable_count of_nat_eq_iff by (rule length_filter_all)

lemma Routable_none: "Routable (computeSummary xs) = 0 \<longleftrightarrow> (\<forall>(i, r) \<in> set xs. \<not> routable r)"
  by (auto simp: Routable_count filter_empty_conv)

section \<open>Properties\<close>

text \<open>
  In every reachable monitor the five counts of the health summary add up to its total: no
  tracked backend is left out of the summary or counted twice.
\<close>

theorem summary_partitions_backends:
  assumes "monitor_of m"
  shows "let s = GetHealthSummary m in
    sum_Healthy s + sum_Degraded s + sum_Unhealthy s + sum_Unknown s + sum_Unauthenticated s = sum_Total s
    \<and> sum_Total s = int (length (GetAllBackendStates m))"
proof -
  have "\<forall>(i, r) \<in> set (GetAllBackendStates m). s_Status r \<noteq> NoHealthStatus"
    using monitor_states(1) [OF assms] by auto
  from count_partition [OF this] show ?thesis
    by (simp add: GetHealthSummary_def computeSummary_eq GetAllBackendStates_def [symmetric])
qed

theorem summary_partitions_backends_witness:
  "sum_Total (GetHealthSummary (new_monitor (\<lambda>d t. (None, 0)) False [example_backend ''a'' ''u''] DefaultConfig)) = 0"
  using summary_partitions_backends [OF example_monitor, of "[example_backend ''a'' ''u'']" "\<lambda>d t. (None, 0)" False]
  by (simp add: Let_def GetAllBackendStates_def tracker_GetAllStates_def new_monitor_def newStatusTracker_def)

text \<open>
  The phase of a status report says exactly which of the four situations holds: ready when
  every backend with health data is routable (or nothing is configured and nothing tracked),
  pending when backends are configured and none has health data, failed when there is health data
  and no backend is routable, degraded otherwise.
\<close>

theorem phase_characterised:
  "let states = GetAllBackendStates m1; phase = stat_Phase (BuildStatus m1 m2 m3 now) in
   (phase = PhaseReady \<longleftrightarrow> (\<forall>(i, r) \<in> set states. routable r) \<and> (states = [] \<longrightarrow> mon_backends m2 = [])) \<and>
   (phase = PhasePending \<longleftrightarrow> states = [] \<and> mon_backends m2 \<noteq> []) \<and>
   (phase = PhaseFailed \<longleftrightarrow> states \<noteq> [] \<and> (\<forall>(i, r) \<in> set states. \<not> routable r)) \<and>
   (phase = PhaseDegraded \<longleftrightarrow> (\<exists>(i, r) \<in> set states. routable r) \<and> (\<exists>(i, r) \<in> set states. \<not> routable r))"
proof -
  let ?xs = "GetAllBackendStates m1"
  have total: "sum_Total (computeSummary ?xs) = int (length ?xs)" by (simp add: computeSummary_eq)
  have phase: "stat_Phase (BuildStatus m1 m2 m3 now) = (if ?xs = []
      then (if mon_backends m2 = [] then PhaseReady else PhasePending)
      else if \<forall>(i, r) \<in> set ?xs. routable r then PhaseReady
      else if \<forall>(i, r) \<in> set ?xs. \<not> routable r then PhaseFailed else PhaseDegraded)"
    using Routable_all [of ?xs] Routable_none [of ?xs]
    by (simp add: BuildStatus_def determinePhase_def total Let_def)
  have "?xs \<noteq> [] \<Longrightarrow> \<not> ((\<forall>(i, r) \<in> set ?xs. routable r) \<and> (\<forall>(i, r) \<in> set ?xs. \<not> routable r))"
    by (cases ?xs) auto
  then show ?thesis unfolding phase Let_def by (cases "?xs = []") (auto split: if_splits)
qed

theorem phase_characterised_witness:
  "stat_Phase (BuildStatus
     (new_monitor (\<lambda>d t. (None, 0)) False [example_backend ''a'' ''u''] DefaultConfig)
     (new_monitor (\<lambda>d t. (None, 0)) False [example_backend ''a'' ''u''] DefaultConfig)
     (new_monitor (\<lambda>d t. (None, 0)) False [example_backend ''a'' ''u''] DefaultConfig) 0) = PhasePending"
  using phase_characterised [of "new_monitor (\<lambda>d t. (None, 0)) False [example_backend ''a'' ''u''] DefaultConfig"
      "new_monitor (\<lambda>d t. (None, 0)) False [example_backend ''a'' ''u''] DefaultConfig"
      "new_monitor (\<lambda>d t. (None, 0)) False [example_backend ''a'' ''u''] DefaultConfig" 0]
  by (simp add: Let_def GetAllBackendStates_def tracker_GetAllStates_def new_monitor_def newStatusTracker_def)

text \<open>
  A backend that is degraded still serves traffic, since its capabilities are advertised, but
  it is not counted routable: when every tracked backend is degraded the report says failed.
\<close>

theorem all_degraded_reports_failed:
  assumes "GetAllBackendStates m1 \<noteq> []" and "\<forall>(i, r) \<in> set (GetAllBackendStates m1). s_Status r = BackendDegraded"
  shows "stat_Phase (BuildStatus m1 m2 m3 now) = PhaseFailed
    \<and> (\<forall>(i, r) \<in> set (GetAllBackendStates m1). ShouldAdvertise (s_Status r))"
proof -
  let ?xs = "GetAllBackendStates m1"
  have "Routable (computeSummary ?xs) = 0" using assms(2) by (auto simp: Routable_none)
  moreover have "sum_Total (computeSummary ?xs) \<noteq> 0" using assms(1) by (simp add: computeSummary_eq)
  ultimately show ?thesis using assms(2) by (auto simp: BuildStatus_def determinePhase_def Let_def ShouldAdvertise_def)
qed

theorem all_degraded_reports_failed_witness:
  "let m = performHealthCheck (example_backend ''a'' ''u'') 1 2 None
     (new_monitor (\<lambda>d t. (None, 6 * second)) False [example_backend ''a'' ''u''] DefaultConfig)
   in stat_Phase (BuildStatus m m m 0) = PhaseFailed"
proof -
  let ?m = "performHealthCheck (example_backend ''a'' ''u'') 1 2 None
     (new_monitor (\<lambda>d t. (None, 6 * second)) False [example_backend ''a'' ''u''] DefaultConfig)"
  have "\<exists>r. GetAllBackendStates ?m = [(''a'', r)] \<and> s_Status r = BackendDegraded"
    by (simp add: performHealthCheck_def new_monitor_def newStatusTracker_def tracker_defs isRemoved_def
        example_backend_def CheckHealth_def NewHealthChecker_def DefaultConfig_def second_def
        record_result_def record_revision_def GetAllBackendStates_def tracker_GetAllStates_def copyState_def)
  then show ?thesis using all_degraded_reports_failed [of ?m ?m ?m 0] by (auto simp: Let_def)
qed

text \<open>
  Whenever no update is in progress the report lists each tracked backend once, under the
  name and URL of a configured backend with that ID.
\<close>

theorem discovered_backends_resolved:
  assumes "monitor_of m" and "mon_todo m = []"
  shows "list_all2 (\<lambda>(i, r) d. \<exists>b \<in> set (mon_backends m). b_ID b = i \<and> db_Name d = b_Name b
      \<and> db_URL d = b_BaseURL b \<and> db_Status d = ToCRDStatus (s_Status r))
    (GetAllBackendStates m) (stat_DiscoveredBackends (BuildStatus m m m now))"
proof -
  let ?byID = "fold (\<lambda>b. AList.update (b_ID b) b) (mon_backends m) []"
  have inv: "mon_inv m" by (rule monitor_of_inv [OF assms(1)])
  have "\<exists>b \<in> set (mon_backends m). b_ID b = i \<and> map_of ?byID i = Some b"
    if listed: "(i, r) \<in> set (GetAllBackendStates m)" for i r
  proof -
    obtain s where v: "tracker_view (mon_statusTracker m) i = Tracked s" using monitor_states(2) [OF assms(1) listed] by blast
    then have act: "map_of (mon_activeChecks m) i \<noteq> None"
      using inv by (auto simp: mon_inv_def mon_core_def checks_owned_def)
    then have "mon_started m \<or> mon_stopped m" using inv by (auto simp: mon_inv_def mon_life_def)
    then have "dom (map_of (mon_activeChecks m)) = b_ID ` set (mon_backends m)"
      using inv assms(2) by (simp add: mon_inv_def mon_life_def)
    then have "i \<in> dom (map_of ?byID)"
      using act newBackendsMap_keys(2) [of "mon_backends m"] by (metis domIff newBackendsMap_def)
    then obtain b where b: "map_of ?byID i = Some b" by blast
    then show ?thesis
      using newBackendsMap_keys(3) [of i b "mon_backends m"] map_of_SomeD [OF b] by (auto simp: newBackendsMap_def)
  qed
  then show ?thesis
    by (fastforce simp: BuildStatus_def convertToDiscoveredBackends_def discovered_entry_def Let_def
        list_all2_map2 list_all2_same case_prod_unfold)
qed

theorem discovered_backends_resolved_witness:
  "let m = fst (monitor_Start (Some False) (new_monitor (\<lambda>d t. (None, 0)) False [example_backend ''a'' ''u''] DefaultConfig))
   in length (stat_DiscoveredBackends (BuildStatus m m m 0)) = length (GetAllBackendStates m)"
proof -
  let ?m = "fst (monitor_Start (Some False) (new_monitor (\<lambda>d t. (None, 0)) False [example_backend ''a'' ''u''] DefaultConfig))"
  have "monitor_of ?m" by (rule monitor_of_Start [OF example_monitor]) (simp_all add: new_monitor_def)
  moreover have "mon_todo ?m = []" by (simp add: monitor_Start_def new_monitor_def)
  ultimately show ?thesis
    unfolding Let_def using discovered_backends_resolved [THEN list_all2_lengthD, of ?m 0] by simp
qed

text \<open>
  The report names a circuit breaker state of closed for every backend of a monitor whose
  circuit breaker is disabled, with the zero time as its last change.
\<close>

theorem disabled_breaker_reported_closed:
  assumes "monitor_of m" and "\<not> breaker_enabled (st_circuitBreakerConfig (mon_statusTracker m))"
    and "d \<in> set (stat_DiscoveredBackends (BuildStatus m m2 m3 now))"
  shows "db_CircuitBreakerState d = ''closed'' \<and> db_CircuitLastChanged d = 0"
proof -
  obtain i r where r: "(i, r) \<in> set (GetAllBackendStates m)"
    and d: "db_CircuitBreakerState d = circuit_string (s_CircuitState r)" "db_CircuitLastChanged d = s_CircuitLastChanged r"
    using assms(3) by (auto simp: BuildStatus_def convertToDiscoveredBackends_def discovered_entry_def Let_def
        split: option.splits prod.splits)
  obtain s where s: "tracker_view (mon_statusTracker m) i = Tracked s" "r = copyState s"
    using monitor_states(2) [OF assms(1) r] by blast
  have "view_inv (st_circuitBreakerConfig (mon_statusTracker m)) (tracker_view (mon_statusTracker m) i)"
    using monitor_of_inv [OF assms(1)] by (simp add: mon_inv_def mon_core_def tracker_inv_view)
  then have "bhs_circuitBreaker s = AlwaysClosed"
    using s(1) assms(2) by (cases "bhs_circuitBreaker s") (auto simp: state_inv_def)
  then show ?thesis by (simp add: d s(2) copyState_def Let_def)
qed

lemma checked_example:
  fixes answer :: "goerror option \<times> duration"
  defines "m0 \<equiv> new_monitor (\<lambda>d t. answer) False [example_backend ''a'' ''u''] DefaultConfig"
  defines "g \<equiv> \<lparr>g_backend = example_backend ''a'' ''u'', g_isInitial = True, g_cancelled = False, g_phase = Checking True\<rparr>"
  shows "monitor_of (go_record 0 (g\<lparr>g_phase := Probing True\<rparr>) True answer 2
    (go_check 0 g True 1 (fst (monitor_Start (Some False) m0))))"
proof -
  let ?m1 = "fst (monitor_Start (Some False) m0)"
  have m1: "monitor_of ?m1" unfolding m0_def
    by (rule monitor_of_Start [OF example_monitor]) (simp_all add: new_monitor_def)
  have g: "map_of (mon_goroutines ?m1) 0 = Some g"
    by (simp add: m0_def g_def monitor_Start_def new_monitor_def start_goroutines)
  have "map_of (mon_goroutines (go_check 0 g True 1 ?m1)) 0 = Some (g\<lparr>g_phase := Probing True\<rparr>)"
    by (simp add: go_check_def put_go_def tracker_defs m0_def monitor_Start_def new_monitor_def newStatusTracker_def)
  moreover have "monitor_of (go_check 0 g True 1 ?m1)"
    by (rule monitor_step [OF m1 step_check [OF g]]) (simp add: g_def)
  ultimately show ?thesis by (rule_tac monitor_step [OF _ step_record]) simp_all
qed

theorem disabled_breaker_reported_closed_witness:
  "let g = \<lparr>g_backend = example_backend ''a'' ''u'', g_isInitial = True, g_cancelled = False, g_phase = Checking True\<rparr>;
       m = go_record 0 (g\<lparr>g_phase := Probing True\<rparr>) True (None, 0) 2
         (go_check 0 g True 1 (fst (monitor_Start (Some False)
           (new_monitor (\<lambda>d t. (None, 0)) False [example_backend ''a'' ''u''] DefaultConfig))))
   in map db_CircuitBreakerState (stat_DiscoveredBackends (BuildStatus m m m 0)) = [''closed'']"
proof -
  let ?g = "\<lparr>g_backend = example_backend ''a'' ''u'', g_isInitial = True, g_cancelled = False, g_phase = Checking True\<rparr>"
  let ?m = "go_record 0 (?g\<lparr>g_phase := Probing True\<rparr>) True (None, 0) 2
         (go_check 0 ?g True 1 (fst (monitor_Start (Some False)
           (new_monitor (\<lambda>d t. (None, 0)) False [example_backend ''a'' ''u''] DefaultConfig))))"
  note eval = monitor_Start_def new_monitor_def newStatusTracker_def go_check_def go_record_def put_go_def
    tracker_defs isRemoved_def DefaultConfig_def record_result_def CheckHealth_def NewHealthChecker_def
  have "\<not> breaker_enabled (st_circuitBreakerConfig (mon_statusTracker ?m))" by (simp add: eval)
  moreover have "length (stat_DiscoveredBackends (BuildStatus ?m ?m ?m 0)) = 1"
    by (simp add: eval BuildStatus_def GetAllBackendStates_def tracker_GetAllStates_def convertToDiscoveredBackends_def)
  ultimately show ?thesis
    using disabled_breaker_reported_closed [OF checked_example [of "(None, 0)"], of _ ?m ?m 0]
    by (cases "stat_DiscoveredBackends (BuildStatus ?m ?m ?m 0)") (auto simp: Let_def)
qed

section \<open>Messages\<close>

text \<open>The two categorisations of an error are the same one in different words.\<close>

definition category_message :: "string \<Rightarrow> string" where
  "category_message c = (if c = ''authentication_failed'' then ''Authentication failed''
     else if c = ''timeout'' then ''Health check timed out'' else if c = ''cancelled'' then ''Health check cancelled''
     else if c = ''backend_unavailable'' then ''Backend unavailable''
     else if c = ''connection_failed'' then ''Connection failed'' else ''Health check failed'')"

lemma categorize_sanitize: "categorizeErrorForMessage (Some e) = category_message (sanitizeError (Some e))"
  by (simp add: categorizeErrorForMessage_def sanitizeError_def category_message_def)

text \<open>
  The message shown for a backend reveals nothing of the stored error beyond its sanitized
  category: two health states that agree on the category and on the other reported fields have the
  same message.
\<close>

theorem message_reveals_category_only:
  assumes "s_LastErrorCategory r = sanitizeError (s_LastError r)" and "s_LastErrorCategory r' = sanitizeError (s_LastError r')"
    and "s_LastErrorCategory r = s_LastErrorCategory r'" and "s_Status r = s_Status r'"
    and "s_ConsecutiveFailures r = s_ConsecutiveFailures r'" and "s_CircuitState r = s_CircuitState r'"
  shows "formatBackendMessage r = formatBackendMessage r'"
proof -
  have empty: "sanitizeError e = '''' \<longleftrightarrow> e = None" for e by (auto simp: sanitizeError_def split: option.splits)
  have none: "s_LastError r = None \<longleftrightarrow> s_LastError r' = None" using assms(1-3) empty by metis
  show ?thesis
  proof (cases "s_LastError r")
    case None
    with none have r': "s_LastError r' = None" by simp
    show ?thesis unfolding formatBackendMessage_def assms(4-6) None r' by (rule refl)
  next
    case (Some e)
    then obtain e' where r': "s_LastError r' = Some e'" using none by auto
    have cat: "categorizeErrorForMessage (Some e) = categorizeErrorForMessage (Some e')"
      using assms(1-3) Some r' by (simp add: categorize_sanitize)
    show ?thesis unfolding formatBackendMessage_def assms(4-6) Some r' cat by simp
  qed
qed

theorem message_reveals_category_only_witness:
  "let s = \<lparr>bhs_status = BackendUnhealthy, bhs_consecutiveFailures = 2, bhs_lastCheckTime = 0,
       bhs_lastError = Some (new_error ''pw''), bhs_lastTransitionTime = 0,
       bhs_circuitBreaker = AlwaysClosed, bhs_mcpRevision = ''''\<rparr>
   in formatBackendMessage (copyState s) = formatBackendMessage (copyState (s\<lparr>bhs_lastError := Some (new_error ''x'')\<rparr>))"
  unfolding Let_def
  by (rule message_reveals_category_only)
    (simp_all add: copyState_def sanitizeError_def new_error_def errors_Is_def IsAuthenticationError_def
      IsTimeoutError_def IsConnectionError_def networkPatterns_def httpErrorPatterns_def to_lower_def to_lower_char_def Let_def)

text \<open>
  A backend that has just recovered is reported as degraded performance: since a success
  clears the failure count together with the error, the message about recovering from failures is
  never shown.
\<close>

theorem recovering_message_unreachable:
  assumes "tracker_inv t" and "tracker_GetState t i = Some r" and "s_Status r = BackendDegraded"
    and "s_LastError r = None"
  shows "s_ConsecutiveFailures r = 0 \<and> formatBackendMessage r = ''Degraded performance''"
proof -
  obtain s where s: "tracker_view t i = Tracked s" "r = copyState s"
    using assms(1,2) by (auto simp: GetState_view split: backend_view.splits)
  then have "state_inv (st_circuitBreakerConfig t) s" "breaker_config_ok (st_circuitBreakerConfig t)"
    using assms(1) by (auto simp: tracker_inv_view dest: spec [of _ i])
  then have "s_ConsecutiveFailures r = 0 \<and> s_CircuitState r = CircuitClosed"
    using assms(4) by (auto simp: s copyState_def Let_def state_inv_def breaker_agrees_state breaker_config_ok_def)
  then show ?thesis using assms(3,4) by (simp add: formatBackendMessage_def)
qed

theorem recovering_message_unreachable_witness:
  "\<exists>r. tracker_GetState (tracker_RecordSuccess ''a'' ''A'' BackendHealthy 2
      (tracker_RecordFailure ''a'' ''A'' BackendUnhealthy (Some (new_error ''x'')) 1 (newStatusTracker 1 None))) ''a'' = Some r
    \<and> formatBackendMessage r = ''Degraded performance''"
proof -
  let ?t1 = "tracker_RecordFailure ''a'' ''A'' BackendUnhealthy (Some (new_error ''x'')) 1 (newStatusTracker 1 None)"
  let ?t = "tracker_RecordSuccess ''a'' ''A'' BackendHealthy 2 ?t1"
  have "tracker_inv ?t"
    using tracker_inv_step [of ?t1 "(OpSuccess ''a'' ''A'' BackendHealthy, 2)"]
      tracker_inv_step [of "newStatusTracker 1 None" "(OpFailure ''a'' ''A'' BackendUnhealthy (new_error ''x''), 1)"]
    by (simp add: breaker_config_ok_def)
  moreover have "\<exists>r. tracker_GetState ?t ''a'' = Some r \<and> s_Status r = BackendDegraded \<and> s_LastError r = None"
    by (simp add: tracker_GetState_def tracker_defs newStatusTracker_def isRemoved_def copyState_def)
  ultimately show ?thesis using recovering_message_unreachable [of ?t "''a''"] by blast
qed

end
