(* ===== verification/Aggregation_Types.thy ===== *)
theory Aggregation_Types
  imports Vmcp_Types
begin

text \<open>
  The data of the aggregator: the aggregation section of the configuration
  (\<open>pkg/vmcp/config/config.go\<close>) and the capability structures that pass between its stages
  (\<open>pkg/vmcp/aggregator/aggregator.go\<close>).
\<close>

section \<open>Configuration\<close>

record ConflictResolutionConfig =
  crc_PrefixFormat :: string
  crc_PriorityOrder :: "string list"

record ToolAnnotationsOverride =
  tao_Title :: "string option"
  tao_ReadOnlyHint :: "bool option"
  tao_DestructiveHint :: "bool option"
  tao_IdempotentHint :: "bool option"
  tao_OpenWorldHint :: "bool option"

record ToolOverride =
  tov_Name :: string
  tov_Description :: string
  tov_Annotations :: "ToolAnnotationsOverride option"

record WorkloadToolConfig =
  wtc_Workload :: string
  wtc_ToolConfigRef :: "string option"
  wtc_Filter :: "string list"
  wtc_Overrides :: "(string, ToolOverride option) gomap"
  wtc_ExcludeAll :: bool

text \<open>The visibility is a string type with two constants; the empty string is the unset value.\<close>

type_synonym DefaultToolVisibility = string

definition DefaultToolVisibilityAllow :: DefaultToolVisibility where
  "DefaultToolVisibilityAllow = ''allow''"

definition DefaultToolVisibilityDeny :: DefaultToolVisibility where
  "DefaultToolVisibilityDeny = ''deny''"

record AggregationConfig =
  ac_ConflictResolution :: ConflictResolutionStrategy
  ac_ConflictResolutionConfig :: "ConflictResolutionConfig option"
  ac_Tools :: "WorkloadToolConfig option list"
  ac_ExcludeAllTools :: bool
  ac_DefaultToolVisibility :: DefaultToolVisibility

section \<open>Capabilities between the stages\<close>

record BackendCapabilities =
  bc_BackendID :: string
  bc_Tools :: "Tool list"
  bc_Resources :: "Resource list"
  bc_ResourceTemplates :: "ResourceTemplate list"
  bc_Prompts :: "Prompt list"
  bc_SupportsLogging :: bool
  bc_SupportsSampling :: bool

text \<open>The zero value of a strategy, which the fallback without a resolver leaves in its tools.\<close>

definition NoStrategy :: ConflictResolutionStrategy where
  "NoStrategy = ConflictStrategyOther ''''"

record ResolvedTool =
  rtool_ResolvedName :: string
  rtool_OriginalName :: string
  rtool_Description :: string
  rtool_InputSchema :: "(string \<times> json) list"
  rtool_OutputSchema :: "(string \<times> json) list"
  rtool_Annotations :: "ToolAnnotations option"
  rtool_BackendID :: string
  rtool_ConflictResolutionApplied :: ConflictResolutionStrategy

record ResolvedPrompt =
  rp_Prompt :: Prompt
  rp_OriginalName :: string

record ResolvedCapabilities =
  rc_Tools :: "(string, ResolvedTool) gomap"
  rc_Resources :: "Resource list"
  rc_ResourceTemplates :: "ResourceTemplate list"
  rc_Prompts :: "ResolvedPrompt list"
  rc_SupportsLogging :: bool
  rc_SupportsSampling :: bool

record AggregationMetadata =
  am_BackendCount :: nat
  am_ToolCount :: nat
  am_ResourceCount :: nat
  am_ResourceTemplateCount :: nat
  am_PromptCount :: nat
  am_ConflictStrategy :: ConflictResolutionStrategy

record AggregatedCapabilities =
  agg_Tools :: "Tool list"
  agg_CompositeTools :: "Tool list"
  agg_Resources :: "Resource list"
  agg_ResourceTemplates :: "ResourceTemplate list"
  agg_Prompts :: "Prompt list"
  agg_SupportsLogging :: bool
  agg_SupportsSampling :: bool
  agg_RoutingTable :: RoutingTable
  agg_Metadata :: AggregationMetadata

section \<open>Annotation overrides\<close>

definition zero_ToolAnnotations :: ToolAnnotations where
  "zero_ToolAnnotations = \<lparr>ta_Title = '''', ta_ReadOnlyHint = None, ta_DestructiveHint = None,
     ta_IdempotentHint = None, ta_OpenWorldHint = None\<rparr>"

definition applyAnnotationOverrides :: "ToolAnnotations option \<Rightarrow> ToolAnnotationsOverride option
    \<Rightarrow> ToolAnnotations option" where
  "applyAnnotationOverrides base overrides = (case overrides of None \<Rightarrow> base | Some o' \<Rightarrow>
     let result = (case base of None \<Rightarrow> zero_ToolAnnotations | Some b \<Rightarrow> b);
         r1 = (case tao_Title o' of None \<Rightarrow> result | Some t \<Rightarrow> result\<lparr>ta_Title := t\<rparr>);
         r2 = (if tao_ReadOnlyHint o' \<noteq> None then r1\<lparr>ta_ReadOnlyHint := tao_ReadOnlyHint o'\<rparr> else r1);
         r3 = (if tao_DestructiveHint o' \<noteq> None then r2\<lparr>ta_DestructiveHint := tao_DestructiveHint o'\<rparr> else r2);
         r4 = (if tao_IdempotentHint o' \<noteq> None then r3\<lparr>ta_IdempotentHint := tao_IdempotentHint o'\<rparr> else r3);
         r5 = (if tao_OpenWorldHint o' \<noteq> None then r4\<lparr>ta_OpenWorldHint := tao_OpenWorldHint o'\<rparr> else r4)
     in Some r5)"

end
