(* ===== verification/Conflict_Resolution.thy ===== *)
theory Conflict_Resolution
  imports Aggregation_Types
begin

text \<open>
  Tool name conflict resolution (\<open>conflict_resolver.go\<close>, \<open>prefix_resolver.go\<close>,
  \<open>priority_resolver.go\<close> and \<open>manual_resolver.go\<close> of \<open>pkg/vmcp/aggregator\<close>). The tools of the
  backends come as a Go map, whose association list is one order in which \<open>range\<close> may visit it. The
  locale \<open>conflict_resolver\<close> is the interface \<open>ConflictResolver\<close>, with what the merge stage relies
  on; it is interpreted for the three strategies and for the interface value.
\<close>

section \<open>Naming\<close>

definition defaultPrefixFormat :: string where
  "defaultPrefixFormat = ''{workload}_''"

definition applyPrefixFormat :: "string \<Rightarrow> string \<Rightarrow> string \<Rightarrow> string" where
  "applyPrefixFormat prefixFormat backendID name = replace_all prefixFormat ''{workload}'' backendID @ name"

text \<open>A nil \<open>priorityRank\<close> map behaves as an empty one: every lookup in it fails.\<close>

record promptNaming =
  pn_prefixFormat :: string
  pn_priorityRank :: "(string, int) gomap"

fun rank_first :: "string list \<Rightarrow> int \<Rightarrow> (string, int) gomap \<Rightarrow> (string, int) gomap" where
  "rank_first [] rank m = m"
| "rank_first (backendID # rest) rank m = rank_first rest (rank + 1)
     (if map_of m backendID = None then AList.update backendID rank m else m)"

definition promptNamingFromConfig :: "AggregationConfig option \<Rightarrow> promptNaming" where
  "promptNamingFromConfig aggregationConfig =
     (let naming = \<lparr>pn_prefixFormat = defaultPrefixFormat, pn_priorityRank = []\<rparr> in
      case aggregationConfig of None \<Rightarrow> naming
      | Some cfg \<Rightarrow> (case ac_ConflictResolutionConfig cfg of None \<Rightarrow> naming
        | Some crc \<Rightarrow>
            let naming1 = (if crc_PrefixFormat crc \<noteq> '''' then naming\<lparr>pn_prefixFormat := crc_PrefixFormat crc\<rparr> else naming)
            in if ac_ConflictResolution cfg = ConflictStrategyPriority \<and> length (crc_PriorityOrder crc) > 0
               then naming1\<lparr>pn_priorityRank := rank_first (crc_PriorityOrder crc) 0 []\<rparr> else naming1))"

section \<open>Grouping\<close>

record toolWithBackend =
  twb_Tool :: Tool
  twb_BackendID :: string

definition add_candidate :: "string \<Rightarrow> Tool \<Rightarrow> (string, toolWithBackend list) gomap
    \<Rightarrow> (string, toolWithBackend list) gomap" where
  "add_candidate backendID tool m = AList.update (tool_Name tool)
     ((case map_of m (tool_Name tool) of None \<Rightarrow> [] | Some cs \<Rightarrow> cs) @
      [\<lparr>twb_Tool = tool, twb_BackendID = backendID\<rparr>]) m"

definition groupToolsByName :: "(string, Tool list) gomap \<Rightarrow> (string, toolWithBackend list) gomap" where
  "groupToolsByName toolsByBackend =
     fold (\<lambda>(backendID, tools). fold (add_candidate backendID) tools) toolsByBackend []"

definition resolved_as :: "string \<Rightarrow> Tool \<Rightarrow> string \<Rightarrow> ConflictResolutionStrategy \<Rightarrow> ResolvedTool" where
  "resolved_as resolvedName tool backendID strategy =
     \<lparr>rtool_ResolvedName = resolvedName, rtool_OriginalName = tool_Name tool,
      rtool_Description = tool_Description tool, rtool_InputSchema = tool_InputSchema tool,
      rtool_OutputSchema = tool_OutputSchema tool, rtool_Annotations = tool_Annotations tool,
      rtool_BackendID = backendID, rtool_ConflictResolutionApplied = strategy\<rparr>"

section \<open>Prefix strategy\<close>

record PrefixConflictResolver =
  pcr_PrefixFormat :: string

definition NewPrefixConflictResolver :: "string \<Rightarrow> PrefixConflictResolver" where
  "NewPrefixConflictResolver prefixFormat =
     \<lparr>pcr_PrefixFormat = (if prefixFormat = '''' then defaultPrefixFormat else prefixFormat)\<rparr>"

definition applyPrefix :: "PrefixConflictResolver \<Rightarrow> string \<Rightarrow> string \<Rightarrow> string" where
  "applyPrefix r backendID toolName = applyPrefixFormat (pcr_PrefixFormat r) backendID toolName"

definition prefix_add :: "PrefixConflictResolver \<Rightarrow> string \<Rightarrow> Tool \<Rightarrow> (string, ResolvedTool) gomap
    \<Rightarrow> (string, ResolvedTool) gomap" where
  "prefix_add r backendID tool resolved =
     (let resolvedName = applyPrefix r backendID (tool_Name tool) in
      case map_of resolved resolvedName of Some existing \<Rightarrow> resolved
      | None \<Rightarrow> AList.update resolvedName (resolved_as resolvedName tool backendID ConflictStrategyPrefix) resolved)"

definition prefix_ResolveToolConflicts :: "PrefixConflictResolver \<Rightarrow> (string, Tool list) gomap
    \<Rightarrow> goerror + (string, ResolvedTool) gomap" where
  "prefix_ResolveToolConflicts r toolsByBackend =
     Inr (fold (\<lambda>(backendID, tools). fold (prefix_add r backendID) tools) toolsByBackend [])"

section \<open>Priority strategy\<close>

record PriorityConflictResolver =
  prr_PriorityOrder :: "string list"
  prr_priorityMap :: "(string, int) gomap"
  prr_prefixResolver :: PrefixConflictResolver

fun build_priorityMap :: "string list \<Rightarrow> int \<Rightarrow> (string, int) gomap \<Rightarrow> goerror + (string, int) gomap" where
  "build_priorityMap [] i m = Inr m"
| "build_priorityMap (backendID # rest) i m = (if backendID = ''''
     then Inl (new_error (''priority order contains empty backend ID at index '' @ show_int i))
     else build_priorityMap rest (i + 1) (AList.update backendID i m))"

definition NewPriorityConflictResolver :: "string list \<Rightarrow> goerror + PriorityConflictResolver" where
  "NewPriorityConflictResolver priorityOrder =
     (if length priorityOrder = 0 then Inl (new_error ''priority order cannot be empty'')
      else case build_priorityMap priorityOrder 0 [] of Inl err \<Rightarrow> Inl err
        | Inr priorityMap \<Rightarrow> Inr \<lparr>prr_PriorityOrder = priorityOrder, prr_priorityMap = priorityMap,
            prr_prefixResolver = NewPrefixConflictResolver defaultPrefixFormat\<rparr>)"

fun select_loop :: "(string, int) gomap \<Rightarrow> toolWithBackend list \<Rightarrow> toolWithBackend option \<Rightarrow> int
    \<Rightarrow> toolWithBackend option" where
  "select_loop priorityMap [] winner winnerPriority = winner"
| "select_loop priorityMap (candidate # rest) winner winnerPriority =
     (case map_of priorityMap (twb_BackendID candidate) of
        None \<Rightarrow> select_loop priorityMap rest winner winnerPriority
      | Some priority \<Rightarrow>
          if winnerPriority = -1 \<or> priority < winnerPriority
          then select_loop priorityMap rest (Some candidate) priority
          else select_loop priorityMap rest winner winnerPriority)"

definition selectWinner :: "PriorityConflictResolver \<Rightarrow> toolWithBackend list \<Rightarrow> toolWithBackend option" where
  "selectWinner r candidates = select_loop (prr_priorityMap r) candidates None (-1)"

definition priority_resolve_name :: "PriorityConflictResolver \<Rightarrow> string \<Rightarrow> toolWithBackend list
    \<Rightarrow> (string, ResolvedTool) gomap \<Rightarrow> (string, ResolvedTool) gomap" where
  "priority_resolve_name r toolName candidates resolved =
     (if length candidates = 1
      then let candidate = hd candidates in
           AList.update toolName
             ((resolved_as toolName (twb_Tool candidate) (twb_BackendID candidate) ConflictStrategyPriority)
                \<lparr>rtool_OriginalName := toolName\<rparr>) resolved
      else case selectWinner r candidates of
        None \<Rightarrow> fold (\<lambda>candidate resolved.
            let prefixedName = applyPrefix (prr_prefixResolver r) (twb_BackendID candidate) toolName in
            AList.update prefixedName
              ((resolved_as prefixedName (twb_Tool candidate) (twb_BackendID candidate) ConflictStrategyPrefix)
                 \<lparr>rtool_OriginalName := toolName\<rparr>) resolved) candidates resolved
      | Some winner \<Rightarrow> AList.update toolName
          ((resolved_as toolName (twb_Tool winner) (twb_BackendID winner) ConflictStrategyPriority)
             \<lparr>rtool_OriginalName := toolName\<rparr>) resolved)"

text \<open>
  The second pass visits the groups in the order of one traversal of their map.
\<close>

definition priority_resolve_groups :: "PriorityConflictResolver \<Rightarrow> (string, toolWithBackend list) gomap
    \<Rightarrow> (string, ResolvedTool) gomap" where
  "priority_resolve_groups r toolsByName =
     fold (\<lambda>(toolName, candidates). priority_resolve_name r toolName candidates) toolsByName []"

definition priority_ResolveToolConflicts :: "PriorityConflictResolver \<Rightarrow> (string, Tool list) gomap
    \<Rightarrow> goerror + (string, ResolvedTool) gomap" where
  "priority_ResolveToolConflicts r toolsByBackend = Inr (priority_resolve_groups r (groupToolsByName toolsByBackend))"

section \<open>Manual strategy\<close>

record ManualConflictResolver =
  mcr_Overrides :: "(string, ToolOverride) gomap"

definition override_key :: "string \<Rightarrow> string \<Rightarrow> string" where
  "override_key workload toolName = workload @ '':'' @ toolName"

text \<open>
  An entry of \<open>Tools\<close> that is nil is dereferenced, so the constructor panics on it; a nil override is
  skipped.
\<close>

definition nil_dereference :: goerror where
  "nil_dereference = new_error ''runtime error: invalid memory address or nil pointer dereference''"

definition add_overrides :: "WorkloadToolConfig \<Rightarrow> (string, ToolOverride) gomap \<Rightarrow> (string, ToolOverride) gomap" where
  "add_overrides wlConfig overrides = fold (\<lambda>(toolName, override) m. case override of None \<Rightarrow> m
     | Some ov \<Rightarrow> AList.update (override_key (wtc_Workload wlConfig) toolName) ov m) (wtc_Overrides wlConfig) overrides"

fun build_overrides :: "WorkloadToolConfig option list \<Rightarrow> (string, ToolOverride) gomap
    \<Rightarrow> goerror + (string, ToolOverride) gomap" where
  "build_overrides [] overrides = Inr overrides"
| "build_overrides (None # rest) overrides = Inl nil_dereference"
| "build_overrides (Some wlConfig # rest) overrides = build_overrides rest (add_overrides wlConfig overrides)"

definition NewManualConflictResolver :: "WorkloadToolConfig option list \<Rightarrow> goerror + ManualConflictResolver" where
  "NewManualConflictResolver workloadConfigs = (case build_overrides workloadConfigs [] of Inl err \<Rightarrow> Inl err
     | Inr overrides \<Rightarrow> Inr \<lparr>mcr_Overrides = overrides\<rparr>)"

definition allCandidatesHaveOverrides :: "ManualConflictResolver \<Rightarrow> string \<Rightarrow> toolWithBackend list \<Rightarrow> bool" where
  "allCandidatesHaveOverrides r toolName candidates =
     list_all (\<lambda>c. map_of (mcr_Overrides r) (override_key (twb_BackendID c) toolName) \<noteq> None) candidates"

definition findUnresolvedConflicts :: "ManualConflictResolver \<Rightarrow> (string, toolWithBackend list) gomap
    \<Rightarrow> (string, string list) gomap" where
  "findUnresolvedConflicts r toolsByName = map (\<lambda>(toolName, candidates). (toolName, map twb_BackendID candidates))
     (filter (\<lambda>(toolName, candidates). length candidates > 1 \<and> \<not> allCandidatesHaveOverrides r toolName candidates)
       toolsByName)"

definition resolveToolWithOverride :: "ManualConflictResolver \<Rightarrow> string \<Rightarrow> Tool \<Rightarrow> ResolvedTool" where
  "resolveToolWithOverride r backendID tool =
     (let base = resolved_as (tool_Name tool) tool backendID ConflictStrategyManual in
      case map_of (mcr_Overrides r) (override_key backendID (tool_Name tool)) of
        None \<Rightarrow> base
      | Some override \<Rightarrow>
          base\<lparr>rtool_ResolvedName := (if tov_Name override \<noteq> '''' then tov_Name override else tool_Name tool),
               rtool_Description := (if tov_Description override \<noteq> '''' then tov_Description override
                 else tool_Description tool),
               rtool_Annotations := applyAnnotationOverrides (tool_Annotations tool) (tov_Annotations override)\<rparr>)"

fun join :: "string \<Rightarrow> string list \<Rightarrow> string" where
  "join sep [] = ''''"
| "join sep [x] = x"
| "join sep (x # xs) = x @ sep @ join sep xs"

definition formatConflictError :: "(string, string list) gomap \<Rightarrow> goerror" where
  "formatConflictError conflicts =
     \<lparr>err_chain = [ErrUnresolvedConflicts],
      err_text = ''unresolved capability name conflicts: unresolved tool name conflicts detected:'' @ [CHR 0x0A]
        @ concat (map (\<lambda>(toolName, backendIDs). ''  - '' @ toolName @ '': ['' @ join '', '' backendIDs @ '']'' @ [CHR 0x0A])
            conflicts)
        @ [CHR 0x0A] @ ''Use 'overrides' in aggregation config to resolve these conflicts when using conflict_resolution: manual''\<rparr>"

fun manual_add :: "ManualConflictResolver \<Rightarrow> string \<Rightarrow> Tool list \<Rightarrow> (string, ResolvedTool) gomap
    \<Rightarrow> goerror + (string, ResolvedTool) gomap" where
  "manual_add r backendID [] resolved = Inr resolved"
| "manual_add r backendID (tool # tools) resolved =
     (let resolvedTool = resolveToolWithOverride r backendID tool in
      case map_of resolved (rtool_ResolvedName resolvedTool) of
        Some existing \<Rightarrow> Inl (new_error (''collision after override: tool '' @ rtool_ResolvedName resolvedTool
          @ '' from backend '' @ backendID @ '' conflicts with tool from backend '' @ rtool_BackendID existing))
      | None \<Rightarrow> manual_add r backendID tools
          (AList.update (rtool_ResolvedName resolvedTool) resolvedTool resolved))"

fun applyOverridesAndResolve :: "ManualConflictResolver \<Rightarrow> (string, Tool list) gomap
    \<Rightarrow> (string, ResolvedTool) gomap \<Rightarrow> goerror + (string, ResolvedTool) gomap" where
  "applyOverridesAndResolve r [] resolved = Inr resolved"
| "applyOverridesAndResolve r ((backendID, tools) # rest) resolved =
     (case manual_add r backendID tools resolved of Inl err \<Rightarrow> Inl err
      | Inr resolved' \<Rightarrow> applyOverridesAndResolve r rest resolved')"

definition manual_ResolveToolConflicts :: "ManualConflictResolver \<Rightarrow> (string, Tool list) gomap
    \<Rightarrow> goerror + (string, ResolvedTool) gomap" where
  "manual_ResolveToolConflicts r toolsByBackend =
     (let unresolvedConflicts = findUnresolvedConflicts r (groupToolsByName toolsByBackend) in
      if length unresolvedConflicts > 0 then Inl (formatConflictError unresolvedConflicts)
      else applyOverridesAndResolve r toolsByBackend [])"

section \<open>The interface\<close>

datatype ConflictResolver = PrefixResolver PrefixConflictResolver | PriorityResolver PriorityConflictResolver
  | ManualResolver ManualConflictResolver

fun ResolveToolConflicts :: "ConflictResolver \<Rightarrow> (string, Tool list) gomap \<Rightarrow> goerror + (string, ResolvedTool) gomap" where
  "ResolveToolConflicts (PrefixResolver r) toolsByBackend = prefix_ResolveToolConflicts r toolsByBackend"
| "ResolveToolConflicts (PriorityResolver r) toolsByBackend = priority_ResolveToolConflicts r toolsByBackend"
| "ResolveToolConflicts (ManualResolver r) toolsByBackend = manual_ResolveToolConflicts r toolsByBackend"

fun strategy_string :: "ConflictResolutionStrategy \<Rightarrow> string" where
  "strategy_string ConflictStrategyPrefix = ''prefix''"
| "strategy_string ConflictStrategyPriority = ''priority''"
| "strategy_string ConflictStrategyManual = ''manual''"
| "strategy_string (ConflictStrategyOther s) = s"

definition NewConflictResolver :: "AggregationConfig option \<Rightarrow> goerror + ConflictResolver" where
  "NewConflictResolver aggregationConfig = (case aggregationConfig of
     None \<Rightarrow> Inr (PrefixResolver (NewPrefixConflictResolver defaultPrefixFormat))
   | Some cfg \<Rightarrow> (case ac_ConflictResolution cfg of
       ConflictStrategyPrefix \<Rightarrow>
         let prefixFormat = (case ac_ConflictResolutionConfig cfg of None \<Rightarrow> defaultPrefixFormat
               | Some crc \<Rightarrow> if crc_PrefixFormat crc \<noteq> '''' then crc_PrefixFormat crc else defaultPrefixFormat)
         in Inr (PrefixResolver (NewPrefixConflictResolver prefixFormat))
     | ConflictStrategyPriority \<Rightarrow>
         let order = (case ac_ConflictResolutionConfig cfg of None \<Rightarrow> [] | Some crc \<Rightarrow> crc_PriorityOrder crc) in
         if length order = 0
         then Inl (new_error ''priority strategy requires priority_order in conflict_resolution_config'')
         else (case NewPriorityConflictResolver order of Inl err \<Rightarrow> Inl err | Inr r \<Rightarrow> Inr (PriorityResolver r))
     | ConflictStrategyManual \<Rightarrow>
         (case NewManualConflictResolver (ac_Tools cfg) of Inl err \<Rightarrow> Inl err | Inr r \<Rightarrow> Inr (ManualResolver r))
     | ConflictStrategyOther s \<Rightarrow>
         Inl \<lparr>err_chain = [ErrInvalidConflictStrategy],
              err_text = ''invalid conflict resolution strategy: '' @ strategy_string (ConflictStrategyOther s)\<rparr>))"

section \<open>Groups\<close>

definition offers :: "(string, Tool list) gomap \<Rightarrow> string \<Rightarrow> Tool \<Rightarrow> bool" where
  "offers toolsByBackend backendID tool \<longleftrightarrow> (\<exists>tools. (backendID, tools) \<in> set toolsByBackend \<and> tool \<in> set tools)"

definition candidates_of :: "(string, Tool list) gomap \<Rightarrow> string \<Rightarrow> toolWithBackend list" where
  "candidates_of toolsByBackend n = concat (map (\<lambda>(backendID, tools).
     map (\<lambda>t. \<lparr>twb_Tool = t, twb_BackendID = backendID\<rparr>) (filter (\<lambda>t. tool_Name t = n) tools)) toolsByBackend)"

lemma candidates_of_iff:
  "c \<in> set (candidates_of tb n) \<longleftrightarrow> offers tb (twb_BackendID c) (twb_Tool c) \<and> tool_Name (twb_Tool c) = n"
  by (cases c) (auto simp: candidates_of_def offers_def)

lemma candidate_backend:
  "b \<in> twb_BackendID ` set (candidates_of tb n) \<longleftrightarrow> (\<exists>tool. offers tb b tool \<and> tool_Name tool = n)"
proof
  assume "\<exists>tool. offers tb b tool \<and> tool_Name tool = n"
  then obtain tool where "offers tb b tool" "tool_Name tool = n" by blast
  then have "\<lparr>twb_Tool = tool, twb_BackendID = b\<rparr> \<in> set (candidates_of tb n)" by (simp add: candidates_of_iff)
  then show "b \<in> twb_BackendID ` set (candidates_of tb n)" by (rule rev_image_eqI) simp
qed (auto simp: candidates_of_iff)

definition group_of :: "(string, toolWithBackend list) gomap \<Rightarrow> string \<Rightarrow> toolWithBackend list" where
  "group_of m n = (case map_of m n of None \<Rightarrow> [] | Some cs \<Rightarrow> cs)"

lemma group_add:
  "group_of (add_candidate b t m) n = group_of m n @ (if tool_Name t = n then [\<lparr>twb_Tool = t, twb_BackendID = b\<rparr>] else [])"
  by (auto simp: group_of_def add_candidate_def)

lemma group_add_tools:
  "group_of (fold (add_candidate b) ts m) n =
     group_of m n @ map (\<lambda>t. \<lparr>twb_Tool = t, twb_BackendID = b\<rparr>) (filter (\<lambda>t. tool_Name t = n) ts)"
  by (induction ts arbitrary: m) (simp_all add: group_add)

lemma group_of_groups: "group_of (groupToolsByName tb) n = candidates_of tb n"
proof -
  have "group_of (fold (\<lambda>(b, ts). fold (add_candidate b) ts) tb m) n = group_of m n @ candidates_of tb n" for m
    by (induction tb arbitrary: m) (auto simp: group_add_tools candidates_of_def)
  then show ?thesis by (simp add: groupToolsByName_def group_of_def)
qed

definition groups_ok :: "(string, toolWithBackend list) gomap \<Rightarrow> bool" where
  "groups_ok m \<longleftrightarrow> gomap_ok m \<and> (\<forall>n cs. map_of m n = Some cs \<longrightarrow> cs \<noteq> [])"

lemma groups_ok_add: "groups_ok m \<Longrightarrow> groups_ok (add_candidate b t m)"
  by (auto simp: groups_ok_def add_candidate_def split: option.splits)

lemma groups_ok_groups: "groups_ok (groupToolsByName tb)"
proof -
  have "groups_ok m \<Longrightarrow> groups_ok (fold (add_candidate b) ts m)" for b ts m
    by (induction ts arbitrary: m) (simp_all add: groups_ok_add)
  then have "groups_ok m \<Longrightarrow> groups_ok (fold (\<lambda>(b, ts). fold (add_candidate b) ts) tb m)" for m
    by (induction tb arbitrary: m) auto
  moreover have "groups_ok []" by (simp add: groups_ok_def)
  ultimately show ?thesis by (simp add: groupToolsByName_def)
qed

text \<open>The groups are the names some backend offers, each with its candidates in order.\<close>

lemma map_of_groups:
  "map_of (groupToolsByName tb) n = (if candidates_of tb n = [] then None else Some (candidates_of tb n))"
  using group_of_groups [of tb n] groups_ok_groups [of tb]
  by (cases "map_of (groupToolsByName tb) n") (auto simp: group_of_def groups_ok_def)

section \<open>What every strategy guarantees\<close>

definition from_tool :: "(string, Tool list) gomap \<Rightarrow> ResolvedTool \<Rightarrow> bool" where
  "from_tool tb t \<longleftrightarrow> (\<exists>tool. offers tb (rtool_BackendID t) tool \<and> rtool_OriginalName t = tool_Name tool \<and>
     rtool_InputSchema t = tool_InputSchema tool \<and> rtool_OutputSchema t = tool_OutputSchema tool)"

definition resolved_ok :: "(string, Tool list) gomap \<Rightarrow> (string, ResolvedTool) gomap \<Rightarrow> bool" where
  "resolved_ok tb m \<longleftrightarrow> gomap_ok m \<and>
     (\<forall>n t. map_of m n = Some t \<longrightarrow> rtool_ResolvedName t = n \<and> from_tool tb t)"

lemma resolved_ok_Nil [simp]: "resolved_ok tb []"
  by (simp add: resolved_ok_def)

lemma resolved_ok_update [simp]:
  "resolved_ok tb m \<Longrightarrow> rtool_ResolvedName t = n \<Longrightarrow> from_tool tb t \<Longrightarrow> resolved_ok tb (AList.update n t m)"
  by (auto simp: resolved_ok_def)

lemma from_tool_resolved [simp]:
  "offers tb b tool \<Longrightarrow> from_tool tb (resolved_as n tool b s)"
  "offers tb b tool \<Longrightarrow> tool_Name tool = k \<Longrightarrow> from_tool tb ((resolved_as n tool b s)\<lparr>rtool_OriginalName := k\<rparr>)"
  by (auto simp: from_tool_def resolved_as_def)

lemma resolved_as_name [simp]:
  "rtool_ResolvedName (resolved_as n tool b s) = n" "rtool_BackendID (resolved_as n tool b s) = b"
  "rtool_OriginalName (resolved_as n tool b s) = tool_Name tool"
  by (simp_all add: resolved_as_def)

locale conflict_resolver =
  fixes resolve :: "'r \<Rightarrow> (string, Tool list) gomap \<Rightarrow> goerror + (string, ResolvedTool) gomap"
  assumes resolve_ok: "resolve r tb = Inr m \<Longrightarrow> resolved_ok tb m"
begin

lemma resolved_name: "resolve r tb = Inr m \<Longrightarrow> map_of m n = Some t \<Longrightarrow> rtool_ResolvedName t = n"
  using resolve_ok by (auto simp: resolved_ok_def)

lemma resolved_from: "resolve r tb = Inr m \<Longrightarrow> map_of m n = Some t \<Longrightarrow>
    \<exists>tool. offers tb (rtool_BackendID t) tool \<and> rtool_OriginalName t = tool_Name tool"
  using resolve_ok by (fastforce simp: resolved_ok_def from_tool_def)

lemma resolved_distinct:
  assumes "resolve r tb = Inr m"
  shows "distinct (map (\<lambda>(n, t). rtool_ResolvedName t) m)"
proof -
  have ok: "resolved_ok tb m" by (rule resolve_ok [OF assms])
  then have keys: "map (\<lambda>(n, t). rtool_ResolvedName t) m = map fst m"
    by (auto simp: resolved_ok_def gomap_ok_lookup)
  show ?thesis unfolding keys using ok by (simp add: resolved_ok_def gomap_ok_def)
qed

end

lemma prefix_resolved_ok:
  assumes "prefix_ResolveToolConflicts r tb = Inr m"
  shows "resolved_ok tb m"
proof -
  have add: "resolved_ok tb m \<Longrightarrow> offers tb b t \<Longrightarrow> resolved_ok tb (prefix_add r b t m)" for b t m
    by (simp add: prefix_add_def Let_def split: option.split)
  have tools: "resolved_ok tb (fold (prefix_add r b) ts m)" if "resolved_ok tb m" "\<forall>t \<in> set ts. offers tb b t" for b ts m
    using that by (induction ts arbitrary: m) (simp_all add: add)
  have "resolved_ok tb (fold (\<lambda>(b, ts). fold (prefix_add r b) ts) xs m)" if "resolved_ok tb m" "set xs \<subseteq> set tb" for xs m
    using that
  proof (induction xs arbitrary: m)
    case (Cons x xs)
    obtain b ts where x: "x = (b, ts)" by fastforce
    have "\<forall>t \<in> set ts. offers tb b t" using Cons.prems x by (auto simp: offers_def)
    then show ?case using Cons x tools by simp
  qed simp
  then show ?thesis using assms by (auto simp: prefix_ResolveToolConflicts_def)
qed

lemma select_loop_in: "select_loop pm cs w k = Some c \<Longrightarrow> w = Some c \<or> c \<in> set cs"
  by (induction pm cs w k rule: select_loop.induct) (auto split: option.splits if_splits)

lemma priority_name_ok:
  assumes ok: "resolved_ok tb m" and cs: "cs \<noteq> []" "\<forall>c \<in> set cs. offers tb (twb_BackendID c) (twb_Tool c) \<and> tool_Name (twb_Tool c) = n"
  shows "resolved_ok tb (priority_resolve_name r n cs m)"
proof -
  have step: "resolved_ok tb (AList.update (f c) ((resolved_as (f c) (twb_Tool c) (twb_BackendID c) s)
      \<lparr>rtool_OriginalName := n\<rparr>) m)" if "resolved_ok tb m" "c \<in> set cs" for c m f s
    using that cs by (intro resolved_ok_update) auto
  have fallback: "resolved_ok tb (fold (\<lambda>c m. AList.update (f c) ((resolved_as (f c) (twb_Tool c) (twb_BackendID c) s)
      \<lparr>rtool_OriginalName := n\<rparr>) m) ds m)" if "resolved_ok tb m" "set ds \<subseteq> set cs" for ds m f s
    using that by (induction ds arbitrary: m) (simp_all add: step)
  have "c \<in> set cs" if "selectWinner r cs = Some c" for c
    using that select_loop_in by (fastforce simp: selectWinner_def)
  then show ?thesis
    using step [OF ok, of _ "\<lambda>_. n"] cs fallback [OF ok subset_refl] hd_in_set [OF cs(1)]
    by (simp add: priority_resolve_name_def Let_def split: option.split)
qed

lemma priority_resolved_ok:
  assumes "set groups \<subseteq> set (groupToolsByName tb)"
  shows "resolved_ok tb (priority_resolve_groups r groups)"
proof -
  have group: "cs \<noteq> [] \<and> (\<forall>c \<in> set cs. offers tb (twb_BackendID c) (twb_Tool c) \<and> tool_Name (twb_Tool c) = n)"
    if "(n, cs) \<in> set (groupToolsByName tb)" for n cs
    using that groups_ok_groups [of tb] map_of_groups [of tb n] candidates_of_iff [of _ tb n]
    by (auto simp: groups_ok_def gomap_ok_lookup split: if_splits)
  have "resolved_ok tb (fold (\<lambda>(n, cs). priority_resolve_name r n cs) xs m)"
    if "resolved_ok tb m" "set xs \<subseteq> set (groupToolsByName tb)" for xs m
    using that by (induction xs arbitrary: m) (auto intro!: priority_name_ok dest!: group)
  then show ?thesis using assms by (simp add: priority_resolve_groups_def)
qed

lemma manual_from_tool: "offers tb b tool \<Longrightarrow> from_tool tb (resolveToolWithOverride r b tool)"
  by (auto simp: resolveToolWithOverride_def resolved_as_def from_tool_def Let_def split: option.splits)

lemma manual_add_ok:
  "manual_add r b ts m = Inr m' \<Longrightarrow> resolved_ok tb m \<Longrightarrow> \<forall>t \<in> set ts. offers tb b t \<Longrightarrow> resolved_ok tb m'"
  by (induction r b ts m rule: manual_add.induct) (auto simp: Let_def manual_from_tool split: option.splits)

lemma manual_resolved_ok:
  assumes "manual_ResolveToolConflicts r tb = Inr m"
  shows "resolved_ok tb m"
proof -
  have "resolved_ok tb m'" if "applyOverridesAndResolve r xs m = Inr m'" "resolved_ok tb m" "set xs \<subseteq> set tb" for xs m m'
    using that
  proof (induction r xs m rule: applyOverridesAndResolve.induct)
    case (2 r b ts rest m)
    then obtain m1 where m1: "manual_add r b ts m = Inr m1" by (auto split: sum.splits)
    have "\<forall>t \<in> set ts. offers tb b t" using 2 by (auto simp: offers_def)
    from manual_add_ok [OF m1 _ this] show ?case using 2 m1 by simp
  qed simp
  then show ?thesis using assms by (auto simp: manual_ResolveToolConflicts_def Let_def split: if_splits)
qed

interpretation prefix_cr: conflict_resolver prefix_ResolveToolConflicts
  by unfold_locales (rule prefix_resolved_ok)

interpretation priority_cr: conflict_resolver priority_ResolveToolConflicts
  by unfold_locales (auto simp: priority_ResolveToolConflicts_def intro: priority_resolved_ok)

interpretation manual_cr: conflict_resolver manual_ResolveToolConflicts
  by unfold_locales (rule manual_resolved_ok)

interpretation any_cr: conflict_resolver ResolveToolConflicts
proof unfold_locales
  show "ResolveToolConflicts r tb = Inr m \<Longrightarrow> resolved_ok tb m" for r tb m
    using prefix_cr.resolve_ok priority_cr.resolve_ok manual_cr.resolve_ok by (cases r) auto
qed

section \<open>The manual strategy\<close>

definition all_overridden :: "ManualConflictResolver \<Rightarrow> (string, Tool list) gomap \<Rightarrow> ResolvedTool list" where
  "all_overridden r tb = concat (map (\<lambda>(b, ts). map (resolveToolWithOverride r b) ts) tb)"

abbreviation keyed :: "ResolvedTool list \<Rightarrow> (string, ResolvedTool) gomap" where
  "keyed ts \<equiv> map (\<lambda>t. (rtool_ResolvedName t, t)) ts"

lemma keyed_None: "map_of (keyed ts) n = None \<longleftrightarrow> n \<notin> set (map rtool_ResolvedName ts)"
  by (force simp: map_of_eq_None_iff)

lemma manual_add_iff:
  "distinct (map rtool_ResolvedName done) \<Longrightarrow>
   manual_add r b ts (keyed done) = Inr m \<longleftrightarrow>
     distinct (map rtool_ResolvedName (done @ map (resolveToolWithOverride r b) ts)) \<and>
     m = keyed (done @ map (resolveToolWithOverride r b) ts)"
proof (induction ts arbitrary: "done")
  case (Cons t ts)
  let ?t = "resolveToolWithOverride r b t"
  show ?case
  proof (cases "rtool_ResolvedName ?t \<in> set (map rtool_ResolvedName done)")
    case True
    then have "map_of (keyed done) (rtool_ResolvedName ?t) \<noteq> None" using keyed_None by blast
    then show ?thesis using True by (auto simp: Let_def)
  next
    case False
    then have "manual_add r b (t # ts) (keyed done) = manual_add r b ts (keyed (done @ [?t]))"
      using keyed_None [of "done" "rtool_ResolvedName ?t"] by (simp add: Let_def image_image update_new)
    then show ?thesis using Cons.IH [of "done @ [?t]"] Cons.prems False by auto
  qed
qed auto

lemma applyOverridesAndResolve_iff:
  "distinct (map rtool_ResolvedName done) \<Longrightarrow>
   applyOverridesAndResolve r tb (keyed done) = Inr m \<longleftrightarrow>
     distinct (map rtool_ResolvedName (done @ all_overridden r tb)) \<and> m = keyed (done @ all_overridden r tb)"
proof (induction tb arbitrary: "done")
  case (Cons x tb)
  obtain b ts where x: "x = (b, ts)" by fastforce
  let ?ts = "map (resolveToolWithOverride r b) ts"
  have all: "all_overridden r (x # tb) = ?ts @ all_overridden r tb" by (simp add: all_overridden_def x)
  show ?case
  proof (cases "manual_add r b ts (keyed done)")
    case (Inl e)
    then have "\<not> distinct (map rtool_ResolvedName (done @ ?ts))"
      using manual_add_iff [OF Cons.prems, of r b ts "keyed (done @ ?ts)"] by auto
    then show ?thesis using Inl x all by auto
  next
    case (Inr m')
    then have "distinct (map rtool_ResolvedName (done @ ?ts))" "m' = keyed (done @ ?ts)"
      using manual_add_iff [OF Cons.prems] by auto
    then show ?thesis using Cons.IH [of "done @ ?ts"] Inr x all by simp
  qed
qed (auto simp: all_overridden_def)

text \<open>
  Claim C33: the manual strategy loses nothing. It succeeds exactly when every name that several tools
  share has an override for each of them and the names after overrides are pairwise different; the
  result then holds every tool of every backend, each under its own name after override.
\<close>

theorem manual_resolution_complete:
  "manual_ResolveToolConflicts r tb = Inr m \<longleftrightarrow>
     (\<forall>n. length (candidates_of tb n) > 1 \<longrightarrow> allCandidatesHaveOverrides r n (candidates_of tb n)) \<and>
     distinct (map rtool_ResolvedName (all_overridden r tb)) \<and>
     m = map (\<lambda>t. (rtool_ResolvedName t, t)) (all_overridden r tb)"
proof -
  have "findUnresolvedConflicts r (groupToolsByName tb) = [] \<longleftrightarrow>
      (\<forall>n. length (candidates_of tb n) > 1 \<longrightarrow> allCandidatesHaveOverrides r n (candidates_of tb n))"
  proof -
    have "findUnresolvedConflicts r (groupToolsByName tb) = [] \<longleftrightarrow>
        (\<forall>n cs. map_of (groupToolsByName tb) n = Some cs \<longrightarrow> length cs > 1 \<longrightarrow> allCandidatesHaveOverrides r n cs)"
      using groups_ok_groups [of tb]
      by (auto simp: findUnresolvedConflicts_def filter_empty_conv groups_ok_def gomap_ok_lookup)
    also have "\<dots> \<longleftrightarrow> (\<forall>n. length (candidates_of tb n) > 1 \<longrightarrow> allCandidatesHaveOverrides r n (candidates_of tb n))"
      by (simp add: map_of_groups) (metis length_greater_0_conv less_trans zero_less_Suc)
    finally show ?thesis .
  qed
  then show ?thesis
    using applyOverridesAndResolve_iff [of "[]" r tb m] by (simp add: manual_ResolveToolConflicts_def)
qed

section \<open>The prefix strategy\<close>

lemma default_prefix [simp]: "applyPrefix (NewPrefixConflictResolver '''') b n = b @ ''_'' @ n"
  by (simp add: applyPrefix_def NewPrefixConflictResolver_def applyPrefixFormat_def defaultPrefixFormat_def
      replace_all_def)

definition flat :: "(string, Tool list) gomap \<Rightarrow> (string \<times> Tool) list" where
  "flat tb = concat (map (\<lambda>(b, ts). map (Pair b) ts) tb)"

lemma offers_flat: "offers tb b t \<longleftrightarrow> (b, t) \<in> set (flat tb)"
  by (auto simp: offers_def flat_def)

definition prefix_of :: "PrefixConflictResolver \<Rightarrow> (string \<times> Tool) list \<Rightarrow> (string, ResolvedTool) gomap
    \<Rightarrow> (string, ResolvedTool) gomap" where
  "prefix_of r xs m = fold (\<lambda>(b, t). prefix_add r b t) xs m"

lemma prefix_flat: "prefix_ResolveToolConflicts r tb = Inr (prefix_of r (flat tb) [])"
proof -
  have "fold (\<lambda>(b, ts). fold (prefix_add r b) ts) tb m = prefix_of r (flat tb) m" for m
    by (induction tb arbitrary: m) (auto simp: prefix_of_def flat_def fold_map comp_def)
  then show ?thesis by (simp add: prefix_ResolveToolConflicts_def)
qed

lemma prefix_add_lookup:
  "map_of (prefix_add r b t m) n = (case map_of m n of Some x \<Rightarrow> Some x
     | None \<Rightarrow> if n = applyPrefix r b (tool_Name t) then Some (resolved_as n t b ConflictStrategyPrefix) else None)"
  by (auto simp: prefix_add_def Let_def split: option.splits)

text \<open>A name belongs to the first tool in the traversal whose prefixed name it is.\<close>

lemma prefix_of_lookup:
  "map_of (prefix_of r xs m) n = (case map_of m n of Some x \<Rightarrow> Some x
     | None \<Rightarrow> map_option (\<lambda>(b, t). resolved_as n t b ConflictStrategyPrefix)
         (find (\<lambda>(b, t). applyPrefix r b (tool_Name t) = n) xs))"
proof (induction xs arbitrary: m)
  case (Cons x xs)
  then show ?case
    by (cases x) (auto simp: prefix_of_def prefix_add_lookup split: option.splits)
qed (simp add: prefix_of_def split: option.split)

text \<open>
  With the default format and backend identifiers that have no underscore, the prefix strategy
  loses no name and mixes none up, whatever the order in which the backends are visited: a name is in the
  result for a backend's tool exactly when it is that backend's identifier, an underscore and the name of a
  tool the backend offers.
\<close>

theorem prefix_resolution_exact:
  assumes "\<forall>(b, ts) \<in> set tb. CHR ''_'' \<notin> set b"
    and "prefix_ResolveToolConflicts (NewPrefixConflictResolver '''') tb = Inr m"
  shows "(\<exists>t. map_of m n = Some t \<and> rtool_BackendID t = b \<and> rtool_OriginalName t = k) \<longleftrightarrow>
    n = b @ ''_'' @ k \<and> (\<exists>tool. offers tb b tool \<and> tool_Name tool = k)"
proof
  have m: "map_of m n = map_option (\<lambda>(b, t). resolved_as n t b ConflictStrategyPrefix)
      (find (\<lambda>(b, t). b @ ''_'' @ tool_Name t = n) (flat tb))"
    using assms(2) by (auto simp: prefix_flat prefix_of_lookup)
  show "n = b @ ''_'' @ k \<and> (\<exists>tool. offers tb b tool \<and> tool_Name tool = k)"
    if "\<exists>t. map_of m n = Some t \<and> rtool_BackendID t = b \<and> rtool_OriginalName t = k"
    using that m by (auto simp: offers_flat dest!: find_Some)
  show "\<exists>t. map_of m n = Some t \<and> rtool_BackendID t = b \<and> rtool_OriginalName t = k"
    if n: "n = b @ ''_'' @ k \<and> (\<exists>tool. offers tb b tool \<and> tool_Name tool = k)"
  proof -
    from n obtain tool where "(b, tool) \<in> set (flat tb)" "tool_Name tool = k" by (auto simp: offers_flat)
    then obtain b' t' where found: "find (\<lambda>(b, t). b @ ''_'' @ tool_Name t = n) (flat tb) = Some (b', t')"
      using n by (cases "find (\<lambda>(b, t). b @ ''_'' @ tool_Name t = n) (flat tb)") (auto simp: find_None_iff)
    then have "(b', t') \<in> set (flat tb)" "b' @ ''_'' @ tool_Name t' = n"
      using find_Some [OF found] by auto
    moreover have "CHR ''_'' \<notin> set b''" if "offers tb b'' t" for b'' t
      using that assms(1) by (auto simp: offers_def)
    ultimately have "b' = b \<and> tool_Name t' = k"
      using n by (intro separator_unique [of "CHR ''_''"]) (auto simp: offers_flat)
    then show ?thesis using found m by auto
  qed
qed

definition simple_tool :: "string \<Rightarrow> Tool" where
  "simple_tool n = \<lparr>tool_Name = n, tool_Description = '''', tool_InputSchema = [], tool_OutputSchema = [],
     tool_Annotations = None, tool_BackendID = ''''\<rparr>"

theorem prefix_resolution_exact_witness:
  "\<exists>m t. prefix_ResolveToolConflicts (NewPrefixConflictResolver '''')
      [(''a'', [simple_tool ''x'']), (''b'', [simple_tool ''x''])] = Inr m \<and>
    map_of m ''b_x'' = Some t \<and> rtool_BackendID t = ''b'' \<and> rtool_OriginalName t = ''x''"
proof -
  let ?tb = "[(''a'', [simple_tool ''x'']), (''b'', [simple_tool ''x''])]"
  obtain m where m: "prefix_ResolveToolConflicts (NewPrefixConflictResolver '''') ?tb = Inr m"
    by (simp add: prefix_ResolveToolConflicts_def)
  have "\<forall>(b, ts) \<in> set ?tb. CHR ''_'' \<notin> set b" by simp
  from prefix_resolution_exact [OF this m, of "''b_x''" "''b''" "''x''"] m show ?thesis
    by (auto simp: offers_def simple_tool_def)
qed

theorem manual_resolution_complete_witness:
  "let r = \<lparr>mcr_Overrides = [(''a:x'', \<lparr>tov_Name = ''x1'', tov_Description = '''', tov_Annotations = None\<rparr>),
       (''b:x'', \<lparr>tov_Name = ''x2'', tov_Description = '''', tov_Annotations = None\<rparr>)]\<rparr> in
   \<exists>m. manual_ResolveToolConflicts r [(''a'', [simple_tool ''x'']), (''b'', [simple_tool ''x''])] = Inr m \<and>
     map fst m = [''x1'', ''x2'']"
proof -
  let ?r = "\<lparr>mcr_Overrides = [(''a:x'', \<lparr>tov_Name = ''x1'', tov_Description = '''', tov_Annotations = None\<rparr>),
       (''b:x'', \<lparr>tov_Name = ''x2'', tov_Description = '''', tov_Annotations = None\<rparr>)]\<rparr>"
  let ?tb = "[(''a'', [simple_tool ''x'']), (''b'', [simple_tool ''x''])]"
  have all: "map rtool_ResolvedName (all_overridden ?r ?tb) = [''x1'', ''x2'']"
    by (simp add: all_overridden_def resolveToolWithOverride_def simple_tool_def override_key_def)
  have "candidates_of ?tb n = (if n = ''x'' then [\<lparr>twb_Tool = simple_tool ''x'', twb_BackendID = ''a''\<rparr>,
      \<lparr>twb_Tool = simple_tool ''x'', twb_BackendID = ''b''\<rparr>] else [])" for n
    by (auto simp: candidates_of_def simple_tool_def)
  then have "\<forall>n. length (candidates_of ?tb n) > 1 \<longrightarrow> allCandidatesHaveOverrides ?r n (candidates_of ?tb n)"
    by (simp add: allCandidatesHaveOverrides_def override_key_def)
  then have "manual_ResolveToolConflicts ?r ?tb = Inr (map (\<lambda>t. (rtool_ResolvedName t, t)) (all_overridden ?r ?tb))"
    using all by (simp add: manual_resolution_complete)
  then show ?thesis using all by (auto simp: comp_def)
qed

text \<open>
  With an underscore in a backend identifier two backends can claim one prefixed name. The prefix
  strategy then keeps the tool of the backend it happens to visit first: two traversal orders of one and
  the same map give the name to different backends, and in each the other backend's tool is lost.
\<close>

theorem prefix_collision_order_dependent:
  "let tb = [(''b1'', [simple_tool ''x_y'']), (''b1_x'', [simple_tool ''y''])];
       owner = (\<lambda>tb. case prefix_ResolveToolConflicts (NewPrefixConflictResolver '''') tb of
         Inr m \<Rightarrow> map (\<lambda>(n, t). (n, rtool_BackendID t)) m | Inl e \<Rightarrow> [])
   in same_gomap tb (rev tb) \<and> owner tb = [(''b1_x_y'', ''b1'')] \<and> owner (rev tb) = [(''b1_x_y'', ''b1_x'')]"
  by (auto simp: same_gomap_def gomap_ok_def prefix_ResolveToolConflicts_def prefix_add_def simple_tool_def
      Let_def resolved_as_def)

section \<open>The priority strategy\<close>

definition ranked :: "(string, int) gomap \<Rightarrow> toolWithBackend \<Rightarrow> int option" where
  "ranked pm c = map_of pm (twb_BackendID c)"

text \<open>The loop returns a candidate of least rank among those that have one.\<close>

definition least_ranked :: "(string, int) gomap \<Rightarrow> toolWithBackend list \<Rightarrow> toolWithBackend \<Rightarrow> int \<Rightarrow> bool" where
  "least_ranked pm cs c p \<longleftrightarrow> ranked pm c = Some p \<and> (\<forall>d \<in> set cs. \<forall>q. ranked pm d = Some q \<longrightarrow> p \<le> q)"

lemma select_loop_Some:
  assumes pos: "\<And>b p. map_of pm b = Some p \<Longrightarrow> 0 \<le> p"
  shows "ranked pm w = Some k \<Longrightarrow>
    \<exists>c p. select_loop pm cs (Some w) k = Some c \<and> least_ranked pm cs c p \<and> p \<le> k"
proof (induction cs arbitrary: w k)
  case (Cons d cs)
  have "0 \<le> k" using pos Cons.prems by (auto simp: ranked_def)
  show ?case
  proof (cases "ranked pm d")
    case None
    then show ?thesis using Cons.IH [OF Cons.prems] by (simp add: ranked_def least_ranked_def)
  next
    case (Some q)
    show ?thesis
    proof (cases "q < k")
      case True
      from Cons.IH [OF Some] obtain c p where c: "select_loop pm cs (Some d) q = Some c" "least_ranked pm cs c p" "p \<le> q"
        by blast
      then have "select_loop pm (d # cs) (Some w) k = Some c" "least_ranked pm (d # cs) c p" "p \<le> k"
        using Some True by (simp_all add: ranked_def least_ranked_def)
      then show ?thesis by blast
    next
      case False
      from Cons.IH [OF Cons.prems] obtain c p where c: "select_loop pm cs (Some w) k = Some c" "least_ranked pm cs c p" "p \<le> k"
        by blast
      then have "select_loop pm (d # cs) (Some w) k = Some c" "least_ranked pm (d # cs) c p"
        using Some False \<open>0 \<le> k\<close> by (simp_all add: ranked_def least_ranked_def)
      then show ?thesis using c(3) by blast
    qed
  qed
qed (simp add: least_ranked_def)

lemma select_loop_least:
  assumes pos: "\<And>b p. map_of pm b = Some p \<Longrightarrow> 0 \<le> p" and some: "c0 \<in> set cs" "ranked pm c0 \<noteq> None"
  shows "\<exists>c p. select_loop pm cs None (-1) = Some c \<and> c \<in> set cs \<and> least_ranked pm cs c p"
  using some
proof (induction cs)
  case (Cons d cs)
  show ?case
  proof (cases "ranked pm d")
    case None
    with Cons obtain c p where "select_loop pm cs None (-1) = Some c" "c \<in> set cs" "least_ranked pm cs c p"
      by (metis set_ConsD)
    then show ?thesis using None by (auto simp: ranked_def least_ranked_def)
  next
    case (Some q)
    have "\<exists>c p. select_loop pm cs (Some d) q = Some c \<and> least_ranked pm cs c p \<and> p \<le> q"
      by (rule select_loop_Some) (use pos Some in auto)
    then obtain c p where c: "select_loop pm cs (Some d) q = Some c" "least_ranked pm cs c p" "p \<le> q"
      by blast
    then have "select_loop pm (d # cs) None (-1) = Some c" "least_ranked pm (d # cs) c p"
      using Some by (simp_all add: ranked_def least_ranked_def)
    moreover have "c \<in> set (d # cs)" using select_loop_in [OF c(1)] by auto
    ultimately show ?thesis by blast
  qed
qed simp

lemma build_priorityMap_lookup:
  "build_priorityMap order i m = Inr m' \<Longrightarrow> distinct order \<Longrightarrow>
   map_of m' b = Some p \<longleftrightarrow>
     (if b \<in> set order then \<exists>j < length order. order ! j = b \<and> p = i + int j else map_of m b = Some p)"
proof (induction order i m rule: build_priorityMap.induct)
  case (2 a rest i m)
  have "(\<exists>j < length (a # rest). (a # rest) ! j = b \<and> p = i + int j) \<longleftrightarrow>
      a = b \<and> p = i \<or> (\<exists>j < length rest. rest ! j = b \<and> p = i + 1 + int j)"
    by (auto simp: less_Suc_eq_0_disj algebra_simps)
  moreover have "a \<noteq> ''''" "build_priorityMap rest (i + 1) (AList.update a i m) = Inr m'"
    using "2.prems" by (auto split: if_splits)
  moreover have "a \<notin> set rest" "distinct rest" using "2.prems" by auto
  ultimately show ?case using "2.IH" by (auto simp: in_set_conv_nth)
qed simp

lemma priorityMap_rank:
  assumes "NewPriorityConflictResolver order = Inr r" "distinct order"
  shows "map_of (prr_priorityMap r) b = Some p \<longleftrightarrow> (\<exists>j < length order. order ! j = b \<and> p = int j)"
proof -
  obtain m where m: "build_priorityMap order 0 [] = Inr m" "prr_priorityMap r = m"
    using assms(1) by (auto simp: NewPriorityConflictResolver_def split: if_splits sum.splits)
  then show ?thesis using build_priorityMap_lookup [OF m(1) assms(2), of b p]
    by (auto simp: in_set_conv_nth split: if_splits)
qed

text \<open>The winner's backend is the first in the configured order that has a candidate.\<close>

lemma winner_first:
  assumes r: "NewPriorityConflictResolver order = Inr r" "distinct order"
    and cs: "cs \<noteq> []" "\<forall>c \<in> set cs. twb_BackendID c \<in> set order"
  shows "\<exists>c. selectWinner r cs = Some c \<and> c \<in> set cs \<and>
    find (\<lambda>b. b \<in> twb_BackendID ` set cs) order = Some (twb_BackendID c)"
proof -
  note rank = priorityMap_rank [OF r]
  have listed: "ranked (prr_priorityMap r) c \<noteq> None" if "c \<in> set cs" for c
    using that cs(2) rank [of "twb_BackendID c"] by (fastforce simp: ranked_def in_set_conv_nth)
  have "\<exists>c p. select_loop (prr_priorityMap r) cs None (-1) = Some c \<and> c \<in> set cs \<and>
      least_ranked (prr_priorityMap r) cs c p"
    by (rule select_loop_least [of _ "hd cs"]) (use cs(1) listed rank in auto)
  then obtain c p where c: "selectWinner r cs = Some c" "c \<in> set cs" "least_ranked (prr_priorityMap r) cs c p"
    by (auto simp: selectWinner_def)
  then obtain j where j: "j < length order" "order ! j = twb_BackendID c" "p = int j"
    by (auto simp: least_ranked_def ranked_def rank)
  have "order ! i \<notin> twb_BackendID ` set cs" if "i < j" for i
  proof
    assume "order ! i \<in> twb_BackendID ` set cs"
    then obtain d where d: "d \<in> set cs" "twb_BackendID d = order ! i" by auto
    then have "ranked (prr_priorityMap r) d = Some (int i)" using that j by (auto simp: ranked_def rank)
    then show False using c(3) d(1) that j(3) by (force simp: least_ranked_def)
  qed
  then have "find (\<lambda>b. b \<in> twb_BackendID ` set cs) order = Some (twb_BackendID c)"
    using c(2) j unfolding find_Some_iff by (intro exI [of _ j]) auto
  then show ?thesis using c by blast
qed

lemma priority_name_lookup:
  assumes r: "NewPriorityConflictResolver order = Inr r" "distinct order"
    and cs: "cs \<noteq> []" "\<forall>c \<in> set cs. twb_BackendID c \<in> set order"
  shows "map_option rtool_BackendID (map_of (priority_resolve_name r n cs m) k) =
    (if k = n then find (\<lambda>b. b \<in> twb_BackendID ` set cs) order else map_option rtool_BackendID (map_of m k))"
proof -
  obtain c where c: "selectWinner r cs = Some c" "c \<in> set cs"
      "find (\<lambda>b. b \<in> twb_BackendID ` set cs) order = Some (twb_BackendID c)"
    using winner_first [OF assms] by blast
  have "hd cs = c" if "length cs = 1" using that c(2) by (cases cs) auto
  then show ?thesis using c by (auto simp: priority_resolve_name_def Let_def)
qed

lemma priority_groups_lookup:
  assumes r: "NewPriorityConflictResolver order = Inr r" "distinct order"
  shows "distinct (map fst groups) \<Longrightarrow>
    \<forall>(n, cs) \<in> set groups. cs \<noteq> [] \<and> (\<forall>c \<in> set cs. twb_BackendID c \<in> set order) \<Longrightarrow>
    map_option rtool_BackendID (map_of (fold (\<lambda>(n, cs). priority_resolve_name r n cs) groups m) k) =
      (case map_of groups k of None \<Rightarrow> map_option rtool_BackendID (map_of m k)
       | Some cs \<Rightarrow> find (\<lambda>b. b \<in> twb_BackendID ` set cs) order)"
proof (induction groups arbitrary: m)
  case (Cons g groups)
  obtain n cs where g: "g = (n, cs)" by fastforce
  have "map_of groups n = None" using Cons.prems g by (simp add: map_of_eq_None_iff)
  then show ?case using Cons g priority_name_lookup [OF r, of cs n m k] by (auto split: option.splits)
qed simp

text \<open>
  Claim C32: under the priority strategy with a duplicate-free order that lists every backend, a tool name
  belongs to the first backend of the order that offers it, and to none when no backend offers it. This holds for every order in which
  the groups are visited.
\<close>

theorem priority_first_backend_wins:
  assumes "NewPriorityConflictResolver order = Inr r" "distinct order"
    and "\<forall>(b, tools) \<in> set tb. b \<in> set order"
    and "same_gomap groups (groupToolsByName tb)"
  shows "map_option rtool_BackendID (map_of (priority_resolve_groups r groups) n) =
    find (\<lambda>b. \<exists>tool. offers tb b tool \<and> tool_Name tool = n) order"
proof -
  have look: "map_of groups = map_of (groupToolsByName tb)" by (rule same_gomap_map_of [OF assms(4)])
  have ok: "gomap_ok groups" using assms(4) by (simp add: same_gomap_def)
  have "\<forall>(n, cs) \<in> set groups. cs \<noteq> [] \<and> (\<forall>c \<in> set cs. twb_BackendID c \<in> set order)"
  proof (clarsimp)
    fix n cs assume "(n, cs) \<in> set groups"
    then have "cs = candidates_of tb n" "cs \<noteq> []"
      using ok look map_of_groups [of tb n] by (auto simp: gomap_ok_lookup split: if_splits)
    then show "cs \<noteq> [] \<and> (\<forall>c \<in> set cs. twb_BackendID c \<in> set order)"
      using assms(3) by (auto simp: candidates_of_iff offers_def)
  qed
  from priority_groups_lookup [OF assms(1,2) _ this, of "[]" n] ok
  have "map_option rtool_BackendID (map_of (priority_resolve_groups r groups) n) =
      (if candidates_of tb n = [] then None else find (\<lambda>b. b \<in> twb_BackendID ` set (candidates_of tb n)) order)"
    by (simp add: priority_resolve_groups_def gomap_ok_def look map_of_groups)
  also have "\<dots> = find (\<lambda>b. b \<in> twb_BackendID ` set (candidates_of tb n)) order"
    using find_None_iff [of "\<lambda>_. False" order] by auto
  also have "(\<lambda>b. b \<in> twb_BackendID ` set (candidates_of tb n)) = (\<lambda>b. \<exists>tool. offers tb b tool \<and> tool_Name tool = n)"
    by (rule ext) (rule candidate_backend)
  finally show ?thesis .
qed

theorem priority_first_backend_wins_witness:
  "\<exists>r. NewPriorityConflictResolver [''b'', ''a''] = Inr r \<and>
    map_option rtool_BackendID (map_of (priority_resolve_groups r
      (groupToolsByName [(''a'', [simple_tool ''x'']), (''b'', [simple_tool ''x''])])) ''x'') = Some ''b''"
proof -
  let ?tb = "[(''a'', [simple_tool ''x'']), (''b'', [simple_tool ''x''])]"
  obtain r where r: "NewPriorityConflictResolver [''b'', ''a''] = Inr r"
    by (simp add: NewPriorityConflictResolver_def)
  have "same_gomap (groupToolsByName ?tb) (groupToolsByName ?tb)"
    using groups_ok_groups by (simp add: same_gomap_def groups_ok_def)
  from priority_first_backend_wins [OF r _ _ this, of "''x''"] r show ?thesis
    by (auto simp: offers_def simple_tool_def)
qed

end
