(* ===== verification/Capability_Conflicts.thy ===== *)
theory Capability_Conflicts
  imports Conflict_Resolution
begin

text \<open>
  Conflicts among resources, resource templates and prompts (\<open>capability_conflicts.go\<close> of
  \<open>pkg/vmcp/aggregator\<close>). Resources and templates keep the first item of each identity in the given
  order of the backends; a prompt's advertised name depends on its backend and on the naming
  configuration alone, and a name without a defined owner is advertised by nobody.
\<close>

section \<open>First item per key\<close>

text \<open>
  Both functions are called with the keys of \<open>capabilities\<close>, so the lookup finds an entry. The zero value
  stands for the entry of an absent key.
\<close>

definition caps_at :: "(string, BackendCapabilities) gomap \<Rightarrow> string \<Rightarrow> BackendCapabilities" where
  "caps_at capabilities backendID = (case map_of capabilities backendID of Some caps \<Rightarrow> caps
     | None \<Rightarrow> \<lparr>bc_BackendID = '''', bc_Tools = [], bc_Resources = [], bc_ResourceTemplates = [],
         bc_Prompts = [], bc_SupportsLogging = False, bc_SupportsSampling = False\<rparr>)"

definition dedupe_item :: "('t \<Rightarrow> string) \<Rightarrow> string \<Rightarrow> 't \<Rightarrow> (string, string) gomap \<times> 't list
    \<Rightarrow> (string, string) gomap \<times> 't list" where
  "dedupe_item keyOf backendID item = (\<lambda>(seen, deduped).
     case map_of seen (keyOf item) of Some winner \<Rightarrow> (seen, deduped)
     | None \<Rightarrow> (AList.update (keyOf item) backendID seen, deduped @ [item]))"

definition dedupeByKey :: "string list \<Rightarrow> (string, BackendCapabilities) gomap \<Rightarrow> (BackendCapabilities \<Rightarrow> 't list)
    \<Rightarrow> ('t \<Rightarrow> string) \<Rightarrow> 't list" where
  "dedupeByKey backendIDs capabilities itemsOf keyOf =
     sort_key keyOf (snd (fold (\<lambda>backendID. fold (dedupe_item keyOf backendID) (itemsOf (caps_at capabilities backendID)))
       backendIDs ([], [])))"

definition resolveResourceConflicts :: "string list \<Rightarrow> (string, BackendCapabilities) gomap \<Rightarrow> Resource list" where
  "resolveResourceConflicts backendIDs capabilities = dedupeByKey backendIDs capabilities bc_Resources res_URI"

definition resolveResourceTemplateConflicts :: "string list \<Rightarrow> (string, BackendCapabilities) gomap
    \<Rightarrow> ResourceTemplate list" where
  "resolveResourceTemplateConflicts backendIDs capabilities =
     dedupeByKey backendIDs capabilities bc_ResourceTemplates rt_URITemplate"

section \<open>Prompts\<close>

record candidate =
  cand_prompt :: Prompt
  cand_backendID :: string
  cand_rank :: int
  cand_listed :: bool

definition claim_prompt :: "promptNaming \<Rightarrow> string \<Rightarrow> Prompt \<Rightarrow> (string, candidate list) gomap
    \<Rightarrow> (string, candidate list) gomap" where
  "claim_prompt naming backendID prompt byName =
     (let (rank, listed) = (case map_of (pn_priorityRank naming) backendID of Some r \<Rightarrow> (r, True) | None \<Rightarrow> (0, False));
          resolvedName = (if \<not> listed then applyPrefixFormat (pn_prefixFormat naming) backendID (p_Name prompt)
            else p_Name prompt);
          claims = (case map_of byName resolvedName of None \<Rightarrow> [] | Some cs \<Rightarrow> cs);
          duplicate = list_ex (\<lambda>c. cand_backendID c = backendID) claims
      in if duplicate then byName
         else AList.update resolvedName (claims @ [\<lparr>cand_prompt = prompt, cand_backendID = backendID,
           cand_rank = rank, cand_listed = listed\<rparr>]) byName)"

definition claims_byName :: "promptNaming \<Rightarrow> string list \<Rightarrow> (string, BackendCapabilities) gomap
    \<Rightarrow> (string, candidate list) gomap" where
  "claims_byName naming backendIDs capabilities =
     fold (\<lambda>backendID. fold (claim_prompt naming backendID) (bc_Prompts (caps_at capabilities backendID))) backendIDs []"

definition prompt_winner :: "candidate \<Rightarrow> candidate list \<Rightarrow> candidate" where
  "prompt_winner first contenders =
     fold (\<lambda>contender winner. if cand_rank contender < cand_rank winner then contender else winner) contenders first"

definition resolve_prompt_name :: "string \<Rightarrow> candidate list \<Rightarrow> ResolvedPrompt list" where
  "resolve_prompt_name resolvedName candidates =
     (if length candidates > 1 \<and> list_ex (\<lambda>c. \<not> cand_listed c) candidates then []
      else case candidates of [] \<Rightarrow> []
      | c # contenders \<Rightarrow> let winner = prompt_winner c contenders in
          [\<lparr>rp_Prompt = (cand_prompt winner)\<lparr>p_Name := resolvedName\<rparr>, rp_OriginalName = p_Name (cand_prompt winner)\<rparr>])"

definition resolvePromptConflicts :: "promptNaming \<Rightarrow> string list \<Rightarrow> (string, BackendCapabilities) gomap
    \<Rightarrow> ResolvedPrompt list" where
  "resolvePromptConflicts naming backendIDs capabilities =
     (let byName = claims_byName naming backendIDs capabilities in
      concat (map (\<lambda>resolvedName. resolve_prompt_name resolvedName
        (case map_of byName resolvedName of None \<Rightarrow> [] | Some cs \<Rightarrow> cs)) (sort (map fst byName))))"

section \<open>First wins, sorted, complete\<close>

definition all_items :: "string list \<Rightarrow> (string, BackendCapabilities) gomap \<Rightarrow> (BackendCapabilities \<Rightarrow> 't list) \<Rightarrow> 't list" where
  "all_items backendIDs capabilities itemsOf = concat (map (\<lambda>b. itemsOf (caps_at capabilities b)) backendIDs)"

definition deduping :: "('t \<Rightarrow> string) \<Rightarrow> 't list \<Rightarrow> (string, string) gomap \<times> 't list \<Rightarrow> bool" where
  "deduping keyOf xs = (\<lambda>(seen, deduped). dom (map_of seen) = keyOf ` set xs \<and> distinct (map keyOf deduped) \<and>
     (\<forall>k. find (\<lambda>x. keyOf x = k) deduped = find (\<lambda>x. keyOf x = k) xs))"

lemma deduping_item: "deduping keyOf xs s \<Longrightarrow> deduping keyOf (xs @ [x]) (dedupe_item keyOf b x s)"
proof -
  obtain seen ys where s: "s = (seen, ys)" by fastforce
  assume "deduping keyOf xs s"
  then have d: "dom (map_of seen) = keyOf ` set xs" "distinct (map keyOf ys)"
      "find (\<lambda>x. keyOf x = k) ys = find (\<lambda>x. keyOf x = k) xs" for k
    by (auto simp: deduping_def s)
  have keys: "keyOf x \<in> keyOf ` set zs \<longleftrightarrow> find (\<lambda>y. keyOf y = keyOf x) zs \<noteq> None" for zs
    using find_None_iff [of "\<lambda>y. keyOf y = keyOf x" zs] by (auto simp: image_iff) metis
  show ?thesis
  proof (cases "map_of seen (keyOf x)")
    case None
    then have "keyOf x \<notin> keyOf ` set xs" using d(1) by blast
    then have "keyOf x \<notin> keyOf ` set ys" using keys [of xs] keys [of ys] d(3) by simp
    then show ?thesis using None d by (simp add: s dedupe_item_def deduping_def find_append)
  next
    case (Some w)
    then have "keyOf x \<in> keyOf ` set xs" using d(1) by blast
    then have "find (\<lambda>y. keyOf y = keyOf x) xs \<noteq> None" using keys by simp
    then show ?thesis using Some d \<open>keyOf x \<in> _\<close>
      by (auto simp: s dedupe_item_def deduping_def find_append split: option.splits)
  qed
qed

lemma deduping_items: "deduping keyOf xs s \<Longrightarrow> deduping keyOf (xs @ ys) (fold (dedupe_item keyOf b) ys s)"
proof (induction ys arbitrary: xs s)
  case (Cons y ys)
  then show ?case using Cons.IH [OF deduping_item [OF Cons.prems, of y b]] by simp
qed simp

lemma deduping_all:
  "deduping keyOf xs s \<Longrightarrow> deduping keyOf (xs @ all_items bs caps itemsOf)
     (fold (\<lambda>b. fold (dedupe_item keyOf b) (itemsOf (caps_at caps b))) bs s)"
proof (induction bs arbitrary: xs s)
  case (Cons b bs)
  then show ?case using Cons.IH [OF deduping_items [OF Cons.prems]] by (simp add: all_items_def)
qed (simp add: all_items_def)

lemma find_permuted:
  assumes "distinct (map f xs)" "set ys = set xs"
  shows "find (\<lambda>x. f x = k) ys = find (\<lambda>x. f x = k) xs"
proof (cases "find (\<lambda>x. f x = k) xs")
  case None
  then have "find (\<lambda>x. f x = k) ys = None" using assms(2) by (simp add: find_None_iff)
  then show ?thesis using None by simp
next
  case (Some x)
  then have "x \<in> set xs \<and> f x = k" by (rule find_Some)
  then show ?thesis
    using find_unique_iff [of ys "\<lambda>x. f x = k" x] distinct_keys_unique [OF assms(1)] assms(2) Some by auto
qed

text \<open>
  De-duplication by a key equals the reference that keeps, for each key, the first item with it in
  the order of the backends: the result has each key once, is sorted by key, and looking a key up in it
  gives what looking it up in the concatenation of all the backends' items gives.
\<close>

theorem dedupeByKey_first_wins:
  "distinct (map keyOf (dedupeByKey bs caps itemsOf keyOf)) \<and> sorted (map keyOf (dedupeByKey bs caps itemsOf keyOf)) \<and>
   find (\<lambda>x. keyOf x = k) (dedupeByKey bs caps itemsOf keyOf) = find (\<lambda>x. keyOf x = k) (all_items bs caps itemsOf)"
proof -
  obtain seen ys where s: "fold (\<lambda>b. fold (dedupe_item keyOf b) (itemsOf (caps_at caps b))) bs ([], []) = (seen, ys)"
    by fastforce
  have "deduping keyOf [] ([], [])" by (simp add: deduping_def)
  from deduping_all [OF this, of bs caps itemsOf] s
  have ys: "distinct (map keyOf ys)" "find (\<lambda>x. keyOf x = k) ys = find (\<lambda>x. keyOf x = k) (all_items bs caps itemsOf)"
    by (auto simp: deduping_def)
  have eq: "dedupeByKey bs caps itemsOf keyOf = sort_key keyOf ys" by (simp add: dedupeByKey_def s)
  have "distinct (map keyOf (sort_key keyOf ys))" using ys(1) by (simp add: distinct_map)
  moreover have "find (\<lambda>x. keyOf x = k) (sort_key keyOf ys) = find (\<lambda>x. keyOf x = k) ys"
    by (rule find_permuted [OF ys(1)]) simp
  ultimately show ?thesis using ys(2) by (simp add: eq)
qed

section \<open>Prompt names\<close>

definition listed :: "promptNaming \<Rightarrow> string \<Rightarrow> bool" where
  "listed naming b \<longleftrightarrow> map_of (pn_priorityRank naming) b \<noteq> None"

definition rank_of :: "promptNaming \<Rightarrow> string \<Rightarrow> int" where
  "rank_of naming b = (case map_of (pn_priorityRank naming) b of None \<Rightarrow> 0 | Some r \<Rightarrow> r)"

definition advertised_name :: "promptNaming \<Rightarrow> string \<Rightarrow> Prompt \<Rightarrow> string" where
  "advertised_name naming b p =
     (if listed naming b then p_Name p else applyPrefixFormat (pn_prefixFormat naming) b (p_Name p))"

definition claimants :: "promptNaming \<Rightarrow> string list \<Rightarrow> (string, BackendCapabilities) gomap \<Rightarrow> string \<Rightarrow> string set" where
  "claimants naming bs caps n =
     {b \<in> set bs. \<exists>p \<in> set (bc_Prompts (caps_at caps b)). advertised_name naming b p = n}"

definition claims_on :: "(string, candidate list) gomap \<Rightarrow> string \<Rightarrow> candidate list" where
  "claims_on m n = (case map_of m n of None \<Rightarrow> [] | Some cs \<Rightarrow> cs)"

definition claims_ok :: "promptNaming \<Rightarrow> (string \<times> Prompt) set \<Rightarrow> (string, candidate list) gomap \<Rightarrow> bool" where
  "claims_ok naming X m \<longleftrightarrow> gomap_ok m \<and> (\<forall>n. map_of m n \<noteq> Some []) \<and>
     (\<forall>n. distinct (map cand_backendID (claims_on m n))) \<and>
     (\<forall>n. \<forall>c \<in> set (claims_on m n). (cand_backendID c, cand_prompt c) \<in> X \<and>
        advertised_name naming (cand_backendID c) (cand_prompt c) = n \<and>
        cand_rank c = rank_of naming (cand_backendID c) \<and> cand_listed c = listed naming (cand_backendID c)) \<and>
     (\<forall>(b, p) \<in> X. b \<in> cand_backendID ` set (claims_on m (advertised_name naming b p)))"

lemma claim_prompt_eq:
  "claim_prompt naming b p m =
     (let n = advertised_name naming b p in
      if b \<in> cand_backendID ` set (claims_on m n) then m
      else AList.update n (claims_on m n @ [\<lparr>cand_prompt = p, cand_backendID = b, cand_rank = rank_of naming b,
        cand_listed = listed naming b\<rparr>]) m)"
  by (auto simp: claim_prompt_def advertised_name_def listed_def rank_of_def claims_on_def Let_def list_ex_iff
      split: option.splits prod.splits)

lemma claims_on_update [simp]: "claims_on (AList.update n cs m) k = (if k = n then cs else claims_on m k)"
  by (simp add: claims_on_def)

lemma claim_prompt_ok:
  assumes ok: "claims_ok naming X m"
  shows "claims_ok naming (insert (b, p) X) (claim_prompt naming b p m)"
proof (cases "b \<in> cand_backendID ` set (claims_on m (advertised_name naming b p))")
  case True
  then show ?thesis using ok by (simp add: claim_prompt_eq claims_ok_def)
next
  case False
  then show ?thesis using ok unfolding claim_prompt_eq Let_def claims_ok_def by auto
qed

lemma claims_prompts_ok:
  "claims_ok naming X m \<Longrightarrow> claims_ok naming (X \<union> Pair b ` set ps) (fold (claim_prompt naming b) ps m)"
proof (induction ps arbitrary: X m)
  case (Cons p ps)
  then show ?case using Cons.IH [OF claim_prompt_ok [OF Cons.prems, of b p]] by (simp add: insert_commute)
qed simp

lemma claims_byName_ok:
  "claims_ok naming {(b, p). b \<in> set bs \<and> p \<in> set (bc_Prompts (caps_at caps b))} (claims_byName naming bs caps)"
proof -
  have "claims_ok naming (X \<union> {(b, p). b \<in> set bs \<and> p \<in> set (bc_Prompts (caps_at caps b))})
      (fold (\<lambda>b. fold (claim_prompt naming b) (bc_Prompts (caps_at caps b))) bs m)" if "claims_ok naming X m" for X m
    using that
  proof (induction bs arbitrary: X m)
    case (Cons b bs)
    have "X \<union> Pair b ` set (bc_Prompts (caps_at caps b)) \<union> {(b, p). b \<in> set bs \<and> p \<in> set (bc_Prompts (caps_at caps b))}
        = X \<union> {(b', p). b' \<in> set (b # bs) \<and> p \<in> set (bc_Prompts (caps_at caps b'))}" by auto
    then show ?case using Cons.IH [OF claims_prompts_ok [OF Cons.prems, of b "bc_Prompts (caps_at caps b)"]] by simp
  qed simp
  from this [of "{}" "[]"] show ?thesis
    by (simp add: claims_byName_def claims_ok_def claims_on_def)
qed

lemma claimants_claims:
  "cand_backendID ` set (claims_on (claims_byName naming bs caps) n) = claimants naming bs caps n"
  using claims_byName_ok [of naming bs caps] by (auto simp: claims_ok_def claimants_def) blast

lemma prompt_winner_least:
  "prompt_winner c cs \<in> set (c # cs) \<and> (\<forall>d \<in> set (c # cs). cand_rank (prompt_winner c cs) \<le> cand_rank d)"
proof (induction cs arbitrary: c)
  case (Cons d cs)
  let ?w = "if cand_rank d < cand_rank c then d else c"
  have "prompt_winner c (d # cs) = prompt_winner ?w cs" by (simp add: prompt_winner_def)
  then show ?case using Cons.IH [of ?w] by (auto split: if_splits)
qed (simp add: prompt_winner_def)

lemma resolve_name_shape:
  "resolve_prompt_name n cs = [] \<or> (\<exists>rp. resolve_prompt_name n cs = [rp] \<and> p_Name (rp_Prompt rp) = n)"
  by (cases cs) (simp_all add: resolve_prompt_name_def Let_def)

lemma resolved_names:
  "map (p_Name \<circ> rp_Prompt) (concat (map (\<lambda>n. resolve_prompt_name n (f n)) ns)) =
     filter (\<lambda>n. resolve_prompt_name n (f n) \<noteq> []) ns"
proof (induction ns)
  case (Cons n ns)
  then show ?case using resolve_name_shape [of n "f n"] by auto
qed simp

lemma resolve_name_nonempty:
  "resolve_prompt_name n cs \<noteq> [] \<longleftrightarrow> cs \<noteq> [] \<and> (length cs = 1 \<or> (\<forall>c \<in> set cs. cand_listed c))"
  by (cases cs) (auto simp: resolve_prompt_name_def Let_def list_ex_iff)

lemma claims_single:
  assumes ok: "claims_ok naming X m" and C: "cand_backendID ` set (claims_on m n) = C"
  shows "length (claims_on m n) = 1 \<longleftrightarrow> (\<exists>b. C = {b})"
proof -
  have "length (claims_on m n) = card C"
    using ok C distinct_card [of "map cand_backendID (claims_on m n)"] by (simp add: claims_ok_def)
  then show ?thesis by (simp add: card_1_singleton_iff)
qed

lemma resolve_name_owner:
  assumes ok: "claims_ok naming X m" and rp: "rp \<in> set (resolve_prompt_name n (claims_on m n))"
  shows "\<exists>b p. (b, p) \<in> X \<and> rp_OriginalName rp = p_Name p \<and> advertised_name naming b p = n \<and>
    rp_Prompt rp = p\<lparr>p_Name := n\<rparr> \<and> (\<forall>b' \<in> cand_backendID ` set (claims_on m n). rank_of naming b \<le> rank_of naming b')"
proof -
  from rp obtain c cs where cs: "claims_on m n = c # cs"
    by (cases "claims_on m n") (auto simp: resolve_prompt_name_def)
  let ?w = "prompt_winner c cs"
  have w: "?w \<in> set (claims_on m n)" "\<And>d. d \<in> set (claims_on m n) \<Longrightarrow> cand_rank ?w \<le> cand_rank d"
    using prompt_winner_least [of c cs] by (auto simp: cs)
  have rp: "rp_OriginalName rp = p_Name (cand_prompt ?w)" "rp_Prompt rp = (cand_prompt ?w)\<lparr>p_Name := n\<rparr>"
    using rp by (auto simp: resolve_prompt_name_def cs Let_def split: if_splits)
  have claim: "(cand_backendID d, cand_prompt d) \<in> X \<and> advertised_name naming (cand_backendID d) (cand_prompt d) = n \<and>
      cand_rank d = rank_of naming (cand_backendID d)" if "d \<in> set (claims_on m n)" for d
    using ok that unfolding claims_ok_def by blast
  have "rank_of naming (cand_backendID ?w) \<le> rank_of naming (cand_backendID d)" if "d \<in> set (claims_on m n)" for d
    using w(2) [OF that] claim [OF w(1)] claim [OF that] by simp
  then show ?thesis using claim [OF w(1)] rp by (intro exI [of _ "cand_backendID ?w"] exI [of _ "cand_prompt ?w"]) auto
qed

lemma resolvePromptConflicts_eq:
  "resolvePromptConflicts naming bs caps = concat (map (\<lambda>n. resolve_prompt_name n (claims_on (claims_byName naming bs caps) n))
     (sort (map fst (claims_byName naming bs caps))))"
  by (simp add: resolvePromptConflicts_def Let_def claims_on_def)

lemma resolved_prompt_names:
  "map (p_Name \<circ> rp_Prompt) (resolvePromptConflicts naming bs caps) =
     filter (\<lambda>n. resolve_prompt_name n (claims_on (claims_byName naming bs caps) n) \<noteq> [])
       (sort (map fst (claims_byName naming bs caps)))"
  unfolding resolvePromptConflicts_eq by (rule resolved_names)

lemma claims_ok_key:
  assumes "claims_ok naming X m"
  shows "n \<in> set (map fst m) \<longleftrightarrow> claims_on m n \<noteq> []"
proof -
  have "map_of m n \<noteq> Some []" using assms by (simp add: claims_ok_def)
  then show ?thesis using map_of_eq_None_iff [of m n] by (cases "map_of m n") (auto simp: claims_on_def)
qed

lemma prompt_name_advertised:
  "n \<in> set (map (p_Name \<circ> rp_Prompt) (resolvePromptConflicts naming bs caps)) \<longleftrightarrow>
     (\<exists>b. claimants naming bs caps n = {b}) \<or>
     claimants naming bs caps n \<noteq> {} \<and> (\<forall>b \<in> claimants naming bs caps n. listed naming b)"
proof -
  let ?m = "claims_byName naming bs caps"
  note ok = claims_byName_ok [of naming bs caps]
  have "(\<forall>c \<in> set (claims_on ?m n). cand_listed c) \<longleftrightarrow> (\<forall>b \<in> claimants naming bs caps n. listed naming b)"
    using ok unfolding claimants_claims [symmetric] claims_ok_def by blast
  moreover have "length (claims_on ?m n) = 1 \<longleftrightarrow> (\<exists>b. claimants naming bs caps n = {b})"
    by (rule claims_single [OF ok claimants_claims])
  moreover have "claims_on ?m n \<noteq> [] \<longleftrightarrow> claimants naming bs caps n \<noteq> {}"
    by (simp flip: claimants_claims)
  moreover have "n \<in> set (map (p_Name \<circ> rp_Prompt) (resolvePromptConflicts naming bs caps)) \<longleftrightarrow>
      claims_on ?m n \<noteq> [] \<and> (length (claims_on ?m n) = 1 \<or> (\<forall>c \<in> set (claims_on ?m n). cand_listed c))"
    unfolding resolved_prompt_names set_filter set_sort mem_Collect_eq claims_ok_key [OF ok] resolve_name_nonempty by blast
  ultimately show ?thesis by auto
qed

text \<open>
  Claim C30: every advertised prompt name has one owner. Names are advertised at most once and sorted; a name
  is advertised exactly when a single backend claims it, or when all the backends that claim it are listed in the priority order. What is
  advertised under a name is a prompt of a backend that claims it and has the best rank among the
  claimants, and the original name kept for routing is the backend's own name of that prompt.
\<close>

theorem prompt_names_unambiguous:
  "let res = resolvePromptConflicts naming bs caps; names = map (p_Name \<circ> rp_Prompt) res in
   sorted names \<and> distinct names \<and>
   (\<forall>n. n \<in> set names \<longleftrightarrow> (\<exists>b. claimants naming bs caps n = {b}) \<or>
      claimants naming bs caps n \<noteq> {} \<and> (\<forall>b \<in> claimants naming bs caps n. listed naming b)) \<and>
   (\<forall>rp \<in> set res. \<exists>b p. b \<in> set bs \<and> p \<in> set (bc_Prompts (caps_at caps b)) \<and> rp_OriginalName rp = p_Name p \<and>
      rp_Prompt rp = p\<lparr>p_Name := advertised_name naming b p\<rparr> \<and>
      (\<forall>b' \<in> claimants naming bs caps (advertised_name naming b p). rank_of naming b \<le> rank_of naming b'))"
proof -
  let ?m = "claims_byName naming bs caps"
  let ?res = "resolvePromptConflicts naming bs caps"
  note ok = claims_byName_ok [of naming bs caps]
  have "distinct (map fst ?m)" using ok by (simp add: claims_ok_def gomap_ok_def)
  then have order: "sorted (map (p_Name \<circ> rp_Prompt) ?res)" "distinct (map (p_Name \<circ> rp_Prompt) ?res)"
    unfolding resolved_prompt_names by (auto intro: sorted_wrt_filter)
  have owner: "\<exists>b p. b \<in> set bs \<and> p \<in> set (bc_Prompts (caps_at caps b)) \<and> rp_OriginalName rp = p_Name p \<and>
      rp_Prompt rp = p\<lparr>p_Name := advertised_name naming b p\<rparr> \<and>
      (\<forall>b' \<in> claimants naming bs caps (advertised_name naming b p). rank_of naming b \<le> rank_of naming b')"
    if "rp \<in> set ?res" for rp
  proof -
    from that obtain n where "rp \<in> set (resolve_prompt_name n (claims_on ?m n))"
      by (auto simp: resolvePromptConflicts_eq)
    from resolve_name_owner [OF ok this] show ?thesis by (fastforce simp: claimants_claims)
  qed
  show ?thesis unfolding Let_def by (intro conjI allI ballI order owner prompt_name_advertised)
qed

theorem prompt_names_unambiguous_witness:
  "let caps = (\<lambda>b n. (b, \<lparr>bc_BackendID = b, bc_Tools = [], bc_Resources = [], bc_ResourceTemplates = [],
         bc_Prompts = [\<lparr>p_Name = n, p_Description = '''', p_Arguments = [], p_BackendID = b\<rparr>],
         bc_SupportsLogging = False, bc_SupportsSampling = False\<rparr>));
       res = resolvePromptConflicts (promptNamingFromConfig None) [''b1'', ''b1_x'', ''c'']
         [caps ''b1'' ''x_y'', caps ''b1_x'' ''y'', caps ''c'' ''z'']
   in distinct (map (p_Name \<circ> rp_Prompt) res) \<and> map (p_Name \<circ> rp_Prompt) res = [''c_z''] \<and>
      map rp_OriginalName res = [''z'']"
proof -
  have "distinct (map (p_Name \<circ> rp_Prompt) (resolvePromptConflicts naming bs caps))" for naming bs caps
    using prompt_names_unambiguous [of naming bs caps] unfolding Let_def by blast
  then show ?thesis unfolding Let_def by (intro conjI) (assumption | code_simp)+
qed

end
