(* ===== verification/Tool_Filter.thy ===== *)
theory Tool_Filter
  imports Vmcp_Types
begin

text \<open>
  Tool filtering and overriding of \<open>pkg/mcp/tool_filter.go\<close>: the configuration built from options,
  the core applied to a list of tools, the rewriting of a \<open>tools/list\<close> response and the decision on
  a \<open>tools/call\<close> request. The HTTP and SSE plumbing around them is not modelled: a response is the
  list of its tool objects, a request its parameters.
\<close>

section \<open>Configuration\<close>

record toolOverrideEntry =
  toe_ActualName :: string
  toe_OverrideName :: string
  toe_OverrideDescription :: string

record toolMiddlewareConfig =
  tmc_filterTools :: "(string, unit) gomap"
  tmc_actualToUserOverride :: "(string, toolOverrideEntry) gomap"
  tmc_userToActualOverride :: "(string, toolOverrideEntry) gomap"

definition isToolInFilter :: "toolMiddlewareConfig \<Rightarrow> string \<Rightarrow> bool" where
  "isToolInFilter c toolName = (if length (tmc_filterTools c) = 0 then True
     else map_of (tmc_filterTools c) toolName \<noteq> None)"

definition getToolCallActualName :: "toolMiddlewareConfig \<Rightarrow> string \<Rightarrow> string option" where
  "getToolCallActualName c toolName = (if length (tmc_userToActualOverride c) = 0 then None
     else map_option toe_ActualName (map_of (tmc_userToActualOverride c) toolName))"

definition getToolListOverride :: "toolMiddlewareConfig \<Rightarrow> string \<Rightarrow> toolOverrideEntry option" where
  "getToolListOverride c toolName = (if length (tmc_actualToUserOverride c) = 0 then None
     else map_of (tmc_actualToUserOverride c) toolName)"

text \<open>
  The options are functions on the configuration; the two constructors name the closures that
  \<open>WithToolsFilter\<close> and \<open>WithToolsOverride\<close> return.
\<close>

datatype ToolMiddlewareOption = WithToolsFilter "string list" | WithToolsOverride string string string

fun addFilters :: "string list \<Rightarrow> toolMiddlewareConfig \<Rightarrow> goerror + toolMiddlewareConfig" where
  "addFilters [] mw = Inr mw"
| "addFilters (tf # tfs) mw = (if tf = '''' then Inl (new_error ''tool name cannot be empty'')
     else addFilters tfs (mw\<lparr>tmc_filterTools := AList.update tf () (tmc_filterTools mw)\<rparr>))"

fun applyOption :: "ToolMiddlewareOption \<Rightarrow> toolMiddlewareConfig \<Rightarrow> goerror + toolMiddlewareConfig" where
  "applyOption (WithToolsFilter toolsFilter) mw = addFilters toolsFilter mw"
| "applyOption (WithToolsOverride actualName overrideName overrideDescription) mw =
     (if actualName = '''' then Inl (new_error ''tool name cannot be empty'')
      else if overrideName = '''' \<and> overrideDescription = ''''
      then Inl (new_error ''override name and description cannot both be empty'')
      else
        let entry = \<lparr>toe_ActualName = actualName, toe_OverrideName = overrideName,
                     toe_OverrideDescription = overrideDescription\<rparr>
        in Inr (mw\<lparr>tmc_actualToUserOverride := AList.update actualName entry (tmc_actualToUserOverride mw),
                   tmc_userToActualOverride := AList.update overrideName entry (tmc_userToActualOverride mw)\<rparr>))"

fun applyOptions :: "ToolMiddlewareOption list \<Rightarrow> toolMiddlewareConfig \<Rightarrow> goerror + toolMiddlewareConfig" where
  "applyOptions [] config = Inr config"
| "applyOptions (opt # opts) config = (case applyOption opt config of Inl err \<Rightarrow> Inl err
     | Inr config' \<Rightarrow> applyOptions opts config')"

definition emptyConfig :: toolMiddlewareConfig where
  "emptyConfig = \<lparr>tmc_filterTools = [], tmc_actualToUserOverride = [], tmc_userToActualOverride = []\<rparr>"

section \<open>Listing\<close>

record SimpleTool =
  simple_Name :: string
  simple_Description :: string

definition overriddenTool :: "toolMiddlewareConfig \<Rightarrow> SimpleTool \<Rightarrow> SimpleTool" where
  "overriddenTool config tool = (case getToolListOverride config (simple_Name tool) of
     Some entry \<Rightarrow>
       \<lparr>simple_Name = (if toe_OverrideName entry \<noteq> '''' then toe_OverrideName entry else simple_Name tool),
        simple_Description = (if toe_OverrideDescription entry \<noteq> '''' then toe_OverrideDescription entry
          else simple_Description tool)\<rparr>
   | None \<Rightarrow> tool)"

fun applyFilteringAndOverrides :: "toolMiddlewareConfig \<Rightarrow> SimpleTool list \<Rightarrow> SimpleTool list" where
  "applyFilteringAndOverrides config [] = []"
| "applyFilteringAndOverrides config (tool # tools) =
     (let tool' = overriddenTool config tool in
      if isToolInFilter config (simple_Name tool')
      then tool' # applyFilteringAndOverrides config tools
      else applyFilteringAndOverrides config tools)"

definition ApplyToolFiltering :: "ToolMiddlewareOption list \<Rightarrow> SimpleTool list \<Rightarrow> goerror + SimpleTool list" where
  "ApplyToolFiltering opts tools = (case applyOptions opts emptyConfig of Inl err \<Rightarrow> Inl err
     | Inr config \<Rightarrow> Inr (applyFilteringAndOverrides config tools))"

definition findOriginalName :: "toolMiddlewareConfig \<Rightarrow> string \<Rightarrow> string" where
  "findOriginalName config overriddenName =
     (case find (\<lambda>(actualName, entry). toe_OverrideName entry = overriddenName) (tmc_actualToUserOverride config) of
        Some (actualName, entry) \<Rightarrow> actualName | None \<Rightarrow> overriddenName)"

type_synonym tool_object = "(string, json) gomap"

definition errToolNameNotFound :: goerror where
  "errToolNameNotFound = new_error ''tool name not found''"

fun as_string :: "json option \<Rightarrow> string option" where
  "as_string (Some (JString s)) = Some s"
| "as_string _ = None"

fun simpleTools :: "tool_object list \<Rightarrow> goerror + SimpleTool list" where
  "simpleTools [] = Inr []"
| "simpleTools (tool # tools) = (case as_string (map_of tool ''name'') of
     None \<Rightarrow> Inl errToolNameNotFound
   | Some toolName \<Rightarrow>
       if toolName = '''' then Inl errToolNameNotFound
       else case simpleTools tools of Inl err \<Rightarrow> Inl err
            | Inr rest \<Rightarrow> Inr (\<lparr>simple_Name = toolName,
                simple_Description = (case as_string (map_of tool ''description'') of None \<Rightarrow> '''' | Some d \<Rightarrow> d)\<rparr> # rest))"

text \<open>
  The response's objects are rebuilt by searching the original tools for each processed one; the
  copy gets the processed name, and the processed description unless it is empty.
\<close>

definition rebuildTool :: "SimpleTool \<Rightarrow> tool_object \<Rightarrow> tool_object" where
  "rebuildTool processed tool =
     (let copy = AList.update ''name'' (JString (simple_Name processed)) tool in
      if simple_Description processed \<noteq> ''''
      then AList.update ''description'' (JString (simple_Description processed)) copy else copy)"

fun rebuildTools :: "toolMiddlewareConfig \<Rightarrow> (SimpleTool \<times> tool_object) list \<Rightarrow> SimpleTool list \<Rightarrow> tool_object list" where
  "rebuildTools config originals [] = []"
| "rebuildTools config originals (processed # rest) =
     (case find (\<lambda>(simple, tool). simple_Name simple = simple_Name processed
                \<or> simple_Name simple = findOriginalName config (simple_Name processed)) originals of
        Some (simple, tool) \<Rightarrow> rebuildTool processed tool # rebuildTools config originals rest
      | None \<Rightarrow> rebuildTools config originals rest)"

definition processToolsListResponse :: "toolMiddlewareConfig \<Rightarrow> tool_object list \<Rightarrow> goerror + tool_object list" where
  "processToolsListResponse config tools = (case simpleTools tools of Inl err \<Rightarrow> Inl err
     | Inr simples \<Rightarrow>
         Inr (rebuildTools config (zip simples tools) (applyFilteringAndOverrides config simples)))"

section \<open>Calling\<close>

datatype toolCallFixAction = toolCallFilter | toolCallOverride string | toolCallBogus | toolCallNoAction

definition processToolCallRequest :: "toolMiddlewareConfig \<Rightarrow> tool_object option \<Rightarrow> toolCallFixAction" where
  "processToolCallRequest config params = (case params of None \<Rightarrow> toolCallBogus
     | Some ps \<Rightarrow> (case as_string (map_of ps ''name'') of None \<Rightarrow> toolCallBogus
       | Some toolName \<Rightarrow>
           if toolName = '''' then toolCallBogus
           else if \<not> isToolInFilter config toolName then toolCallFilter
           else case getToolCallActualName config toolName of
             Some actualName \<Rightarrow> toolCallOverride actualName
           | None \<Rightarrow> toolCallNoAction))"

text \<open>The tool a call by the given name reaches, when it is let through.\<close>

definition called_tool :: "toolMiddlewareConfig \<Rightarrow> string \<Rightarrow> string option" where
  "called_tool config name = (case processToolCallRequest config (Some [(''name'', JString name)]) of
     toolCallOverride actualName \<Rightarrow> Some actualName | toolCallNoAction \<Rightarrow> Some name
   | toolCallFilter \<Rightarrow> None | toolCallBogus \<Rightarrow> None)"

section \<open>Lemmas\<close>

lemma applyFilteringAndOverrides_eq:
  "applyFilteringAndOverrides config tools =
     filter (\<lambda>t. isToolInFilter config (simple_Name t)) (map (overriddenTool config) tools)"
  by (induction tools) (simp_all add: Let_def)

lemma override_lookups [simp]:
  "getToolListOverride c n = map_of (tmc_actualToUserOverride c) n"
  "getToolCallActualName c n = map_option toe_ActualName (map_of (tmc_userToActualOverride c) n)"
  by (auto simp: getToolListOverride_def getToolCallActualName_def)

fun option_overrides :: "ToolMiddlewareOption list \<Rightarrow> toolOverrideEntry list" where
  "option_overrides [] = []"
| "option_overrides (WithToolsFilter fs # opts) = option_overrides opts"
| "option_overrides (WithToolsOverride a n d # opts) =
     \<lparr>toe_ActualName = a, toe_OverrideName = n, toe_OverrideDescription = d\<rparr> # option_overrides opts"

text \<open>No two overrides are about the same tool, and no two give the same name.\<close>

definition overrides_distinct :: "toolOverrideEntry list \<Rightarrow> bool" where
  "overrides_distinct es \<longleftrightarrow> distinct (map toe_ActualName es)
     \<and> distinct (filter (\<lambda>n. n \<noteq> '''') (map toe_OverrideName es))"

lemma addFilters_overrides:
  "addFilters fs c = Inr c' \<Longrightarrow> tmc_actualToUserOverride c' = tmc_actualToUserOverride c
     \<and> tmc_userToActualOverride c' = tmc_userToActualOverride c"
  by (induction fs c rule: addFilters.induct) (auto split: if_splits)

text \<open>The two maps a valid list of options builds hold its overrides, later ones first.\<close>

lemma applyOptions_maps:
  "applyOptions opts c = Inr c' \<Longrightarrow>
     tmc_actualToUserOverride c' = fold (\<lambda>e. AList.update (toe_ActualName e) e) (option_overrides opts) (tmc_actualToUserOverride c)
   \<and> tmc_userToActualOverride c' = fold (\<lambda>e. AList.update (toe_OverrideName e) e) (option_overrides opts) (tmc_userToActualOverride c)"
proof (induction opts arbitrary: c)
  case (Cons opt opts)
  show ?case
  proof (cases opt)
    case (WithToolsFilter fs)
    then obtain c1 where "addFilters fs c = Inr c1" "applyOptions opts c1 = Inr c'"
      using Cons.prems by (auto split: sum.splits)
    then show ?thesis using Cons.IH [of c1] addFilters_overrides [of fs c c1] WithToolsFilter by simp
  next
    case (WithToolsOverride a n d)
    then show ?thesis using Cons by (auto simp: Let_def split: if_splits)
  qed
qed simp

lemma fold_update_other:
  "k \<notin> f ` set es \<Longrightarrow> map_of (fold (\<lambda>e. AList.update (f e) e) es m) k = map_of m k"
  by (induction es arbitrary: m) auto

lemma fold_update_lookup:
  "map_of (fold (\<lambda>e. AList.update (f e) e) es m) k = (case find (\<lambda>e. f e = k) (rev es) of
     Some e \<Rightarrow> Some e | None \<Rightarrow> map_of m k)"
  by (induction es rule: rev_induct) auto

lemma distinct_filter_unique:
  "distinct (filter P (map f xs)) \<Longrightarrow> x \<in> set xs \<Longrightarrow> y \<in> set xs \<Longrightarrow> f x = f y \<Longrightarrow> P (f x) \<Longrightarrow> x = y"
  by (induction xs) (auto simp: rev_image_eqI split: if_splits)

text \<open>With distinct overrides each map finds exactly the override it should.\<close>

lemma override_maps:
  assumes c: "applyOptions opts emptyConfig = Inr c" and d: "overrides_distinct (option_overrides opts)"
  shows "map_of (tmc_actualToUserOverride c) a = Some e \<longleftrightarrow> e \<in> set (option_overrides opts) \<and> toe_ActualName e = a"
    and "n \<noteq> '''' \<Longrightarrow> map_of (tmc_userToActualOverride c) n = Some e \<longleftrightarrow>
      e \<in> set (option_overrides opts) \<and> toe_OverrideName e = n"
proof -
  let ?es = "option_overrides opts"
  have actual: "find (\<lambda>e. toe_ActualName e = a) (rev ?es) = Some e \<longleftrightarrow> e \<in> set (rev ?es) \<and> toe_ActualName e = a"
    by (rule find_unique_iff) (use d distinct_keys_unique [of toe_ActualName ?es] in \<open>auto simp: overrides_distinct_def\<close>)
  have user: "find (\<lambda>e. toe_OverrideName e = n) (rev ?es) = Some e \<longleftrightarrow> e \<in> set (rev ?es) \<and> toe_OverrideName e = n"
    if "n \<noteq> ''''"
    by (rule find_unique_iff)
      (use that d distinct_filter_unique [of "\<lambda>n. n \<noteq> ''''" toe_OverrideName ?es] in \<open>auto simp: overrides_distinct_def\<close>)
  note maps = applyOptions_maps [OF c]
  show "map_of (tmc_actualToUserOverride c) a = Some e \<longleftrightarrow> e \<in> set ?es \<and> toe_ActualName e = a"
    using actual by (cases "find (\<lambda>e. toe_ActualName e = a) (rev ?es)") (simp_all add: maps fold_update_lookup emptyConfig_def)
  show "map_of (tmc_userToActualOverride c) n = Some e \<longleftrightarrow> e \<in> set ?es \<and> toe_OverrideName e = n" if "n \<noteq> ''''"
    using user [OF that] by (cases "find (\<lambda>e. toe_OverrideName e = n) (rev ?es)")
      (simp_all add: maps fold_update_lookup emptyConfig_def)
qed

section \<open>Properties\<close>

definition renamed :: "toolOverrideEntry list \<Rightarrow> string \<Rightarrow> bool" where
  "renamed es n \<longleftrightarrow> (\<exists>e \<in> set es. toe_ActualName e = n \<and> toe_OverrideName e \<noteq> '''')"

lemma called_tool_eq:
  "n \<noteq> '''' \<Longrightarrow> called_tool c n = (if \<not> isToolInFilter c n then None
     else case map_of (tmc_userToActualOverride c) n of Some e \<Rightarrow> Some (toe_ActualName e) | None \<Rightarrow> Some n)"
  by (auto simp: called_tool_def processToolCallRequest_def split: option.splits)

lemma visible_name:
  assumes "applyOptions opts emptyConfig = Inr c" and "overrides_distinct (option_overrides opts)"
  shows "simple_Name (overriddenTool c t) = (case find (\<lambda>e. toe_ActualName e = simple_Name t) (option_overrides opts) of
    Some e \<Rightarrow> if toe_OverrideName e \<noteq> '''' then toe_OverrideName e else simple_Name t | None \<Rightarrow> simple_Name t)"
proof -
  let ?es = "option_overrides opts" and ?n = "simple_Name t"
  have "find (\<lambda>e. toe_ActualName e = ?n) ?es = Some e \<longleftrightarrow> e \<in> set ?es \<and> toe_ActualName e = ?n" for e
    by (rule find_unique_iff) (use assms(2) distinct_keys_unique [of toe_ActualName ?es] in \<open>auto simp: overrides_distinct_def\<close>)
  then have "find (\<lambda>e. toe_ActualName e = ?n) ?es = map_of (tmc_actualToUserOverride c) ?n"
    using override_maps(1) [OF assms, of ?n] by (metis not_Some_eq)
  then show ?thesis by (simp add: overriddenTool_def split: option.splits)
qed

text \<open>
  A tool that passes the filter is the tool a call by its visible name reaches, and a tool the filter hides cannot be called by that
  name. Overrides may even exchange names, as long as no two name the same tool or give the same name and an override name that
  some tool already has belongs to a tool that is itself renamed.
\<close>

lemma list_call_roundtrip:
  assumes c: "applyOptions opts emptyConfig = Inr c" and d: "overrides_distinct (option_overrides opts)"
    and name: "simple_Name t \<noteq> ''''"
    and clash: "simple_Name t \<in> toe_OverrideName ` set (option_overrides opts) \<longrightarrow> renamed (option_overrides opts) (simple_Name t)"
  shows "called_tool c (simple_Name (overriddenTool c t)) =
    (if overriddenTool c t \<in> set (applyFilteringAndOverrides c [t]) then Some (simple_Name t) else None)"
proof -
  let ?es = "option_overrides opts" and ?v = "simple_Name (overriddenTool c t)"
  have listed: "overriddenTool c t \<in> set (applyFilteringAndOverrides c [t]) \<longleftrightarrow> isToolInFilter c ?v"
    by (simp add: applyFilteringAndOverrides_eq)
  have v: "?v \<noteq> '''' \<and> (case map_of (tmc_userToActualOverride c) ?v of Some e \<Rightarrow> toe_ActualName e | None \<Rightarrow> ?v) = simple_Name t"
  proof (cases "find (\<lambda>e. toe_ActualName e = simple_Name t) ?es")
    case None
    have "\<not> renamed ?es (simple_Name t)" using None by (auto simp: renamed_def find_None_iff)
    moreover have "?v = simple_Name t" using visible_name [OF c d, of t] None by simp
    moreover have "map_of (tmc_userToActualOverride c) (simple_Name t) = None"
      using override_maps(2) [OF c d name] calculation(1) clash by (metis image_eqI not_Some_eq)
    ultimately show ?thesis using name by simp
  next
    case (Some e)
    then have e: "e \<in> set ?es" "toe_ActualName e = simple_Name t" using find_Some by fastforce+
    show ?thesis
    proof (cases "toe_OverrideName e = ''''")
      case True
      have "\<not> renamed ?es (simple_Name t)"
      proof
        assume "renamed ?es (simple_Name t)"
        then obtain e' where "e' \<in> set ?es" "toe_ActualName e' = simple_Name t" "toe_OverrideName e' \<noteq> ''''"
          by (auto simp: renamed_def)
        moreover have "e' = e" using calculation e d by (intro distinct_keys_unique [of toe_ActualName ?es]) (simp_all add: overrides_distinct_def)
        ultimately show False using True by simp
      qed
      moreover have "?v = simple_Name t" using visible_name [OF c d, of t] Some True by simp
      moreover have "map_of (tmc_userToActualOverride c) (simple_Name t) = None"
        using override_maps(2) [OF c d name] calculation(1) clash by (metis image_eqI not_Some_eq)
      ultimately show ?thesis using name by simp
    next
      case False
      then have "?v = toe_OverrideName e" using visible_name [OF c d, of t] Some by simp
      moreover have "map_of (tmc_userToActualOverride c) (toe_OverrideName e) = Some e"
        using override_maps(2) [OF c d False] e by simp
      ultimately show ?thesis using False e by simp
    qed
  qed
  then show ?thesis using called_tool_eq [of ?v c] by (auto simp: listed split: option.splits)
qed

lemma findOriginalName_override:
  assumes c: "applyOptions opts emptyConfig = Inr c" and d: "overrides_distinct (option_overrides opts)" and v: "v \<noteq> ''''"
  shows "e \<in> set (option_overrides opts) \<Longrightarrow> toe_OverrideName e = v \<Longrightarrow> findOriginalName c v = toe_ActualName e"
    and "v \<notin> toe_OverrideName ` set (option_overrides opts) \<Longrightarrow> findOriginalName c v = v"
proof -
  let ?es = "option_overrides opts" and ?m = "tmc_actualToUserOverride c"
  have "gomap_ok (fold (\<lambda>e. AList.update (toe_ActualName e) e) es m)" if "gomap_ok m"
    for es :: "toolOverrideEntry list" and m
    using that by (induction es arbitrary: m) simp_all
  then have "gomap_ok ?m" using applyOptions_maps [OF c] by (simp add: emptyConfig_def)
  then have mem: "(a, e) \<in> set ?m \<longleftrightarrow> e \<in> set ?es \<and> toe_ActualName e = a" for a e
    using override_maps(1) [OF c d, of a e] gomap_ok_lookup by metis
  show "findOriginalName c v = toe_ActualName e" if e: "e \<in> set ?es" "toe_OverrideName e = v"
  proof -
    have "find (\<lambda>(a, x). toe_OverrideName x = v) ?m = Some (toe_ActualName e, e) \<longleftrightarrow>
        (toe_ActualName e, e) \<in> set ?m \<and> (\<lambda>(a, x). toe_OverrideName x = v) (toe_ActualName e, e)"
    proof (rule find_unique_iff)
      fix p q
      assume "p \<in> set ?m" "q \<in> set ?m" "(\<lambda>(a, x). toe_OverrideName x = v) p" "(\<lambda>(a, x). toe_OverrideName x = v) q"
      then have pq: "p = (toe_ActualName (snd p), snd p)" "q = (toe_ActualName (snd q), snd q)" "snd p \<in> set ?es" "snd q \<in> set ?es"
          "toe_OverrideName (snd q) = toe_OverrideName (snd p)" "toe_OverrideName (snd q) \<noteq> ''''"
        using v mem [of "fst p" "snd p"] mem [of "fst q" "snd q"] by auto
      then have "snd q = snd p"
        using d distinct_filter_unique [of "\<lambda>n. n \<noteq> ''''" toe_OverrideName ?es "snd q" "snd p"] by (simp add: overrides_distinct_def)
      then show "q = p" using pq(1,2) by simp
    qed
    then show ?thesis using e mem by (simp add: findOriginalName_def)
  qed
  show "findOriginalName c v = v" if "v \<notin> toe_OverrideName ` set ?es"
  proof -
    have "find (\<lambda>(a, x). toe_OverrideName x = v) ?m = None" using that mem by (auto simp: find_None_iff)
    then show ?thesis by (simp add: findOriginalName_def)
  qed
qed

lemma simpleTools_Inr:
  "simpleTools tools = Inr simples \<Longrightarrow>
   list_all2 (\<lambda>s tool. as_string (map_of tool ''name'') = Some (simple_Name s) \<and> simple_Name s \<noteq> '''') simples tools"
proof (induction tools arbitrary: simples)
  case (Cons tool tools)
  then show ?case by (auto split: option.splits if_splits sum.splits)
qed simp

text \<open>When no override gives a tool the own name of another, the search for the original of a listed tool finds the tool itself.\<close>

lemma original_of_listed:
  assumes c: "applyOptions opts emptyConfig = Inr c" and d: "overrides_distinct (option_overrides opts)"
    and own: "\<forall>e \<in> set (option_overrides opts). \<forall>t \<in> set simples. toe_OverrideName e = simple_Name t \<longrightarrow> toe_ActualName e = simple_Name t"
    and s: "s \<in> set simples" "simple_Name s \<noteq> ''''" and t: "t \<in> set simples"
  shows "(simple_Name t = simple_Name (overriddenTool c s) \<or> simple_Name t = findOriginalName c (simple_Name (overriddenTool c s)))
    \<longleftrightarrow> simple_Name t = simple_Name s"
proof -
  let ?es = "option_overrides opts" and ?v = "simple_Name (overriddenTool c s)"
  have same: "findOriginalName c (simple_Name s) = simple_Name s"
  proof (cases "simple_Name s \<in> toe_OverrideName ` set ?es")
    case True
    then obtain e where e: "e \<in> set ?es" "toe_OverrideName e = simple_Name s" by auto
    then show ?thesis using findOriginalName_override(1) [OF c d s(2) e] own s(1) by simp
  qed (rule findOriginalName_override(2) [OF c d s(2)])
  consider "?v = simple_Name s" | e where "e \<in> set ?es" "toe_ActualName e = simple_Name s" "?v = toe_OverrideName e" "?v \<noteq> ''''"
  proof (cases "find (\<lambda>e. toe_ActualName e = simple_Name s) ?es")
    case None
    then show thesis using that(1) visible_name [OF c d, of s] by simp
  next
    case (Some e)
    then have "e \<in> set ?es" "toe_ActualName e = simple_Name s" using find_Some by fastforce+
    then show thesis using that visible_name [OF c d, of s] Some by (cases "toe_OverrideName e = ''''") simp_all
  qed
  then show ?thesis
  proof cases
    case 1
    then show ?thesis using same by auto
  next
    case (2 e)
    then have "findOriginalName c ?v = simple_Name s" using findOriginalName_override(1) [OF c d 2(4,1)] by simp
    then show ?thesis using own t 2 by auto
  qed
qed

lemma filter_map_fst: "filter P (map f (map fst zs)) = map (\<lambda>(s, t). f s) (filter (\<lambda>(s, t). P (f s)) zs)"
  by (induction zs) auto

lemma rebuildTools_own:
  "(\<And>s tool. (s, tool) \<in> set ps \<Longrightarrow> find (\<lambda>(simple, tool). simple_Name simple = simple_Name (f s)
      \<or> simple_Name simple = findOriginalName c (simple_Name (f s))) originals = Some (s, tool)) \<Longrightarrow>
   rebuildTools c originals (map (\<lambda>(s, tool). f s) ps) = map (\<lambda>(s, tool). rebuildTool (f s) tool) ps"
proof (induction ps)
  case (Cons p ps)
  obtain s tool where p: "p = (s, tool)" by fastforce
  have "rebuildTools c originals (map (\<lambda>(s, tool). f s) ps) = map (\<lambda>(s, tool). rebuildTool (f s) tool) ps"
    by (rule Cons.IH, rule Cons.prems) simp
  moreover have "find (\<lambda>(simple, tool). simple_Name simple = simple_Name (f s)
      \<or> simple_Name simple = findOriginalName c (simple_Name (f s))) originals = Some (s, tool)"
    by (rule Cons.prems) (simp add: p)
  ultimately show ?case by (simp add: p)
qed simp

text \<open>
  Claim C35: the response to \<open>tools/list\<close> and the decision on \<open>tools/call\<close> agree. Take options whose overrides are for different tools
  and give different names, and a response whose tools have different names, none of which an override gives to another tool.
  Then \<open>processToolsListResponse\<close> lists, in order, exactly the tools whose visible name passes the filter, each rebuilt from its
  own object: under the visible name, with every field but the name and the description as the backend sent it. A call by the
  visible name of a tool reaches that tool if it is listed and is refused if it is not. (With names exchanged between tools the
  entries get the fields of the wrong tool.)
\<close>

theorem listed_tools_are_called:
  assumes c: "applyOptions opts emptyConfig = Inr c" and d: "overrides_distinct (option_overrides opts)"
    and simples: "simpleTools tools = Inr simples" "distinct (map simple_Name simples)"
    and own: "\<forall>e \<in> set (option_overrides opts). \<forall>t \<in> set simples. toe_OverrideName e = simple_Name t \<longrightarrow> toe_ActualName e = simple_Name t"
  shows "processToolsListResponse c tools = Inr (map (\<lambda>(s, tool). rebuildTool (overriddenTool c s) tool)
      (filter (\<lambda>(s, tool). isToolInFilter c (simple_Name (overriddenTool c s))) (zip simples tools))) \<and>
    (\<forall>(s, tool) \<in> set (zip simples tools). as_string (map_of tool ''name'') = Some (simple_Name s) \<and>
       map_of (rebuildTool (overriddenTool c s) tool) ''name'' = Some (JString (simple_Name (overriddenTool c s))) \<and>
       (\<forall>k. k \<noteq> ''name'' \<and> k \<noteq> ''description'' \<longrightarrow> map_of (rebuildTool (overriddenTool c s) tool) k = map_of tool k) \<and>
       called_tool c (simple_Name (overriddenTool c s)) =
         (if isToolInFilter c (simple_Name (overriddenTool c s)) then Some (simple_Name s) else None))"
proof -
  let ?zs = "zip simples tools" and ?vis = "\<lambda>(s, tool). isToolInFilter c (simple_Name (overriddenTool c s))"
  have names: "list_all2 (\<lambda>s tool. as_string (map_of tool ''name'') = Some (simple_Name s) \<and> simple_Name s \<noteq> '''') simples tools"
    by (rule simpleTools_Inr [OF simples(1)])
  then have len: "length simples = length tools" by (rule list_all2_lengthD)
  have tool: "as_string (map_of tool ''name'') = Some (simple_Name s)" "simple_Name s \<noteq> ''''" "s \<in> set simples"
    if "(s, tool) \<in> set ?zs" for s tool
    using names that by (auto simp: list_all2_iff dest: set_zip_leftD)
  have found: "find (\<lambda>(simple, tool). simple_Name simple = simple_Name (overriddenTool c s)
      \<or> simple_Name simple = findOriginalName c (simple_Name (overriddenTool c s))) ?zs = Some (s, tool)"
    if z: "(s, tool) \<in> set ?zs" for s tool
  proof -
    note orig = original_of_listed [OF c d own tool(3,2) [OF z]]
    have "distinct (map (simple_Name \<circ> fst) ?zs)" using simples(2) len by (simp flip: map_map)
    then have uniq: "p = q" if "p \<in> set ?zs" "q \<in> set ?zs" "simple_Name (fst p) = simple_Name (fst q)" for p q
      using that by (auto intro: distinct_keys_unique [of "simple_Name \<circ> fst" ?zs])
    have "find (\<lambda>(simple, tool). simple_Name simple = simple_Name s) ?zs = Some (s, tool)"
      by (subst find_unique_iff) (use uniq z in fastforce)+
    moreover have "find (\<lambda>(simple, tool). simple_Name simple = simple_Name (overriddenTool c s)
      \<or> simple_Name simple = findOriginalName c (simple_Name (overriddenTool c s))) ?zs =
        find (\<lambda>(simple, tool). simple_Name simple = simple_Name s) ?zs"
      by (rule find_cong [OF refl]) (use orig in \<open>auto dest: set_zip_leftD\<close>)
    ultimately show ?thesis by simp
  qed
  have "applyFilteringAndOverrides c (map fst ?zs) = map (\<lambda>(s, tool). overriddenTool c s) (filter ?vis ?zs)"
    unfolding applyFilteringAndOverrides_eq by (rule filter_map_fst)
  then have "processToolsListResponse c tools = Inr (map (\<lambda>(s, tool). rebuildTool (overriddenTool c s) tool) (filter ?vis ?zs))"
    using simples(1) len found rebuildTools_own [of "filter ?vis ?zs" "overriddenTool c" c ?zs] by (simp add: processToolsListResponse_def)
  moreover have "called_tool c (simple_Name (overriddenTool c s)) =
      (if isToolInFilter c (simple_Name (overriddenTool c s)) then Some (simple_Name s) else None)" if z: "(s, tool) \<in> set ?zs" for s tool
  proof -
    have "simple_Name s \<in> toe_OverrideName ` set (option_overrides opts) \<longrightarrow> renamed (option_overrides opts) (simple_Name s)"
    proof
      assume "simple_Name s \<in> toe_OverrideName ` set (option_overrides opts)"
      then obtain e where e: "e \<in> set (option_overrides opts)" "toe_OverrideName e = simple_Name s" by auto
      then show "renamed (option_overrides opts) (simple_Name s)"
        unfolding renamed_def using own tool(2,3) [OF z] by (intro bexI [OF _ e(1)]) simp
    qed
    from list_call_roundtrip [OF c d tool(2) [OF z] this] show ?thesis by (simp add: applyFilteringAndOverrides_eq)
  qed
  moreover have "map_of (rebuildTool p x) ''name'' = Some (JString (simple_Name p))"
    "k \<noteq> ''name'' \<and> k \<noteq> ''description'' \<longrightarrow> map_of (rebuildTool p x) k = map_of x k" for p x k
    by (simp_all add: rebuildTool_def Let_def)
  ultimately show ?thesis using tool(1) by auto
qed

theorem listed_tools_are_called_witness:
  "\<exists>c. applyOptions [WithToolsFilter [''read''], WithToolsOverride ''git_read'' ''read'' ''Reads''] emptyConfig = Inr c \<and>
     processToolsListResponse c [[(''name'', JString ''git_push''), (''inputSchema'', JString ''p'')], [(''name'', JString ''git_read''), (''inputSchema'', JString ''r'')]]
       = Inr [[(''name'', JString ''read''), (''inputSchema'', JString ''r''), (''description'', JString ''Reads'')]] \<and>
     called_tool c ''read'' = Some ''git_read'' \<and> called_tool c ''git_push'' = None"
proof -
  let ?opts = "[WithToolsFilter [''read''], WithToolsOverride ''git_read'' ''read'' ''Reads'']"
  let ?tools = "[[(''name'', JString ''git_push''), (''inputSchema'', JString ''p'')], [(''name'', JString ''git_read''), (''inputSchema'', JString ''r'')]]"
  let ?simples = "[\<lparr>simple_Name = ''git_push'', simple_Description = ''''\<rparr>, \<lparr>simple_Name = ''git_read'', simple_Description = ''''\<rparr>]"
  let ?e = "\<lparr>toe_ActualName = ''git_read'', toe_OverrideName = ''read'', toe_OverrideDescription = ''Reads''\<rparr>"
  let ?c = "\<lparr>tmc_filterTools = [(''read'', ())], tmc_actualToUserOverride = [(''git_read'', ?e)], tmc_userToActualOverride = [(''read'', ?e)]\<rparr>"
  have c: "applyOptions ?opts emptyConfig = Inr ?c" by code_simp
  have d: "overrides_distinct (option_overrides ?opts)" by (simp add: overrides_distinct_def)
  have simples: "simpleTools ?tools = Inr ?simples" by simp
  have names: "distinct (map simple_Name ?simples)" by simp
  have own: "\<forall>e \<in> set (option_overrides ?opts). \<forall>t \<in> set ?simples. toe_OverrideName e = simple_Name t \<longrightarrow> toe_ActualName e = simple_Name t"
    by simp
  note all = listed_tools_are_called [OF c d simples names own]
  have zip: "(?simples ! 1, ?tools ! 1) \<in> set (zip ?simples ?tools)" "(?simples ! 0, ?tools ! 0) \<in> set (zip ?simples ?tools)" by simp_all
  note called = all [THEN conjunct2, THEN bspec, OF zip(1), unfolded prod.case, THEN conjunct2, THEN conjunct2, THEN conjunct2]
    all [THEN conjunct2, THEN bspec, OF zip(2), unfolded prod.case, THEN conjunct2, THEN conjunct2, THEN conjunct2]
  have shown: "map (\<lambda>(s, tool). rebuildTool (overriddenTool ?c s) tool)
      (filter (\<lambda>(s, tool). isToolInFilter ?c (simple_Name (overriddenTool ?c s))) (zip ?simples ?tools)) =
      [[(''name'', JString ''read''), (''inputSchema'', JString ''r''), (''description'', JString ''Reads'')]]" by code_simp
  have listed: "processToolsListResponse ?c ?tools =
      Inr [[(''name'', JString ''read''), (''inputSchema'', JString ''r''), (''description'', JString ''Reads'')]]"
    by (rule trans [OF all [THEN conjunct1] arg_cong [OF shown, of Inr]])
  have visible: "simple_Name (overriddenTool ?c (?simples ! 1)) = ''read''" "simple_Name (overriddenTool ?c (?simples ! 0)) = ''git_push''"
    "simple_Name (?simples ! 1) = ''git_read''" by code_simp+
  have filtered: "isToolInFilter ?c ''read'' = True" "isToolInFilter ?c ''git_push'' = False" by code_simp+
  have "called_tool ?c ''read'' = Some ''git_read''" "called_tool ?c ''git_push'' = None"
    using called [unfolded visible filtered] by (simp_all only: if_True if_False)
  then show ?thesis by (intro exI [of _ ?c] conjI c listed)
qed

text \<open>
  Exchanging the names of two tools shows a tool with the other's schema: the entry listed
  under the name \<open>b\<close> carries the input schema of the backend's \<open>b\<close>, while calling \<open>b\<close> invokes the
  backend's \<open>a\<close>.
\<close>

theorem swapped_names_show_wrong_schema:
  "\<exists>c tools listed. applyOptions [WithToolsOverride ''a'' ''b'' '''', WithToolsOverride ''b'' ''a'' ''''] emptyConfig = Inr c
    \<and> tools = [[(''name'', JString ''b''), (''inputSchema'', JString ''schema of b'')],
               [(''name'', JString ''a''), (''inputSchema'', JString ''schema of a'')]]
    \<and> processToolsListResponse c tools = Inr listed
    \<and> [(''name'', JString ''b''), (''inputSchema'', JString ''schema of b'')] \<in> set listed
    \<and> called_tool c ''b'' = Some ''a''"
proof -
  let ?ab = "\<lparr>toe_ActualName = ''a'', toe_OverrideName = ''b'', toe_OverrideDescription = ''''\<rparr>"
  let ?ba = "\<lparr>toe_ActualName = ''b'', toe_OverrideName = ''a'', toe_OverrideDescription = ''''\<rparr>"
  let ?c = "\<lparr>tmc_filterTools = [], tmc_actualToUserOverride = [(''a'', ?ab), (''b'', ?ba)],
    tmc_userToActualOverride = [(''b'', ?ab), (''a'', ?ba)]\<rparr>"
  have "applyOptions [WithToolsOverride ''a'' ''b'' '''', WithToolsOverride ''b'' ''a'' ''''] emptyConfig = Inr ?c"
    by (simp add: emptyConfig_def Let_def)
  then show ?thesis
    by (intro exI [of _ ?c])
      (simp add: processToolsListResponse_def applyFilteringAndOverrides_eq overriddenTool_def
        isToolInFilter_def findOriginalName_def rebuildTool_def called_tool_def processToolCallRequest_def)
qed

end
