(* ===== verification/Backend_Registry.thy ===== *)
theory Backend_Registry
  imports Vmcp_Types
begin

text \<open>
  The backend registries of \<open>pkg/vmcp/registry.go\<close>: the immutable one the command line builds, and
  the dynamic one the Kubernetes reconciler mutates, with its version counter. The locale
  \<open>backend_registry\<close> is the Go interface \<open>BackendRegistry\<close>, \<open>dynamic_backend_registry\<close> the interface
  \<open>DynamicRegistry\<close> that extends it; both are interpreted on the code's types.
\<close>

section \<open>The two registries\<close>

record immutableRegistry =
  ir_backends :: "(string, Backend) gomap"

definition NewImmutableRegistry :: "Backend list \<Rightarrow> immutableRegistry" where
  "NewImmutableRegistry backends =
     \<lparr>ir_backends = fold (\<lambda>b. AList.update (b_ID b) b) backends []\<rparr>"

definition immutable_Get :: "immutableRegistry \<Rightarrow> string \<Rightarrow> Backend option" where
  "immutable_Get r backendID = map_of (ir_backends r) backendID"

definition immutable_List :: "immutableRegistry \<Rightarrow> Backend list" where
  "immutable_List r = map (\<lambda>(i, b). b) (ir_backends r)"

definition immutable_Count :: "immutableRegistry \<Rightarrow> nat" where
  "immutable_Count r = length (ir_backends r)"

record dynamicRegistry =
  dr_backends :: "(string, Backend) gomap"
  dr_version :: "64 word"

definition NewDynamicRegistry :: "Backend list \<Rightarrow> dynamicRegistry" where
  "NewDynamicRegistry backends =
     \<lparr>dr_backends = fold (\<lambda>b. AList.update (b_ID b) b) backends [], dr_version = 0\<rparr>"

definition dynamic_Get :: "dynamicRegistry \<Rightarrow> string \<Rightarrow> Backend option" where
  "dynamic_Get r backendID = map_of (dr_backends r) backendID"

definition dynamic_List :: "dynamicRegistry \<Rightarrow> Backend list" where
  "dynamic_List r = map (\<lambda>(i, b). b) (dr_backends r)"

definition dynamic_Count :: "dynamicRegistry \<Rightarrow> nat" where
  "dynamic_Count r = length (dr_backends r)"

definition Upsert :: "Backend \<Rightarrow> dynamicRegistry \<Rightarrow> goerror + dynamicRegistry" where
  "Upsert backend r = (if b_ID backend = '''' then Inl (new_error ''backend ID cannot be empty'')
     else Inr (r\<lparr>dr_backends := AList.update (b_ID backend) backend (dr_backends r),
                 dr_version := dr_version r + 1\<rparr>))"

definition Remove :: "string \<Rightarrow> dynamicRegistry \<Rightarrow> goerror + dynamicRegistry" where
  "Remove backendID r = Inr (r\<lparr>dr_backends := AList.delete backendID (dr_backends r),
     dr_version := dr_version r + 1\<rparr>)"

definition Version :: "dynamicRegistry \<Rightarrow> 64 word" where
  "Version r = dr_version r"

section \<open>The interfaces\<close>

locale backend_registry =
  fixes get :: "'r \<Rightarrow> string \<Rightarrow> Backend option"
    and listing :: "'r \<Rightarrow> Backend list"
    and count :: "'r \<Rightarrow> nat"
    and reg_invar :: "'r \<Rightarrow> bool"
  assumes get_listing: "reg_invar r \<Longrightarrow> get r i = Some b \<longleftrightarrow> b \<in> set (listing r) \<and> b_ID b = i"
    and listing_distinct: "reg_invar r \<Longrightarrow> distinct (map b_ID (listing r))"
    and count_listing: "reg_invar r \<Longrightarrow> count r = length (listing r)"
begin

lemma get_id: "reg_invar r \<Longrightarrow> get r i = Some b \<Longrightarrow> b_ID b = i"
  by (simp add: get_listing)

lemma get_listed: "reg_invar r \<Longrightarrow> b \<in> set (listing r) \<Longrightarrow> get r (b_ID b) = Some b"
  by (simp add: get_listing)

lemma known_ids: "reg_invar r \<Longrightarrow> get r i \<noteq> None \<longleftrightarrow> i \<in> b_ID ` set (listing r)"
  by (auto simp: get_listing)

lemma count_ids: "reg_invar r \<Longrightarrow> count r = card {i. get r i \<noteq> None}"
proof -
  assume inv: "reg_invar r"
  have "{i. get r i \<noteq> None} = set (map b_ID (listing r))" using known_ids [OF inv] by auto
  then have "card {i. get r i \<noteq> None} = length (map b_ID (listing r))"
    using distinct_card [OF listing_distinct [OF inv]] by simp
  then show ?thesis by (simp add: count_listing [OF inv])
qed

text \<open>The target of a known backend carries the ID it was looked up by.\<close>

lemma target_of_known:
  assumes "reg_invar r" and "get r i = Some b"
  shows "\<exists>t. BackendToTarget (get r i) = Some t \<and> t_WorkloadID t = i \<and> t_OriginalCapabilityName t = ''''"
  using assms(2) get_id [OF assms] by (simp add: BackendToTarget_def zero_BackendTarget_def)

end

datatype registry_op = OpUpsert Backend | OpDelete string

text \<open>One call of a sequence of mutations; a rejected call leaves the registry as it is.\<close>

fun registry_step :: "(Backend \<Rightarrow> 'a \<Rightarrow> goerror + 'a) \<Rightarrow> (string \<Rightarrow> 'a \<Rightarrow> goerror + 'a)
    \<Rightarrow> registry_op \<Rightarrow> 'a \<Rightarrow> 'a" where
  "registry_step upsert remove (OpUpsert b) r = (case upsert b r of Inl e \<Rightarrow> r | Inr r' \<Rightarrow> r')"
| "registry_step upsert remove (OpDelete i) r = (case remove i r of Inl e \<Rightarrow> r | Inr r' \<Rightarrow> r')"

fun map_step :: "registry_op \<Rightarrow> (string \<Rightarrow> Backend option) \<Rightarrow> (string \<Rightarrow> Backend option)" where
  "map_step (OpUpsert b) m = (if b_ID b = '''' then m else m(b_ID b \<mapsto> b))"
| "map_step (OpDelete i) m = m(i := None)"

fun accepted :: "registry_op \<Rightarrow> bool" where
  "accepted (OpUpsert b) = (b_ID b \<noteq> '''')"
| "accepted (OpDelete i) = True"

locale dynamic_backend_registry = backend_registry +
  fixes upsert :: "Backend \<Rightarrow> 'a \<Rightarrow> goerror + 'a"
    and remove :: "string \<Rightarrow> 'a \<Rightarrow> goerror + 'a"
    and version :: "'a \<Rightarrow> 64 word"
  assumes upsert_empty: "b_ID b = '''' \<Longrightarrow> \<exists>e. upsert b r = Inl e"
    and upsert_ok: "b_ID b \<noteq> '''' \<Longrightarrow> reg_invar r \<Longrightarrow> \<exists>r'. upsert b r = Inr r' \<and> reg_invar r' \<and>
      get r' = (get r)(b_ID b \<mapsto> b) \<and> version r' = version r + 1"
    and remove_ok: "reg_invar r \<Longrightarrow> \<exists>r'. remove i r = Inr r' \<and> reg_invar r' \<and>
      get r' = (get r)(i := None) \<and> version r' = version r + 1"
begin

lemma step_refines:
  assumes "reg_invar r"
  shows "reg_invar (registry_step upsert remove op r) \<and> get (registry_step upsert remove op r) = map_step op (get r) \<and>
    version (registry_step upsert remove op r) = version r + of_bool (accepted op)"
proof (cases op)
  case (OpUpsert b)
  then show ?thesis
    using assms upsert_empty [of b r] upsert_ok [of b r] by (cases "b_ID b = ''''") auto
next
  case (OpDelete i)
  then show ?thesis using remove_ok [OF assms, of i] by auto
qed

lemma run_refines:
  "reg_invar r \<Longrightarrow> reg_invar (fold (registry_step upsert remove) ops r) \<and> get (fold (registry_step upsert remove) ops r) = fold map_step ops (get r) \<and>
    version (fold (registry_step upsert remove) ops r) = version r + of_nat (length (filter accepted ops))"
  by (induction ops arbitrary: r) (use step_refines in \<open>auto simp: of_bool_def\<close>)

end

section \<open>The code implements them\<close>

definition backends_ok :: "(string, Backend) gomap \<Rightarrow> bool" where
  "backends_ok m \<longleftrightarrow> gomap_ok m \<and> (\<forall>i b. map_of m i = Some b \<longrightarrow> b_ID b = i)"

lemma backends_ok_ops [simp]:
  "backends_ok []" "backends_ok m \<Longrightarrow> backends_ok (AList.update (b_ID b) b m)"
  "backends_ok m \<Longrightarrow> backends_ok (AList.delete i m)"
  by (auto simp: backends_ok_def)

lemma backends_ok_fold [simp]: "backends_ok m \<Longrightarrow> backends_ok (fold (\<lambda>b. AList.update (b_ID b) b) bs m)"
  by (induction bs arbitrary: m) auto

lemma backends_ok_laws:
  assumes "backends_ok m"
  shows "map_of m i = Some b \<longleftrightarrow> b \<in> snd ` set m \<and> b_ID b = i" and "distinct (map (\<lambda>x. b_ID (snd x)) m)"
proof -
  have pair: "b_ID (snd x) = fst x" if "x \<in> set m" for x
    using assms that by (cases x) (auto simp: backends_ok_def gomap_ok_lookup)
  then have "map (\<lambda>x. b_ID (snd x)) m = map fst m" by simp
  then show "distinct (map (\<lambda>x. b_ID (snd x)) m)" using assms unfolding backends_ok_def gomap_ok_def by metis
  show "map_of m i = Some b \<longleftrightarrow> b \<in> snd ` set m \<and> b_ID b = i"
    using assms pair by (force simp: backends_ok_def gomap_ok_lookup [symmetric])
qed

interpretation imreg: backend_registry immutable_Get immutable_List immutable_Count "\<lambda>r. backends_ok (ir_backends r)"
  by unfold_locales
    (simp_all add: immutable_Get_def immutable_List_def immutable_Count_def case_prod_unfold comp_def backends_ok_laws)

interpretation dyreg: dynamic_backend_registry dynamic_Get dynamic_List dynamic_Count
  "\<lambda>r. backends_ok (dr_backends r)" Upsert Remove Version
  by unfold_locales
    (simp_all add: dynamic_Get_def dynamic_List_def dynamic_Count_def Upsert_def Remove_def Version_def
      case_prod_unfold comp_def fun_eq_iff backends_ok_laws)

lemma new_registries_ok [simp]:
  "backends_ok (ir_backends (NewImmutableRegistry bs))" "backends_ok (dr_backends (NewDynamicRegistry bs))"
  by (simp_all add: NewImmutableRegistry_def NewDynamicRegistry_def)

section \<open>Properties\<close>

text \<open>
  Claim C34: The dynamic registry refines a finite map: after any sequence of upserts and removals,
  a lookup returns what the last accepted call about that ID left, the version has grown by one
  for each accepted call (modulo 2 to the power 64), and an upsert with an empty ID changes nothing.
\<close>

theorem dynamic_registry_refines_map:
  "let r = fold (registry_step Upsert Remove) ops (NewDynamicRegistry bs) in
    dynamic_Get r = fold map_step ops (dynamic_Get (NewDynamicRegistry bs))
    \<and> Version r = of_nat (length (filter accepted ops))"
  using dyreg.run_refines [of "NewDynamicRegistry bs" ops] by (simp add: Let_def Version_def NewDynamicRegistry_def)

text \<open>
  The listing, the count and the lookups of a dynamic registry agree in every state it can
  reach: a backend is listed exactly when its ID is found, no ID is listed twice, and the count is
  the number of IDs that are found.
\<close>

theorem dynamic_registry_consistent:
  "let r = fold (registry_step Upsert Remove) ops (NewDynamicRegistry bs) in
    (\<forall>b. b \<in> set (dynamic_List r) \<longleftrightarrow> dynamic_Get r (b_ID b) = Some b)
    \<and> distinct (map b_ID (dynamic_List r)) \<and> dynamic_Count r = card {i. dynamic_Get r i \<noteq> None}"
proof -
  have inv: "backends_ok (dr_backends (fold (registry_step Upsert Remove) ops (NewDynamicRegistry bs)))"
    using dyreg.run_refines [of "NewDynamicRegistry bs" ops] by simp
  show ?thesis
    using dyreg.get_listing [OF inv] dyreg.listing_distinct [OF inv] dyreg.count_ids [OF inv] by (simp add: Let_def)
qed

end
