(* ===== verification/Aggregator.thy ===== *)
theory Aggregator
  imports Capability_Conflicts Tool_Filter Backend_Registry
begin

text \<open>
  The capability aggregator (\<open>default_aggregator.go\<close> and \<open>tool_adapter.go\<close> of
  \<open>pkg/vmcp/aggregator\<close>): query every backend, apply its overrides, resolve conflicts, and merge the
  result into the advertised lists and the routing table. The backend client is the argument
  \<open>listCapabilities\<close>; the backend registry is the argument \<open>get\<close> of the merge stage. Spans, logging and
  the caller's context are left out.
\<close>

section \<open>Tool adapter\<close>

text \<open>The nil entries of \<open>Overrides\<close> are skipped.\<close>

fun override_options :: "(string, ToolOverride option) gomap \<Rightarrow> ToolMiddlewareOption list" where
  "override_options [] = []"
| "override_options ((originalName, None) # rest) = override_options rest"
| "override_options ((originalName, Some override) # rest) =
     WithToolsOverride originalName (tov_Name override) (tov_Description override) # override_options rest"

fun reverseOverrideMap :: "(string, ToolOverride option) gomap \<Rightarrow> (string, string) gomap \<Rightarrow> (string, string) gomap" where
  "reverseOverrideMap [] m = m"
| "reverseOverrideMap ((originalName, None) # rest) m = reverseOverrideMap rest m"
| "reverseOverrideMap ((originalName, Some override) # rest) m = reverseOverrideMap rest
     (if tov_Name override \<noteq> '''' then AList.update (tov_Name override) originalName m else m)"

definition to_simple :: "Tool \<Rightarrow> SimpleTool" where
  "to_simple tool = \<lparr>simple_Name = tool_Name tool, simple_Description = tool_Description tool\<rparr>"

definition originalToolsByName :: "Tool list \<Rightarrow> (string, Tool) gomap" where
  "originalToolsByName tools = fold (\<lambda>tool. AList.update (tool_Name tool) tool) tools []"

definition convert_back :: "string \<Rightarrow> (string, ToolOverride option) gomap \<Rightarrow> Tool list \<Rightarrow> SimpleTool \<Rightarrow> Tool list" where
  "convert_back backendID overrides tools simpleTool =
     (let originalName = (case map_of (reverseOverrideMap overrides []) (simple_Name simpleTool) of
            Some revName \<Rightarrow> revName | None \<Rightarrow> simple_Name simpleTool)
      in case map_of (originalToolsByName tools) originalName of
           None \<Rightarrow> []
         | Some originalTool \<Rightarrow>
             let annotations = (case map_of overrides originalName of
                   Some (Some override) \<Rightarrow> applyAnnotationOverrides (tool_Annotations originalTool) (tov_Annotations override)
                 | _ \<Rightarrow> tool_Annotations originalTool)
             in [\<lparr>tool_Name = simple_Name simpleTool, tool_Description = simple_Description simpleTool,
                  tool_InputSchema = tool_InputSchema originalTool, tool_OutputSchema = tool_OutputSchema originalTool,
                  tool_Annotations = annotations, tool_BackendID = backendID\<rparr>])"

definition processBackendTools :: "string \<Rightarrow> Tool list \<Rightarrow> WorkloadToolConfig option \<Rightarrow> Tool list" where
  "processBackendTools backendID tools workloadConfig = (case workloadConfig of None \<Rightarrow> tools
     | Some cfg \<Rightarrow>
         if length (wtc_Overrides cfg) = 0 then tools
         else case ApplyToolFiltering (override_options (wtc_Overrides cfg)) (map to_simple tools) of
             Inl err \<Rightarrow> tools
           | Inr processed \<Rightarrow> concat (map (convert_back backendID (wtc_Overrides cfg) tools) processed))"

section \<open>Aggregator\<close>

record defaultAggregator =
  da_conflictResolver :: "ConflictResolver option"
  da_toolConfigMap :: "(string, WorkloadToolConfig) gomap"
  da_excludeAllTools :: bool
  da_denyUnlisted :: bool
  da_promptNaming :: promptNaming

fun toolConfigs :: "WorkloadToolConfig option list \<Rightarrow> (string, WorkloadToolConfig) gomap
    \<Rightarrow> (string, WorkloadToolConfig) gomap" where
  "toolConfigs [] m = m"
| "toolConfigs (None # rest) m = toolConfigs rest m"
| "toolConfigs (Some wlConfig # rest) m = toolConfigs rest (AList.update (wtc_Workload wlConfig) wlConfig m)"

definition NewDefaultAggregator :: "ConflictResolver option \<Rightarrow> AggregationConfig option \<Rightarrow> defaultAggregator" where
  "NewDefaultAggregator conflictResolver aggregationConfig =
     \<lparr>da_conflictResolver = conflictResolver,
      da_toolConfigMap = (case aggregationConfig of None \<Rightarrow> [] | Some cfg \<Rightarrow> toolConfigs (ac_Tools cfg) []),
      da_excludeAllTools = (case aggregationConfig of None \<Rightarrow> False | Some cfg \<Rightarrow> ac_ExcludeAllTools cfg),
      da_denyUnlisted = (case aggregationConfig of None \<Rightarrow> False
        | Some cfg \<Rightarrow> ac_DefaultToolVisibility cfg = DefaultToolVisibilityDeny),
      da_promptNaming = promptNamingFromConfig aggregationConfig\<rparr>"

type_synonym list_capabilities = "BackendTarget \<Rightarrow> goerror + CapabilityList"

text \<open>The target of a backend value; \<open>BackendToTarget\<close> returns nil on nil only.\<close>

definition target_of :: "Backend \<Rightarrow> BackendTarget" where
  "target_of backend = (case BackendToTarget (Some backend) of Some t \<Rightarrow> t | None \<Rightarrow> zero_BackendTarget)"

definition query_failed :: "string \<Rightarrow> goerror \<Rightarrow> goerror" where
  "query_failed backendID err = \<lparr>err_chain = ErrBackendQueryFailed # err_chain err,
     err_text = ''failed to query backend capabilities: '' @ backendID @ '': '' @ err_text err\<rparr>"

definition QueryCapabilities :: "list_capabilities \<Rightarrow> defaultAggregator \<Rightarrow> Backend \<Rightarrow> goerror + BackendCapabilities" where
  "QueryCapabilities listCapabilities a backend =
     (case listCapabilities (target_of backend) of Inl err \<Rightarrow> Inl (query_failed (b_ID backend) err)
      | Inr capabilities \<Rightarrow> Inr
          \<lparr>bc_BackendID = b_ID backend,
           bc_Tools = processBackendTools (b_ID backend) (cl_Tools capabilities) (map_of (da_toolConfigMap a) (b_ID backend)),
           bc_Resources = cl_Resources capabilities, bc_ResourceTemplates = cl_ResourceTemplates capabilities,
           bc_Prompts = cl_Prompts capabilities, bc_SupportsLogging = cl_SupportsLogging capabilities,
           bc_SupportsSampling = cl_SupportsSampling capabilities\<rparr>)"

text \<open>
  The queries run concurrently and each stores its result under the lock: \<open>completed\<close> is the order in which
  they do so, a permutation of the backends. No query makes the group fail.
\<close>

definition store_query :: "list_capabilities \<Rightarrow> defaultAggregator \<Rightarrow> Backend \<Rightarrow> (string, BackendCapabilities) gomap
    \<Rightarrow> (string, BackendCapabilities) gomap" where
  "store_query listCapabilities a backend m = (case QueryCapabilities listCapabilities a backend of Inl err \<Rightarrow> m
     | Inr caps \<Rightarrow> AList.update (b_ID backend) caps m)"

definition QueryAllCapabilities :: "list_capabilities \<Rightarrow> defaultAggregator \<Rightarrow> Backend list
    \<Rightarrow> goerror + (string, BackendCapabilities) gomap" where
  "QueryAllCapabilities listCapabilities a completed =
     (let capabilities = fold (store_query listCapabilities a) completed [] in
      if length capabilities = 0 then Inl (new_error ''no backends returned capabilities'') else Inr capabilities)"

definition unmatchedToolConfigWorkloads :: "defaultAggregator \<Rightarrow> Backend list \<Rightarrow> string list" where
  "unmatchedToolConfigWorkloads a backends =
     (if length (da_toolConfigMap a) = 0 then []
      else sort (filter (\<lambda>workload. \<not> list_ex (\<lambda>b. b_ID b = workload) backends) (map fst (da_toolConfigMap a))))"

section \<open>Conflict stage\<close>

definition fallback_add :: "string \<Rightarrow> Tool \<Rightarrow> (string, ResolvedTool) gomap \<Rightarrow> (string, ResolvedTool) gomap" where
  "fallback_add backendID tool resolvedTools =
     (case map_of resolvedTools (tool_Name tool) of Some existing \<Rightarrow> resolvedTools
      | None \<Rightarrow> AList.update (tool_Name tool) (resolved_as (tool_Name tool) tool backendID NoStrategy) resolvedTools)"

definition fallback_resolve :: "(string, Tool list) gomap \<Rightarrow> (string, ResolvedTool) gomap" where
  "fallback_resolve toolsByBackend =
     fold (\<lambda>backendID. fold (fallback_add backendID)
       (case map_of toolsByBackend backendID of None \<Rightarrow> [] | Some tools \<Rightarrow> tools)) (sort (map fst toolsByBackend)) []"

definition resolve_tools :: "ConflictResolver option \<Rightarrow> (string, Tool list) gomap \<Rightarrow> goerror + (string, ResolvedTool) gomap" where
  "resolve_tools conflictResolver toolsByBackend = (case conflictResolver of
     Some r \<Rightarrow> ResolveToolConflicts r toolsByBackend | None \<Rightarrow> Inr (fallback_resolve toolsByBackend))"

definition ResolveConflicts :: "defaultAggregator \<Rightarrow> (string, BackendCapabilities) gomap \<Rightarrow> goerror + ResolvedCapabilities" where
  "ResolveConflicts a capabilities =
     (let toolsByBackend = map (\<lambda>(backendID, caps). (backendID, bc_Tools caps)) capabilities;
          backendIDs = sort (map fst capabilities)
      in case resolve_tools (da_conflictResolver a) toolsByBackend of
           Inl err \<Rightarrow> Inl (wrap_error ''conflict resolution failed: '' err)
         | Inr resolvedTools \<Rightarrow> Inr
             \<lparr>rc_Tools = resolvedTools,
              rc_Resources = resolveResourceConflicts backendIDs capabilities,
              rc_ResourceTemplates = resolveResourceTemplateConflicts backendIDs capabilities,
              rc_Prompts = resolvePromptConflicts (da_promptNaming a) backendIDs capabilities,
              rc_SupportsLogging = list_ex (\<lambda>(backendID, caps). bc_SupportsLogging caps) capabilities,
              rc_SupportsSampling = list_ex (\<lambda>(backendID, caps). bc_SupportsSampling caps) capabilities\<rparr>)"

section \<open>Merge stage\<close>

definition actualBackendCapabilityName :: "(string, WorkloadToolConfig) gomap \<Rightarrow> string \<Rightarrow> string \<Rightarrow> string" where
  "actualBackendCapabilityName toolConfigMap backendID postOverrideName =
     (case map_of toolConfigMap backendID of None \<Rightarrow> postOverrideName
      | Some wlConfig \<Rightarrow>
          (case find (\<lambda>(origName, override). case override of None \<Rightarrow> False | Some o' \<Rightarrow> tov_Name o' = postOverrideName)
             (wtc_Overrides wlConfig) of
             Some (origName, override) \<Rightarrow> origName | None \<Rightarrow> postOverrideName))"

definition shouldAdvertiseTool :: "defaultAggregator \<Rightarrow> string \<Rightarrow> string \<Rightarrow> bool" where
  "shouldAdvertiseTool a backendID originalToolName =
     (if da_excludeAllTools a then False
      else case map_of (da_toolConfigMap a) backendID of
          None \<Rightarrow> \<not> da_denyUnlisted a
        | Some wlConfig \<Rightarrow>
            if wtc_ExcludeAll wlConfig then False
            else if length (wtc_Filter wlConfig) > 0
            then list_ex (\<lambda>allowedTool. allowedTool = originalToolName) (wtc_Filter wlConfig)
            else True)"

text \<open>The routing target of a backend: the minimal target when the registry does not know it.\<close>

definition merge_target :: "(string \<Rightarrow> Backend option) \<Rightarrow> string \<Rightarrow> BackendTarget" where
  "merge_target get backendID = (case get backendID of
     None \<Rightarrow> zero_BackendTarget\<lparr>t_WorkloadID := backendID\<rparr> | Some backend \<Rightarrow> target_of backend)"

definition advertised_tool :: "ResolvedTool \<Rightarrow> Tool" where
  "advertised_tool t = \<lparr>tool_Name = rtool_ResolvedName t, tool_Description = rtool_Description t,
     tool_InputSchema = rtool_InputSchema t, tool_OutputSchema = rtool_OutputSchema t,
     tool_Annotations = rtool_Annotations t, tool_BackendID = rtool_BackendID t\<rparr>"

definition tool_target :: "defaultAggregator \<Rightarrow> (string \<Rightarrow> Backend option) \<Rightarrow> ResolvedTool \<Rightarrow> BackendTarget" where
  "tool_target a get t = (merge_target get (rtool_BackendID t))\<lparr>t_OriginalCapabilityName :=
     actualBackendCapabilityName (da_toolConfigMap a) (rtool_BackendID t) (rtool_OriginalName t)\<rparr>"

definition merge_tool :: "defaultAggregator \<Rightarrow> (string \<Rightarrow> Backend option) \<Rightarrow> ResolvedTool
    \<Rightarrow> Tool list \<times> (string, BackendTarget) gomap \<Rightarrow> Tool list \<times> (string, BackendTarget) gomap" where
  "merge_tool a get t = (\<lambda>(tools, table).
     (if shouldAdvertiseTool a (rtool_BackendID t) (rtool_OriginalName t) then tools @ [advertised_tool t] else tools,
      AList.update (rtool_ResolvedName t) (tool_target a get t) table))"

definition merge_resource :: "(string \<Rightarrow> Backend option) \<Rightarrow> Resource
    \<Rightarrow> Resource list \<times> (string, BackendTarget) gomap \<Rightarrow> Resource list \<times> (string, BackendTarget) gomap" where
  "merge_resource get resource = (\<lambda>(resources, table). case map_of table (res_URI resource) of
     Some existing \<Rightarrow> (resources, table)
   | None \<Rightarrow> (resources @ [resource], AList.update (res_URI resource)
       ((merge_target get (res_BackendID resource))\<lparr>t_OriginalCapabilityName := res_URI resource\<rparr>) table))"

definition mergeResources :: "(string \<Rightarrow> Backend option) \<Rightarrow> Resource list
    \<Rightarrow> (string, BackendTarget) gomap \<Rightarrow> Resource list \<times> (string, BackendTarget) gomap" where
  "mergeResources get resolved table = fold (merge_resource get) resolved ([], table)"

definition merge_template :: "(string \<Rightarrow> Backend option) \<Rightarrow> ResourceTemplate
    \<Rightarrow> ResourceTemplate list \<times> (string, BackendTarget) gomap \<Rightarrow> ResourceTemplate list \<times> (string, BackendTarget) gomap" where
  "merge_template get template = (\<lambda>(templates, table). case map_of table (rt_URITemplate template) of
     Some existing \<Rightarrow> (templates, table)
   | None \<Rightarrow> (templates @ [template],
       AList.update (rt_URITemplate template) (merge_target get (rt_BackendID template)) table))"

definition mergeResourceTemplates :: "(string \<Rightarrow> Backend option) \<Rightarrow> ResourceTemplate list
    \<Rightarrow> (string, BackendTarget) gomap \<Rightarrow> ResourceTemplate list \<times> (string, BackendTarget) gomap" where
  "mergeResourceTemplates get resolved table = fold (merge_template get) resolved ([], table)"

definition merge_prompt :: "(string \<Rightarrow> Backend option) \<Rightarrow> ResolvedPrompt
    \<Rightarrow> Prompt list \<times> (string, BackendTarget) gomap \<Rightarrow> Prompt list \<times> (string, BackendTarget) gomap" where
  "merge_prompt get prompt = (\<lambda>(prompts, table). case map_of table (p_Name (rp_Prompt prompt)) of
     Some existing \<Rightarrow> (prompts, table)
   | None \<Rightarrow> (prompts @ [rp_Prompt prompt], AList.update (p_Name (rp_Prompt prompt))
       ((merge_target get (p_BackendID (rp_Prompt prompt)))\<lparr>t_OriginalCapabilityName := rp_OriginalName prompt\<rparr>) table))"

definition mergePrompts :: "(string \<Rightarrow> Backend option) \<Rightarrow> ResolvedPrompt list
    \<Rightarrow> (string, BackendTarget) gomap \<Rightarrow> Prompt list \<times> (string, BackendTarget) gomap" where
  "mergePrompts get resolved table = fold (merge_prompt get) resolved ([], table)"

definition MergeCapabilities :: "defaultAggregator \<Rightarrow> ResolvedCapabilities \<Rightarrow> (string \<Rightarrow> Backend option)
    \<Rightarrow> goerror + AggregatedCapabilities" where
  "MergeCapabilities a resolved get =
     (let (unsorted, toolTable) = fold (\<lambda>(name, t). merge_tool a get t) (rc_Tools resolved) ([], []);
          tools = sort_key tool_Name unsorted;
          (resources, resourceTable) = mergeResources get (rc_Resources resolved) [];
          (templates, templateTable) = mergeResourceTemplates get (rc_ResourceTemplates resolved) [];
          (prompts, promptTable) = mergePrompts get (rc_Prompts resolved) [];
          conflictStrategy = (case rc_Tools resolved of [] \<Rightarrow> ConflictStrategyPrefix
            | (name, t) # rest \<Rightarrow> rtool_ConflictResolutionApplied t)
      in Inr \<lparr>agg_Tools = tools, agg_CompositeTools = [], agg_Resources = resources, agg_ResourceTemplates = templates,
           agg_Prompts = prompts, agg_SupportsLogging = rc_SupportsLogging resolved,
           agg_SupportsSampling = rc_SupportsSampling resolved,
           agg_RoutingTable = \<lparr>rtab_Tools = toolTable, rtab_Resources = resourceTable,
             rtab_ResourceTemplates = templateTable, rtab_Prompts = promptTable\<rparr>,
           agg_Metadata = \<lparr>am_BackendCount = 0, am_ToolCount = length tools, am_ResourceCount = length resources,
             am_ResourceTemplateCount = length templates, am_PromptCount = length prompts,
             am_ConflictStrategy = conflictStrategy\<rparr>\<rparr>)"

definition AggregateCapabilities :: "list_capabilities \<Rightarrow> defaultAggregator \<Rightarrow> Backend list \<Rightarrow> Backend list
    \<Rightarrow> goerror + AggregatedCapabilities" where
  "AggregateCapabilities listCapabilities a backends completed =
     (let registry = NewImmutableRegistry backends in
      case QueryAllCapabilities listCapabilities a completed of
        Inl err \<Rightarrow> Inl (wrap_error ''failed to query backends: '' err)
      | Inr capabilities \<Rightarrow> (case ResolveConflicts a capabilities of
          Inl err \<Rightarrow> Inl (wrap_error ''failed to resolve conflicts: '' err)
        | Inr resolved \<Rightarrow> (case MergeCapabilities a resolved (immutable_Get registry) of
            Inl err \<Rightarrow> Inl (wrap_error ''failed to merge capabilities: '' err)
          | Inr aggregated \<Rightarrow> Inr (aggregated\<lparr>agg_Metadata :=
              (agg_Metadata aggregated)\<lparr>am_BackendCount := length backends\<rparr>\<rparr>))))"

section \<open>Overrides and their reversal\<close>

definition renames :: "(string, ToolOverride option) gomap \<Rightarrow> string \<Rightarrow> string \<Rightarrow> bool" where
  "renames ovs n v \<longleftrightarrow> v \<noteq> '''' \<and> (\<exists>ov. (n, Some ov) \<in> set ovs \<and> tov_Name ov = v)"

text \<open>
  Overrides that can be reversed on a backend's tools: each changes something, no two give the same name,
  and a new name that another tool of the backend has is the name of a tool that is itself renamed. The
  backend's tools have non-empty, different names.
\<close>

definition overrides_safe :: "(string, ToolOverride option) gomap \<Rightarrow> Tool list \<Rightarrow> bool" where
  "overrides_safe ovs tools \<longleftrightarrow> gomap_ok ovs \<and>
     (\<forall>(n, ov) \<in> set ovs. case ov of None \<Rightarrow> True | Some o' \<Rightarrow> n \<noteq> '''' \<and> (tov_Name o' \<noteq> '''' \<or> tov_Description o' \<noteq> '''')) \<and>
     (\<forall>n n' v. renames ovs n v \<longrightarrow> renames ovs n' v \<longrightarrow> n = n') \<and>
     distinct (map tool_Name tools) \<and>
     (\<forall>t \<in> set tools. tool_Name t \<noteq> '''' \<and>
        (\<forall>n. renames ovs n (tool_Name t) \<longrightarrow> (\<exists>v. renames ovs (tool_Name t) v)))"

definition post_name :: "(string, ToolOverride option) gomap \<Rightarrow> string \<Rightarrow> string" where
  "post_name ovs n = (case map_of ovs n of Some (Some ov) \<Rightarrow> if tov_Name ov \<noteq> '''' then tov_Name ov else n | _ \<Rightarrow> n)"

lemma post_name_cases:
  assumes "gomap_ok ovs"
  shows "(renames ovs n (post_name ovs n)) \<or> post_name ovs n = n \<and> (\<forall>v. \<not> renames ovs n v)"
  using assms by (auto simp: post_name_def renames_def gomap_ok_lookup split: option.splits)

lemma override_options_apply:
  "distinct (map fst ovs) \<Longrightarrow>
   \<forall>(n, ov) \<in> set ovs. case ov of None \<Rightarrow> True | Some o' \<Rightarrow> n \<noteq> '''' \<and> (tov_Name o' \<noteq> '''' \<or> tov_Description o' \<noteq> '''') \<Longrightarrow>
   \<exists>c'. applyOptions (override_options ovs) c = Inr c' \<and> tmc_filterTools c' = tmc_filterTools c \<and>
     (\<forall>n. map_of (tmc_actualToUserOverride c') n = (case map_of ovs n of
        Some (Some ov) \<Rightarrow> Some \<lparr>toe_ActualName = n, toe_OverrideName = tov_Name ov, toe_OverrideDescription = tov_Description ov\<rparr>
      | _ \<Rightarrow> map_of (tmc_actualToUserOverride c) n))"
proof (induction ovs arbitrary: c rule: override_options.induct)
  case (2 n rest)
  then have fresh: "map_of rest n = None" by (simp add: map_of_eq_None_iff)
  obtain c' where "applyOptions (override_options rest) c = Inr c'" "tmc_filterTools c' = tmc_filterTools c"
      "\<forall>n. map_of (tmc_actualToUserOverride c') n = (case map_of rest n of
        Some (Some ov) \<Rightarrow> Some \<lparr>toe_ActualName = n, toe_OverrideName = tov_Name ov, toe_OverrideDescription = tov_Description ov\<rparr>
      | _ \<Rightarrow> map_of (tmc_actualToUserOverride c) n)"
    using "2.IH" [of c] "2.prems" by auto
  then show ?case using fresh by (intro exI [of _ c']) auto
next
  case (3 n ov rest)
  then have fresh: "map_of rest n = None" by (simp add: map_of_eq_None_iff)
  obtain c1 where c1: "applyOption (WithToolsOverride n (tov_Name ov) (tov_Description ov)) c = Inr c1"
      "tmc_filterTools c1 = tmc_filterTools c"
      "map_of (tmc_actualToUserOverride c1) = (map_of (tmc_actualToUserOverride c))(n \<mapsto>
        \<lparr>toe_ActualName = n, toe_OverrideName = tov_Name ov, toe_OverrideDescription = tov_Description ov\<rparr>)"
    using "3.prems" by (auto simp: Let_def)
  obtain c' where "applyOptions (override_options rest) c1 = Inr c'" "tmc_filterTools c' = tmc_filterTools c1"
      "\<forall>n. map_of (tmc_actualToUserOverride c') n = (case map_of rest n of
        Some (Some ov) \<Rightarrow> Some \<lparr>toe_ActualName = n, toe_OverrideName = tov_Name ov, toe_OverrideDescription = tov_Description ov\<rparr>
      | _ \<Rightarrow> map_of (tmc_actualToUserOverride c1) n)"
    using "3.IH" [of c1] "3.prems" by auto
  then show ?case using fresh c1 by (intro exI [of _ c']) (auto split: option.splits)
qed simp

abbreviation named_by :: "string \<Rightarrow> string \<times> ToolOverride option \<Rightarrow> bool" where
  "named_by v \<equiv> \<lambda>(n, ov). case ov of None \<Rightarrow> False | Some o' \<Rightarrow> tov_Name o' = v"

lemma find_renames:
  assumes "v \<noteq> ''''" "set xs = set ovs" "\<forall>n n' v. renames ovs n v \<longrightarrow> renames ovs n' v \<longrightarrow> n = n'"
  shows "map_option fst (find (named_by v) xs) = Some n \<longleftrightarrow> renames ovs n v"
proof
  assume "map_option fst (find (named_by v) xs) = Some n"
  then show "renames ovs n v"
    using find_Some [of "named_by v" xs] assms(1,2) by (fastforce simp: renames_def split: option.splits)
next
  assume r: "renames ovs n v"
  then obtain ov0 where "(n, Some ov0) \<in> set xs" "tov_Name ov0 = v" using assms(2) by (auto simp: renames_def)
  then have "find (named_by v) xs \<noteq> None"
    unfolding find_None_iff by (intro notI) (metis (mono_tags, lifting) case_prod_conv option.simps(5))
  then obtain n' ov where f: "find (named_by v) xs = Some (n', ov)" by auto
  then have "renames ovs n' v"
    using find_Some [OF f] assms(1,2) by (auto simp: renames_def split: option.splits)
  then show "map_option fst (find (named_by v) xs) = Some n" using f r assms(3) by auto
qed

lemma reverse_lookup:
  "v \<noteq> '''' \<Longrightarrow> map_of (reverseOverrideMap ovs m) v = (case map_option fst (find (named_by v) (rev ovs)) of
     Some n \<Rightarrow> Some n | None \<Rightarrow> map_of m v)"
  by (induction ovs m rule: reverseOverrideMap.induct) (auto simp: find_append split: option.splits)

lemma actual_name_eq:
  "map_of cm b = Some cfg \<Longrightarrow> actualBackendCapabilityName cm b v =
     (case map_option fst (find (named_by v) (wtc_Overrides cfg)) of Some n \<Rightarrow> n | None \<Rightarrow> v)"
  by (auto simp: actualBackendCapabilityName_def split: option.splits)

lemma override_reversed:
  assumes safe: "overrides_safe ovs tools" and t: "t \<in> set tools" and xs: "set xs = set ovs"
  shows "post_name ovs (tool_Name t) \<noteq> '''' \<and>
    (case map_option fst (find (named_by (post_name ovs (tool_Name t))) xs) of
      Some n \<Rightarrow> n | None \<Rightarrow> post_name ovs (tool_Name t)) = tool_Name t"
proof -
  let ?n = "tool_Name t" and ?v = "post_name ovs (tool_Name t)"
  have s: "gomap_ok ovs" "\<forall>n n' v. renames ovs n v \<longrightarrow> renames ovs n' v \<longrightarrow> n = n'" "?n \<noteq> ''''"
      "\<And>n. renames ovs n ?n \<Longrightarrow> \<exists>v. renames ovs ?n v"
    using safe t by (auto simp: overrides_safe_def)
  from post_name_cases [OF s(1), of ?n] show ?thesis
  proof
    assume r: "renames ovs ?n ?v"
    then have "?v \<noteq> ''''" by (simp add: renames_def)
    with r show ?thesis using find_renames [OF _ xs s(2), of ?v ?n] by (auto simp del: map_option_eq_Some)
  next
    assume r: "?v = ?n \<and> (\<forall>v. \<not> renames ovs ?n v)"
    have "map_option fst (find (named_by ?n) xs) = None"
    proof (rule ccontr)
      assume "map_option fst (find (named_by ?n) xs) \<noteq> None"
      then obtain m where "map_option fst (find (named_by ?n) xs) = Some m" by (meson not_Some_eq)
      then have "renames ovs m ?n" using find_renames [OF s(3) xs s(2)] by simp
      then show False using s(4) r by blast
    qed
    then show ?thesis using r s(3) by simp
  qed
qed

lemma originalTools_lookup:
  assumes "distinct (map tool_Name tools)" "t \<in> set tools"
  shows "map_of (originalToolsByName tools) (tool_Name t) = Some t"
proof -
  have "find (\<lambda>e. tool_Name e = tool_Name t) (rev tools) = Some t \<longleftrightarrow> t \<in> set (rev tools) \<and> tool_Name t = tool_Name t"
    by (rule find_unique_iff) (use assms distinct_keys_unique [of tool_Name tools] in auto)
  then show ?thesis using assms(2) by (simp add: originalToolsByName_def fold_update_lookup)
qed

lemma convert_back_safe:
  assumes safe: "overrides_safe ovs tools" and t: "t \<in> set tools"
    and st: "simple_Name st = post_name ovs (tool_Name t)"
  shows "\<exists>t'. convert_back b ovs tools st = [t'] \<and> tool_Name t' = post_name ovs (tool_Name t) \<and>
    tool_InputSchema t' = tool_InputSchema t \<and> tool_OutputSchema t' = tool_OutputSchema t"
proof -
  have rev: "post_name ovs (tool_Name t) \<noteq> ''''"
      "(case map_of (reverseOverrideMap ovs []) (simple_Name st) of Some n \<Rightarrow> n | None \<Rightarrow> simple_Name st) = tool_Name t"
    using override_reversed [OF safe t, of "rev ovs"]
    by (auto simp: st reverse_lookup simp del: map_option_eq_Some split: option.splits)
  have "map_of (originalToolsByName tools) (tool_Name t) = Some t"
    using safe t by (intro originalTools_lookup) (auto simp: overrides_safe_def)
  then show ?thesis unfolding convert_back_def Let_def rev(2) by (simp add: st)
qed

text \<open>The tools a backend contributes, as the merge stage can reverse them.\<close>

definition tool_config_safe :: "WorkloadToolConfig option \<Rightarrow> Tool list \<Rightarrow> bool" where
  "tool_config_safe cfg tools = overrides_safe (case cfg of None \<Rightarrow> [] | Some c \<Rightarrow> wtc_Overrides c) tools"

lemma processBackendTools_safe:
  assumes safe: "overrides_safe (wtc_Overrides cfg) tools" and ne: "wtc_Overrides cfg \<noteq> []"
  shows "list_all2 (\<lambda>t t'. tool_Name t' = post_name (wtc_Overrides cfg) (tool_Name t) \<and>
      tool_InputSchema t' = tool_InputSchema t \<and> tool_OutputSchema t' = tool_OutputSchema t)
    tools (processBackendTools b tools (Some cfg))"
proof -
  let ?ovs = "wtc_Overrides cfg"
  obtain c where c: "applyOptions (override_options ?ovs) emptyConfig = Inr c" "tmc_filterTools c = tmc_filterTools emptyConfig"
      "\<forall>n. map_of (tmc_actualToUserOverride c) n = (case map_of ?ovs n of
        Some (Some ov) \<Rightarrow> Some \<lparr>toe_ActualName = n, toe_OverrideName = tov_Name ov, toe_OverrideDescription = tov_Description ov\<rparr>
      | _ \<Rightarrow> map_of (tmc_actualToUserOverride emptyConfig) n)"
    using override_options_apply [of ?ovs emptyConfig] safe unfolding overrides_safe_def gomap_ok_def by blast
  have "simple_Name (overriddenTool c (to_simple t)) = post_name ?ovs (tool_Name t)" for t
    using c(3) by (simp add: overriddenTool_def to_simple_def post_name_def emptyConfig_def split: option.splits)
  then have conv: "\<exists>t'. convert_back b ?ovs tools (overriddenTool c (to_simple t)) = [t'] \<and>
      tool_Name t' = post_name ?ovs (tool_Name t) \<and>
      tool_InputSchema t' = tool_InputSchema t \<and> tool_OutputSchema t' = tool_OutputSchema t" if "t \<in> set tools" for t
    using convert_back_safe [OF safe that] by blast
  have "processBackendTools b tools (Some cfg) =
      concat (map (\<lambda>t. convert_back b ?ovs tools (overriddenTool c (to_simple t))) tools)"
    using ne c(1,2) by (simp add: processBackendTools_def ApplyToolFiltering_def applyFilteringAndOverrides_eq
        isToolInFilter_def emptyConfig_def comp_def)
  moreover have "list_all2 (\<lambda>t t'. tool_Name t' = post_name ?ovs (tool_Name t) \<and>
      tool_InputSchema t' = tool_InputSchema t \<and> tool_OutputSchema t' = tool_OutputSchema t)
    ts (concat (map (\<lambda>t. convert_back b ?ovs tools (overriddenTool c (to_simple t))) ts))" if "set ts \<subseteq> set tools" for ts
    using that
  proof (induction ts)
    case (Cons t ts)
    from conv [of t] Cons show ?case by auto
  qed simp
  ultimately show ?thesis by simp
qed

lemma override_reversible:
  assumes "map_of cm b = cfg" and "tool_config_safe cfg tools"
  shows "list_all2 (\<lambda>t t'. actualBackendCapabilityName cm b (tool_Name t') = tool_Name t \<and>
      tool_InputSchema t' = tool_InputSchema t \<and> tool_OutputSchema t' = tool_OutputSchema t)
    tools (processBackendTools b tools cfg)"
proof (cases "\<exists>c. cfg = Some c \<and> wtc_Overrides c \<noteq> []")
  case True
  then obtain c where c: "cfg = Some c" "wtc_Overrides c \<noteq> []" by blast
  have safe: "overrides_safe (wtc_Overrides c) tools" using assms(2) c(1) by (simp add: tool_config_safe_def)
  have "actualBackendCapabilityName cm b (post_name (wtc_Overrides c) (tool_Name t)) = tool_Name t" if "t \<in> set tools" for t
    using override_reversed [OF safe that refl] assms(1) c(1) by (simp add: actual_name_eq)
  moreover have "list_all2 (\<lambda>t t'. tool_Name t' = post_name (wtc_Overrides c) (tool_Name t) \<and>
      tool_InputSchema t' = tool_InputSchema t \<and> tool_OutputSchema t' = tool_OutputSchema t)
    tools (processBackendTools b tools (Some c))"
    by (rule processBackendTools_safe [OF safe c(2)])
  ultimately show ?thesis unfolding c(1) by (elim list.rel_mono_strong) auto
next
  case False
  then have "processBackendTools b tools cfg = tools" by (auto simp: processBackendTools_def split: option.split)
  moreover have "actualBackendCapabilityName cm b n = n" for n
    using False assms(1) by (auto simp: actualBackendCapabilityName_def split: option.split)
  ultimately show ?thesis by (simp add: list_all2_same)
qed

text \<open>
  Claim C31: round trip of tool overrides. When the overrides of a backend can be reversed, applying them to its tools loses no
  tool and keeps their order and schemas, and the name the merge stage computes from each name after
  overrides is the backend's own name of that tool.
\<close>

theorem override_roundtrip:
  assumes "map_of cm b = cfg" and "tool_config_safe cfg tools"
  shows "list_all2 (\<lambda>t t'. actualBackendCapabilityName cm b (tool_Name t') = tool_Name t \<and>
      tool_InputSchema t' = tool_InputSchema t \<and> tool_OutputSchema t' = tool_OutputSchema t)
    tools (processBackendTools b tools cfg)"
  by (rule override_reversible [OF assms])

theorem override_roundtrip_witness:
  "let ov = (\<lambda>n. Some \<lparr>tov_Name = n, tov_Description = '''', tov_Annotations = None\<rparr>);
       cfg = \<lparr>wtc_Workload = ''b'', wtc_ToolConfigRef = None, wtc_Filter = [],
         wtc_Overrides = [(''x'', ov ''y''), (''y'', ov ''x'')], wtc_ExcludeAll = False\<rparr>;
       tools = [simple_tool ''x'', simple_tool ''y'']
   in map tool_Name (processBackendTools ''b'' tools (Some cfg)) = [''y'', ''x''] \<and>
      list_all2 (\<lambda>t t'. actualBackendCapabilityName [(''b'', cfg)] ''b'' (tool_Name t') = tool_Name t)
        tools (processBackendTools ''b'' tools (Some cfg))"
proof -
  let ?ov = "\<lambda>n. Some \<lparr>tov_Name = n, tov_Description = '''', tov_Annotations = None\<rparr>"
  let ?cfg = "\<lparr>wtc_Workload = ''b'', wtc_ToolConfigRef = None, wtc_Filter = [],
         wtc_Overrides = [(''x'', ?ov ''y''), (''y'', ?ov ''x'')], wtc_ExcludeAll = False\<rparr>"
  let ?tools = "[simple_tool ''x'', simple_tool ''y'']"
  have "tool_config_safe (Some ?cfg) ?tools"
    by (auto simp: tool_config_safe_def overrides_safe_def renames_def gomap_ok_def simple_tool_def)
  from override_roundtrip [OF _ this, of "[(''b'', ?cfg)]" "''b''"]
  have "list_all2 (\<lambda>t t'. actualBackendCapabilityName [(''b'', ?cfg)] ''b'' (tool_Name t') = tool_Name t)
      ?tools (processBackendTools ''b'' ?tools (Some ?cfg))"
    by (auto elim: list.rel_mono_strong)
  then show ?thesis unfolding Let_def by (intro conjI) (code_simp, assumption)
qed

section \<open>The conflict stage as a resolver\<close>

lemma fallback_resolved_ok: "resolved_ok tb (fallback_resolve tb)"
proof -
  have add: "resolved_ok tb m \<Longrightarrow> offers tb b t \<Longrightarrow> resolved_ok tb (fallback_add b t m)" for b t m
    by (simp add: fallback_add_def split: option.split)
  have tools: "resolved_ok tb (fold (fallback_add b) ts m)" if "resolved_ok tb m" "\<forall>t \<in> set ts. offers tb b t" for b ts m
    using that by (induction ts arbitrary: m) (simp_all add: add)
  have "\<forall>t \<in> set (case map_of tb b of None \<Rightarrow> [] | Some tools \<Rightarrow> tools). offers tb b t" for b
    by (cases "map_of tb b") (auto simp: offers_def dest: map_of_SomeD)
  then have "resolved_ok tb (fold (\<lambda>b. fold (fallback_add b) (case map_of tb b of None \<Rightarrow> [] | Some tools \<Rightarrow> tools)) bs m)"
    if "resolved_ok tb m" for bs m
    using that tools by (induction bs arbitrary: m) simp_all
  then show ?thesis by (simp add: fallback_resolve_def)
qed

interpretation agg_cr: conflict_resolver resolve_tools
proof unfold_locales
  show "resolve_tools r tb = Inr m \<Longrightarrow> resolved_ok tb m" for r tb m
    using any_cr.resolve_ok fallback_resolved_ok by (auto simp: resolve_tools_def split: option.splits)
qed

section \<open>The merge stage\<close>

lemma merge_tools_fold:
  "\<forall>(n, t) \<in> set m. rtool_ResolvedName t = n \<Longrightarrow> distinct (map fst m) \<Longrightarrow> fst ` set m \<inter> fst ` set table = {} \<Longrightarrow>
   fold (\<lambda>(name, t). merge_tool a get t) m (tools, table) =
     (tools @ map (advertised_tool \<circ> snd) (filter (\<lambda>(n, t). shouldAdvertiseTool a (rtool_BackendID t) (rtool_OriginalName t)) m),
      table @ map (\<lambda>(n, t). (n, tool_target a get t)) m)"
proof (induction m arbitrary: tools table)
  case (Cons x m)
  obtain n t where x: "x = (n, t)" by fastforce
  then have "n \<notin> fst ` set table" "rtool_ResolvedName t = n" using Cons.prems by auto
  then have step: "merge_tool a get t (tools, table) =
      (if shouldAdvertiseTool a (rtool_BackendID t) (rtool_OriginalName t) then tools @ [advertised_tool t] else tools,
       table @ [(n, tool_target a get t)])"
    by (simp add: merge_tool_def update_new)
  have "fst ` set m \<inter> fst ` set (table @ [(n, tool_target a get t)]) = {}" using Cons.prems x by auto
  then show ?case using Cons.IH [of "table @ [(n, tool_target a get t)]"] Cons.prems x by (simp add: step)
qed simp

lemma map_of_values: "map_of (map (\<lambda>(k, v). (k, f v)) m) k = map_option f (map_of m k)"
  by (induction m) auto

lemma sort_key_distinct: "distinct (map f xs) \<Longrightarrow> distinct (map f (sort_key f xs))"
  by (simp add: distinct_map)

lemma merge_tools:
  assumes ok: "resolved_ok tb (rc_Tools resolved)" and agg: "MergeCapabilities a resolved get = Inr agg"
  shows "agg_Tools agg = sort_key tool_Name (map (advertised_tool \<circ> snd) (filter (\<lambda>(n, t).
      shouldAdvertiseTool a (rtool_BackendID t) (rtool_OriginalName t)) (rc_Tools resolved))) \<and>
    rtab_Tools (agg_RoutingTable agg) = map (\<lambda>(n, t). (n, tool_target a get t)) (rc_Tools resolved)"
proof -
  have "\<forall>(n, t) \<in> set (rc_Tools resolved). rtool_ResolvedName t = n"
    using ok by (auto simp: resolved_ok_def gomap_ok_lookup)
  moreover have "distinct (map fst (rc_Tools resolved))" using ok by (simp add: resolved_ok_def gomap_ok_def)
  ultimately have "fold (\<lambda>(name, t). merge_tool a get t) (rc_Tools resolved) ([], []) =
      (map (advertised_tool \<circ> snd) (filter (\<lambda>(n, t). shouldAdvertiseTool a (rtool_BackendID t) (rtool_OriginalName t))
         (rc_Tools resolved)), map (\<lambda>(n, t). (n, tool_target a get t)) (rc_Tools resolved))"
    by (simp add: merge_tools_fold)
  with agg show ?thesis by (auto simp: MergeCapabilities_def case_prod_beta Let_def)
qed

text \<open>
  Hiding a tool never makes it unreachable. After the merge, exactly the resolved tools are routed,
  each to its backend under the name the backend knows; the advertised tools are, sorted and with
  different names, those of them the filters let through.
\<close>

theorem merge_routes_every_tool:
  assumes "resolved_ok tb (rc_Tools resolved)" and "MergeCapabilities a resolved get = Inr agg"
  shows "(\<forall>n. map_of (rtab_Tools (agg_RoutingTable agg)) n = map_option (tool_target a get) (map_of (rc_Tools resolved) n)) \<and>
    set (agg_Tools agg) = advertised_tool ` {t. map_of (rc_Tools resolved) (rtool_ResolvedName t) = Some t \<and>
      shouldAdvertiseTool a (rtool_BackendID t) (rtool_OriginalName t)} \<and>
    sorted (map tool_Name (agg_Tools agg)) \<and> distinct (map tool_Name (agg_Tools agg))"
proof -
  let ?m = "rc_Tools resolved"
  note m = merge_tools [OF assms]
  have ok: "gomap_ok ?m" "\<And>n t. map_of ?m n = Some t \<Longrightarrow> rtool_ResolvedName t = n"
    using assms(1) by (auto simp: resolved_ok_def)
  have keys: "map (rtool_ResolvedName \<circ> snd) ?m = map fst ?m"
    using ok by (auto simp: gomap_ok_lookup)
  have "distinct (map (rtool_ResolvedName \<circ> snd) ?m)" unfolding keys using ok(1) by (simp add: gomap_ok_def)
  then have "distinct (map tool_Name (map (advertised_tool \<circ> snd) (filter P ?m)))" for P
    by (simp add: comp_def advertised_tool_def distinct_map_filter)
  then have "distinct (map tool_Name (agg_Tools agg))" using m by (simp add: sort_key_distinct del: map_map)
  moreover have "set (agg_Tools agg) = advertised_tool ` {t. map_of ?m (rtool_ResolvedName t) = Some t \<and>
      shouldAdvertiseTool a (rtool_BackendID t) (rtool_OriginalName t)}"
  proof -
    have "(n, t) \<in> set ?m \<longleftrightarrow> n = rtool_ResolvedName t \<and> map_of ?m (rtool_ResolvedName t) = Some t" for n t
      using ok by (auto simp: gomap_ok_lookup)
    then have "snd ` {x \<in> set ?m. case x of (n, t) \<Rightarrow> shouldAdvertiseTool a (rtool_BackendID t) (rtool_OriginalName t)} =
        {t. map_of ?m (rtool_ResolvedName t) = Some t \<and> shouldAdvertiseTool a (rtool_BackendID t) (rtool_OriginalName t)}"
      by (auto simp: image_iff)
    then show ?thesis using m by (simp flip: image_image add: image_comp [symmetric])
  qed
  ultimately show ?thesis using m by (simp add: map_of_values)
qed

theorem merge_routes_every_tool_witness:
  "let a = \<lparr>da_conflictResolver = None, da_toolConfigMap = [], da_excludeAllTools = True, da_denyUnlisted = False,
         da_promptNaming = promptNamingFromConfig None\<rparr>;
       resolved = \<lparr>rc_Tools = [(''x'', resolved_as ''x'' (simple_tool ''x'') ''b'' NoStrategy)], rc_Resources = [],
         rc_ResourceTemplates = [], rc_Prompts = [], rc_SupportsLogging = False, rc_SupportsSampling = False\<rparr>
   in \<exists>agg t. MergeCapabilities a resolved (\<lambda>_. None) = Inr agg \<and> agg_Tools agg = [] \<and>
     map_of (rtab_Tools (agg_RoutingTable agg)) ''x'' = Some t \<and> t_WorkloadID t = ''b'' \<and> t_OriginalCapabilityName t = ''x''"
proof -
  let ?a = "\<lparr>da_conflictResolver = None, da_toolConfigMap = [], da_excludeAllTools = True, da_denyUnlisted = False,
         da_promptNaming = promptNamingFromConfig None\<rparr>"
  let ?t = "resolved_as ''x'' (simple_tool ''x'') ''b'' NoStrategy"
  let ?resolved = "\<lparr>rc_Tools = [(''x'', ?t)], rc_Resources = [],
         rc_ResourceTemplates = [], rc_Prompts = [], rc_SupportsLogging = False, rc_SupportsSampling = False\<rparr>"
  have "resolved_ok [(''b'', [simple_tool ''x''])] (rc_Tools ?resolved)"
    by (auto simp: resolved_ok_def gomap_ok_def offers_def)
  moreover obtain agg where agg: "MergeCapabilities ?a ?resolved (\<lambda>_. None) = Inr agg"
    by (simp add: MergeCapabilities_def case_prod_beta Let_def)
  ultimately show ?thesis
    using merge_routes_every_tool [of "[(''b'', [simple_tool ''x''])]" ?resolved ?a "\<lambda>_. None" agg]
    by (auto simp: Let_def shouldAdvertiseTool_def tool_target_def merge_target_def actualBackendCapabilityName_def
        resolved_as_def simple_tool_def zero_BackendTarget_def)
qed

section \<open>The pipeline\<close>

lemma stored_queries:
  assumes "map_of (fold (store_query lc a) bs []) b = Some caps"
  shows "\<exists>backend \<in> set bs. b_ID backend = b \<and> QueryCapabilities lc a backend = Inr caps"
proof -
  have "map_of (fold (store_query lc a) bs m) b = Some caps \<Longrightarrow> map_of m b = Some caps \<or>
      (\<exists>backend \<in> set bs. b_ID backend = b \<and> QueryCapabilities lc a backend = Inr caps)" for m
  proof (induction bs arbitrary: m)
    case (Cons x bs)
    then show ?case using Cons.IH [of "store_query lc a x m"]
      by (cases "QueryCapabilities lc a x") (auto simp: store_query_def split: if_splits)
  qed simp
  from this [of "[]"] assms show ?thesis by simp
qed

lemma target_of_id [simp]: "t_WorkloadID (target_of b) = b_ID b" "t_OriginalCapabilityName (target_of b) = ''''"
  by (simp_all add: target_of_def BackendToTarget_def zero_BackendTarget_def)

lemma registered:
  assumes "distinct (map b_ID backends)" "b \<in> set backends"
  shows "immutable_Get (NewImmutableRegistry backends) (b_ID b) = Some b"
proof -
  have "find (\<lambda>e. b_ID e = b_ID b) (rev backends) = Some b \<longleftrightarrow> b \<in> set (rev backends) \<and> b_ID b = b_ID b"
    by (rule find_unique_iff) (use assms distinct_keys_unique [of b_ID backends] in auto)
  then show ?thesis
    using assms(2) by (simp add: immutable_Get_def NewImmutableRegistry_def fold_update_lookup)
qed

text \<open>A backend's tools after overrides, with the tool of the backend each comes from.\<close>

lemma processed_tool:
  assumes "map_of cm b = cfg" "tool_config_safe cfg tools" "t' \<in> set (processBackendTools b tools cfg)"
  shows "\<exists>t \<in> set tools. actualBackendCapabilityName cm b (tool_Name t') = tool_Name t \<and> tool_Name t \<noteq> '''' \<and>
    tool_InputSchema t' = tool_InputSchema t \<and> tool_OutputSchema t' = tool_OutputSchema t"
proof -
  have "tool_Name t \<noteq> ''''" if "t \<in> set tools" for t
    using that assms(2) by (simp add: tool_config_safe_def overrides_safe_def)
  then show ?thesis
    using override_reversible [OF assms(1,2)] assms(3) by (fastforce simp: list_all2_conv_all_nth in_set_conv_nth)
qed

end
