(* ===== verification/Session_Router.thy ===== *)
theory Session_Router
  imports Vmcp_Types
begin

text \<open>
  The router of a session (\<open>pkg/vmcp/router/session_router.go\<close>), which resolves the names of tools,
  resources and prompts in one routing table. Parsing and matching of URI templates is done by a
  third-party package: the arguments \<open>parse\<close> and \<open>matches\<close> stand for its functions \<open>New\<close> and
  \<open>Match\<close>. The locale \<open>tool_router\<close> is the part of the interface \<open>Router\<close> that composite tools rely on.
\<close>

section \<open>Operations\<close>

record 't compiledResourceTemplate =
  crt_tmpl :: 't
  crt_target :: BackendTarget

record 't sessionRouter =
  sr_routingTable :: "RoutingTable option"
  sr_resourceTemplates :: "'t compiledResourceTemplate list"

fun compile_templates :: "(string \<Rightarrow> 't option) \<Rightarrow> (string, BackendTarget) gomap \<Rightarrow> string list
    \<Rightarrow> 't compiledResourceTemplate list" where
  "compile_templates parse table [] = []"
| "compile_templates parse table (tmplStr # rest) = (case (parse tmplStr, map_of table tmplStr) of
     (Some tmpl, Some target) \<Rightarrow> \<lparr>crt_tmpl = tmpl, crt_target = target\<rparr> # compile_templates parse table rest
   | _ \<Rightarrow> compile_templates parse table rest)"

definition compileResourceTemplates :: "(string \<Rightarrow> 't option) \<Rightarrow> RoutingTable option \<Rightarrow> 't compiledResourceTemplate list" where
  "compileResourceTemplates parse rt = (case rt of None \<Rightarrow> []
     | Some table \<Rightarrow> compile_templates parse (rtab_ResourceTemplates table) (sort (map fst (rtab_ResourceTemplates table))))"

definition NewSessionRouter :: "(string \<Rightarrow> 't option) \<Rightarrow> RoutingTable option \<Rightarrow> 't sessionRouter" where
  "NewSessionRouter parse rt = \<lparr>sr_routingTable = rt, sr_resourceTemplates = compileResourceTemplates parse rt\<rparr>"

text \<open>The pair of a name and \<open>ok\<close> is an option; the loop returns the first entry of one traversal that fits.\<close>

definition ResolveToolRef :: "RoutingTable option \<Rightarrow> string \<Rightarrow> string option" where
  "ResolveToolRef rt stepTool = (case rt of None \<Rightarrow> None
     | Some table \<Rightarrow>
         if stepTool = '''' then None
         else if map_of (rtab_Tools table) stepTool \<noteq> None then Some stepTool
         else case split_at (CHR ''.'') stepTool of
             None \<Rightarrow> None
           | Some (workloadID, capName) \<Rightarrow>
               if workloadID = '''' then None
               else map_option fst (find (\<lambda>(resolvedName, target). t_WorkloadID target = workloadID \<and>
                      GetBackendCapabilityName target resolvedName = capName) (rtab_Tools table)))"

definition not_found :: "sentinel \<Rightarrow> string \<Rightarrow> string \<Rightarrow> goerror" where
  "not_found s text name = \<lparr>err_chain = [s], err_text = text @ '': '' @ name\<rparr>"

definition RouteTool :: "'t sessionRouter \<Rightarrow> string \<Rightarrow> goerror + BackendTarget" where
  "RouteTool r toolName =
     (case (ResolveToolRef (sr_routingTable r) toolName, sr_routingTable r) of
        (Some resolvedName, Some table) \<Rightarrow> (case map_of (rtab_Tools table) resolvedName of
            Some target \<Rightarrow> Inr target | None \<Rightarrow> Inl (not_found ErrToolNotFound ''tool not found'' toolName))
      | _ \<Rightarrow> Inl (not_found ErrToolNotFound ''tool not found'' toolName))"

definition ResolveToolName :: "'t sessionRouter \<Rightarrow> string \<Rightarrow> string" where
  "ResolveToolName r toolName = (case ResolveToolRef (sr_routingTable r) toolName of Some n \<Rightarrow> n | None \<Rightarrow> toolName)"

definition matchResourceTemplate :: "('t \<Rightarrow> string \<Rightarrow> bool) \<Rightarrow> 't sessionRouter \<Rightarrow> string \<Rightarrow> BackendTarget option" where
  "matchResourceTemplate matches r uri =
     map_option crt_target (find (\<lambda>c. matches (crt_tmpl c) uri) (sr_resourceTemplates r))"

definition RouteResource :: "('t \<Rightarrow> string \<Rightarrow> bool) \<Rightarrow> 't sessionRouter \<Rightarrow> string \<Rightarrow> goerror + BackendTarget" where
  "RouteResource matches r uri = (case sr_routingTable r of
     None \<Rightarrow> Inl (not_found ErrResourceNotFound ''resource not found'' uri)
   | Some table \<Rightarrow> (case map_of (rtab_Resources table) uri of Some target \<Rightarrow> Inr target
     | None \<Rightarrow> (case map_of (rtab_ResourceTemplates table) uri of Some target \<Rightarrow> Inr target
       | None \<Rightarrow> (case matchResourceTemplate matches r uri of Some target \<Rightarrow> Inr target
         | None \<Rightarrow> Inl (not_found ErrResourceNotFound ''resource not found'' uri)))))"

definition RoutePrompt :: "'t sessionRouter \<Rightarrow> string \<Rightarrow> goerror + BackendTarget" where
  "RoutePrompt r name = (case sr_routingTable r of
     None \<Rightarrow> Inl (not_found ErrPromptNotFound ''prompt not found'' name)
   | Some table \<Rightarrow> (case map_of (rtab_Prompts table) name of
       None \<Rightarrow> Inl (not_found ErrPromptNotFound ''prompt not found'' name) | Some target \<Rightarrow> Inr target))"

section \<open>The interface\<close>

locale tool_router =
  fixes route :: "'r \<Rightarrow> string \<Rightarrow> goerror + BackendTarget"
    and resolve_name :: "'r \<Rightarrow> string \<Rightarrow> string"
    and router_ok :: "'r \<Rightarrow> bool"
  assumes route_resolved: "router_ok r \<Longrightarrow> route r n = Inr t \<Longrightarrow> route r (resolve_name r n) = Inr t"
    and resolve_idem: "router_ok r \<Longrightarrow> resolve_name r (resolve_name r n) = resolve_name r n"
    and unrouted_unresolved: "route r n = Inl e \<Longrightarrow> resolve_name r n = n \<and> errors_Is e ErrToolNotFound"
begin

text \<open>A step reference and the name it resolves to are interchangeable for the caller.\<close>

lemma reference_interchangeable:
  "router_ok r \<Longrightarrow> isl (route r n) = isl (route r (resolve_name r n))"
  using route_resolved unrouted_unresolved by (cases "route r n") fastforce+

end

definition tools_named :: "'t sessionRouter \<Rightarrow> bool" where
  "tools_named r \<longleftrightarrow> (case sr_routingTable r of None \<Rightarrow> True | Some table \<Rightarrow> map_of (rtab_Tools table) '''' = None)"

lemma ResolveToolRef_exact:
  "map_of (rtab_Tools table) n \<noteq> None \<Longrightarrow> n \<noteq> '''' \<Longrightarrow> ResolveToolRef (Some table) n = Some n"
  by (simp add: ResolveToolRef_def)

lemma find_key: "find P m = Some (k, v) \<Longrightarrow> map_of m k \<noteq> None"
  using find_Some [of P m "(k, v)"] by (auto simp: map_of_eq_None_iff rev_image_eqI)

lemma ResolveToolRef_key:
  assumes "ResolveToolRef (Some table) n = Some k"
  shows "map_of (rtab_Tools table) k \<noteq> None"
  using assms by (auto simp: ResolveToolRef_def split: if_splits option.splits dest!: find_key)

lemma RouteTool_Inl:
  assumes "RouteTool r n = Inl e"
  shows "ResolveToolRef (sr_routingTable r) n = None \<and> errors_Is e ErrToolNotFound"
proof (cases "sr_routingTable r")
  case (Some table)
  have "map_of (rtab_Tools table) k \<noteq> None" if "ResolveToolRef (Some table) n = Some k" for k
    by (rule ResolveToolRef_key [OF that])
  then show ?thesis using assms Some by (auto simp: RouteTool_def errors_Is_def not_found_def split: option.splits)
qed (use assms in \<open>simp add: RouteTool_def ResolveToolRef_def errors_Is_def not_found_def\<close>, force)

lemma RouteTool_Inr_iff:
  "RouteTool r n = Inr t \<longleftrightarrow> (\<exists>table k. sr_routingTable r = Some table \<and> ResolveToolRef (Some table) n = Some k \<and>
     map_of (rtab_Tools table) k = Some t)"
  by (auto simp: RouteTool_def split: option.splits)

interpretation srouter: tool_router RouteTool ResolveToolName tools_named
proof unfold_locales
  fix r :: "'t sessionRouter" and n t e
  have key: "ResolveToolRef (sr_routingTable r) k = Some k" if "tools_named r" "ResolveToolRef (sr_routingTable r) n = Some k" for n k
  proof (cases "sr_routingTable r")
    case (Some table)
    then have "map_of (rtab_Tools table) k \<noteq> None" using that(2) ResolveToolRef_key by auto
    moreover from this have "k \<noteq> ''''" using that(1) Some by (auto simp: tools_named_def)
    ultimately show ?thesis unfolding Some by (rule ResolveToolRef_exact)
  qed (use that in \<open>simp add: ResolveToolRef_def\<close>)
  show "tools_named r \<Longrightarrow> RouteTool r n = Inr t \<Longrightarrow> RouteTool r (ResolveToolName r n) = Inr t"
    using key by (fastforce simp: RouteTool_Inr_iff ResolveToolName_def)
  show "tools_named r \<Longrightarrow> ResolveToolName r (ResolveToolName r n) = ResolveToolName r n"
    using key by (auto simp: ResolveToolName_def split: option.splits)
  show "RouteTool r n = Inl e \<Longrightarrow> ResolveToolName r n = n \<and> errors_Is e ErrToolNotFound"
    by (drule RouteTool_Inl) (simp add: ResolveToolName_def)
qed

end
