(* ===== verification/Workflow_Types.thy ===== *)
theory Workflow_Types
  imports Aggregation_Types
begin

text \<open>
  The data of composite tools (\<open>composer.go\<close> of \<open>pkg/vmcp/composer\<close>): definitions and steps of a
  workflow, results, and the status kept for it. The string types have a constructor per constant. A step
  holds its inner step, so it is a datatype with one selector per field.
\<close>

section \<open>Definitions\<close>

type_synonym json_object = "(string, json) gomap"

datatype StepType = StepTypeTool | StepTypeElicitation | StepTypeForEach | StepTypeOther string

record ErrorHandler =
  eh_Action :: string
  eh_RetryCount :: int
  eh_RetryDelay :: duration
  eh_ContinueOnError :: bool

record ElicitationHandler =
  elh_Action :: string

record ElicitationConfig =
  ec_Message :: string
  ec_Schema :: json_object
  ec_Timeout :: duration
  ec_OnDecline :: "ElicitationHandler option"
  ec_OnCancel :: "ElicitationHandler option"

datatype WorkflowStep = WorkflowStep
  (ws_ID: string) (ws_Type: StepType) (ws_Tool: string) (ws_Arguments: json_object) (ws_Condition: string)
  (ws_DependsOn: "string list") (ws_OnError: "ErrorHandler option") (ws_Elicitation: "ElicitationConfig option")
  (ws_Timeout: duration) (ws_Metadata: "(string, string) gomap") (ws_DefaultResults: "json_object option")
  (ws_Collection: string) (ws_ItemVar: string) (ws_MaxParallel: int) (ws_MaxIterations: int)
  (ws_InnerStep: "WorkflowStep option")

text \<open>The configuration of the output is a parameter of the type.\<close>

record 'o WorkflowDefinition =
  wd_Name :: string
  wd_Description :: string
  wd_Parameters :: json_object
  wd_Steps :: "WorkflowStep list"
  wd_Timeout :: duration
  wd_FailureMode :: string
  wd_Output :: "'o option"
  wd_Annotations :: "ToolAnnotationsOverride option"
  wd_Metadata :: "(string, string) gomap"

text \<open>A tool step with everything else at its zero value.\<close>

definition tool_step :: "string \<Rightarrow> string \<Rightarrow> string list \<Rightarrow> WorkflowStep" where
  "tool_step i tool deps = WorkflowStep i StepTypeTool tool [] '''' deps None None 0 [] None '''' '''' 0 0 None"

text \<open>The cap on the iterations of a forEach step, which the configuration and the engine share.\<close>

definition MaxForEachIterations :: int where
  "MaxForEachIterations = 1000"

section \<open>Results and status\<close>

datatype WorkflowStatusType = WorkflowStatusPending | WorkflowStatusRunning | WorkflowStatusWaitingForElicitation
  | WorkflowStatusCompleted | WorkflowStatusFailed | WorkflowStatusCancelled | WorkflowStatusTimedOut

datatype StepStatusType = StepStatusPending | StepStatusRunning | StepStatusCompleted | StepStatusFailed
  | StepStatusSkipped

section \<open>Validation errors\<close>

text \<open>\<open>%q\<close> of a string without special characters.\<close>

definition quoted :: "string \<Rightarrow> string" where
  "quoted s = [CHR 0x22] @ s @ [CHR 0x22]"

text \<open>\<open>NewValidationError\<close> with its text; the cause is what \<open>errors.Is\<close> finds in it.\<close>

definition NewValidationError :: "string \<Rightarrow> string \<Rightarrow> goerror option \<Rightarrow> goerror" where
  "NewValidationError field message cause = (case cause of
     None \<Rightarrow> \<lparr>err_chain = [], err_text = ''validation error for '' @ field @ '': '' @ message\<rparr>
   | Some c \<Rightarrow> \<lparr>err_chain = err_chain c,
       err_text = ''validation error for '' @ field @ '': '' @ message @ '': '' @ err_text c\<rparr>)"

definition circular_dependency :: goerror where
  "circular_dependency = \<lparr>err_chain = [ErrCircularDependency], err_text = ''circular dependency detected''\<rparr>"

end
