(* ===== verification/Output_Validation.thy ===== *)
theory Output_Validation
  imports Workflow_Types
begin

text \<open>
  The output schema of a composite tool: its configuration (\<open>OutputConfig\<close> of \<open>pkg/vmcp/config/config.go\<close>) and the
  validation the workflow engine applies to it (\<open>pkg/vmcp/composer/output_validator.go\<close>). A default value is seen through
  its dynamic Go type, which is all the validation looks at. The order of an association list is the order in which one \<open>range\<close>
  loop visits the properties.
\<close>

section \<open>Configuration\<close>

datatype dynamic_type = DynBool | DynInt | DynInt32 | DynInt64 | DynFloat32 | DynFloat64 | DynString | DynMap | DynSlice
  | DynOther string

text \<open>The default is empty when it is nil or an empty map or slice; \<open>None\<close> stands for an empty default.\<close>

datatype OutputProperty = OutputProperty (op_Type: string) (op_Description: string) (op_Value: string)
  (op_Properties: "(string \<times> OutputProperty) list") (op_Default: "dynamic_type option")

record OutputConfig =
  oc_Properties :: "(string, OutputProperty) gomap"
  oc_Required :: "string list"

section \<open>Validation\<close>

definition maxOutputPropertyDepth :: nat where
  "maxOutputPropertyDepth = 10"

text \<open>The loop of \<open>validateTemplateSyntax\<close> with its variables \<open>depth\<close>, \<open>inTemplate\<close> and \<open>prevChar\<close>.\<close>

fun syntax_loop :: "int \<Rightarrow> bool \<Rightarrow> char \<Rightarrow> string \<Rightarrow> goerror option" where
  "syntax_loop depth inTemplate prevChar [] = (if depth \<noteq> 0 then Some (new_error ''unbalanced template delimiters'') else None)"
| "syntax_loop depth inTemplate prevChar (c # cs) =
     (if c = CHR ''{'' \<and> prevChar = CHR ''{''
      then if inTemplate then Some (new_error ''nested template delimiters not allowed'') else syntax_loop (depth + 1) True c cs
      else if c = CHR ''}'' \<and> prevChar = CHR ''}''
      then if \<not> inTemplate then Some (new_error ''unmatched closing template delimiter'') else syntax_loop (depth - 1) False c cs
      else syntax_loop depth inTemplate c cs)"

definition validateTemplateSyntax :: "string \<Rightarrow> goerror option" where
  "validateTemplateSyntax tmpl = syntax_loop 0 False (CHR 0x00) tmpl"

definition type_name :: "dynamic_type \<Rightarrow> string" where
  "type_name d = (case d of DynBool \<Rightarrow> ''bool'' | DynInt \<Rightarrow> ''int'' | DynInt32 \<Rightarrow> ''int32'' | DynInt64 \<Rightarrow> ''int64''
     | DynFloat32 \<Rightarrow> ''float32'' | DynFloat64 \<Rightarrow> ''float64'' | DynString \<Rightarrow> ''string'' | DynMap \<Rightarrow> ''map[string]interface {}''
     | DynSlice \<Rightarrow> ''[]interface {}'' | DynOther t \<Rightarrow> t)"

definition default_mismatch :: "string \<Rightarrow> dynamic_type \<Rightarrow> string \<Rightarrow> goerror" where
  "default_mismatch propertyName d expected = NewValidationError ''output.properties.default''
     (''property '' @ quoted propertyName @ '' has default value of type '' @ type_name d @ '', expected '' @ expected) None"

definition validateDefaultValueType :: "dynamic_type \<Rightarrow> string \<Rightarrow> string \<Rightarrow> goerror option" where
  "validateDefaultValueType d targetType propertyName =
     (if targetType = ''string'' then None
      else if targetType = ''integer'' then
        if d \<in> {DynInt, DynInt32, DynInt64, DynFloat32, DynFloat64, DynString} then None
        else Some (default_mismatch propertyName d ''integer-compatible type'')
      else if targetType = ''number'' then
        if d \<in> {DynFloat32, DynFloat64, DynInt, DynInt32, DynInt64, DynString} then None
        else Some (default_mismatch propertyName d ''number-compatible type'')
      else if targetType = ''boolean'' then
        if d \<in> {DynBool, DynInt, DynInt32, DynInt64, DynString} then None
        else Some (default_mismatch propertyName d ''boolean-compatible type'')
      else if targetType = ''object'' then
        if d \<in> {DynMap, DynString} then None else Some (default_mismatch propertyName d ''object or JSON string'')
      else if targetType = ''array'' then
        if d \<in> {DynSlice, DynString} then None else Some (default_mismatch propertyName d ''array ([]any) or JSON string'')
      else Some (NewValidationError ''output.properties.type''
        (''property '' @ quoted propertyName @ '' has unsupported type '' @ quoted targetType) None))"

definition validTypes :: "string list" where
  "validTypes = [''string'', ''integer'', ''number'', ''boolean'', ''object'', ''array'']"

definition ticked :: "string \<Rightarrow> string" where
  "ticked s = [CHR 0x27] @ s @ [CHR 0x27]"

text \<open>The checks of one property before its nested properties are visited, and those after.\<close>

definition check_head :: "string \<Rightarrow> OutputProperty \<Rightarrow> nat \<Rightarrow> goerror option" where
  "check_head name prop depth =
     (let hasValue = op_Value prop \<noteq> ''''; hasProperties = op_Properties prop \<noteq> [] in
      if depth > maxOutputPropertyDepth then Some (NewValidationError ''output.properties''
        (''property '' @ quoted name @ '' exceeds maximum nesting depth '' @ show_nat maxOutputPropertyDepth) None)
      else if op_Type prop = '''' then Some (NewValidationError ''output.properties.type''
        (''property '' @ quoted name @ '' is missing required field '' @ ticked ''type'') None)
      else if op_Type prop \<notin> set validTypes then Some (NewValidationError ''output.properties.type''
        (''property '' @ quoted name @ '' has invalid type '' @ quoted (op_Type prop) @
         '' (must be one of: string, integer, number, boolean, object, array)'') None)
      else if op_Description prop = '''' then Some (NewValidationError ''output.properties.description''
        (''property '' @ quoted name @ '' is missing required field '' @ ticked ''description'') None)
      else if hasValue \<and> hasProperties then Some (NewValidationError ''output.properties''
        (''property '' @ quoted name @ '' cannot have both 'value' and 'properties' fields'') None)
      else if \<not> hasValue \<and> \<not> hasProperties then Some (NewValidationError ''output.properties''
        (''property '' @ quoted name @ '' must have either 'value' or 'properties' field'') None)
      else if op_Type prop \<noteq> ''object'' \<and> \<not> hasValue then Some (NewValidationError ''output.properties.value''
        (''property '' @ quoted name @ '' with type '' @ quoted (op_Type prop) @ '' must have 'value' field'') None)
      else if op_Type prop \<noteq> ''object'' \<and> hasProperties then Some (NewValidationError ''output.properties''
        (''property '' @ quoted name @ '' with type '' @ quoted (op_Type prop) @ '' cannot have 'properties' field'') None)
      else None)"

definition check_value :: "string \<Rightarrow> OutputProperty \<Rightarrow> goerror option" where
  "check_value name prop =
     (case (if op_Value prop \<noteq> '''' then validateTemplateSyntax (op_Value prop) else None) of
        Some err \<Rightarrow> Some (NewValidationError ''output.properties.value''
          (''property '' @ quoted name @ '' has invalid template syntax: '' @ err_text err) (Some err))
      | None \<Rightarrow> (case op_Default prop of None \<Rightarrow> None
          | Some d \<Rightarrow> validateDefaultValueType d (op_Type prop) name))"

fun validateOutputProperty :: "string \<Rightarrow> OutputProperty \<Rightarrow> nat \<Rightarrow> goerror option"
  and validate_nested :: "string \<Rightarrow> (string \<times> OutputProperty) list \<Rightarrow> nat \<Rightarrow> goerror option" where
  "validateOutputProperty name (OutputProperty ty desc val nested dflt) depth =
     (let prop = OutputProperty ty desc val nested dflt in
      case check_head name prop depth of Some e \<Rightarrow> Some e
      | None \<Rightarrow> (case (if ty = ''object'' \<and> val = '''' then validate_nested name nested (depth + 1) else None) of
          Some e \<Rightarrow> Some e
        | None \<Rightarrow> check_value name prop))"
| "validate_nested name [] depth = None"
| "validate_nested name ((nestedName, p) # rest) depth =
     (case validateOutputProperty (name @ ''.'' @ nestedName) p depth of Some e \<Rightarrow> Some e
      | None \<Rightarrow> validate_nested name rest depth)"

fun validate_properties :: "(string, OutputProperty) gomap \<Rightarrow> goerror option" where
  "validate_properties [] = None"
| "validate_properties ((name, p) # rest) =
     (case validateOutputProperty name p 0 of Some e \<Rightarrow> Some e | None \<Rightarrow> validate_properties rest)"

definition ValidateOutputConfig :: "OutputConfig option \<Rightarrow> goerror option" where
  "ValidateOutputConfig output = (case output of None \<Rightarrow> None
     | Some out \<Rightarrow>
         if oc_Properties out = [] then Some (NewValidationError ''output.properties'' ''output properties cannot be empty'' None)
         else case find (\<lambda>f. map_of (oc_Properties out) f = None) (oc_Required out) of
           Some f \<Rightarrow> Some (NewValidationError ''output.required''
             (''required field '' @ quoted f @ '' does not exist in properties'') None)
         | None \<Rightarrow> validate_properties (oc_Properties out))"

section \<open>What an accepted output looks like\<close>

text \<open>Every property the output has at any depth, with the number of properties it is nested in.\<close>

fun sub_properties :: "nat \<Rightarrow> OutputProperty \<Rightarrow> (nat \<times> OutputProperty) list"
  and sub_lists :: "nat \<Rightarrow> (string \<times> OutputProperty) list \<Rightarrow> (nat \<times> OutputProperty) list" where
  "sub_properties n (OutputProperty ty desc val nested dflt) = (n, OutputProperty ty desc val nested dflt) # sub_lists (Suc n) nested"
| "sub_lists n [] = []"
| "sub_lists n ((name, p) # rest) = sub_properties n p @ sub_lists n rest"

definition property_ok :: "nat \<Rightarrow> OutputProperty \<Rightarrow> bool" where
  "property_ok n p \<longleftrightarrow> n \<le> 10 \<and> op_Type p \<in> set validTypes \<and> op_Description p \<noteq> '''' \<and>
     (op_Value p \<noteq> '''') = (op_Properties p = []) \<and> (op_Properties p \<noteq> [] \<longrightarrow> op_Type p = ''object'')"

lemma check_head_None: "check_head name p n = None \<Longrightarrow> property_ok n p"
  by (auto simp: check_head_def property_ok_def maxOutputPropertyDepth_def Let_def split: if_splits)

lemma validated_property:
  "validateOutputProperty name p n = None \<Longrightarrow> \<forall>(k, q) \<in> set (sub_properties n p). property_ok k q"
  "validate_nested name ps n = None \<Longrightarrow> \<forall>(k, q) \<in> set (sub_lists n ps). property_ok k q"
proof (induction name p n and name ps n rule: validateOutputProperty_validate_nested.induct)
  case (1 name ty desc val nested dflt n)
  let ?p = "OutputProperty ty desc val nested dflt"
  have head: "check_head name ?p n = None" using "1.prems" by (auto simp: Let_def split: option.splits)
  then have ok: "property_ok n ?p" by (rule check_head_None)
  show ?case
  proof (cases "nested = []")
    case True
    then show ?thesis using ok by simp
  next
    case False
    then have "ty = ''object''" "val = ''''" using ok by (auto simp: property_ok_def)
    then show ?thesis using 1 head ok by (auto simp: Let_def split: option.splits)
  qed
qed (auto split: option.splits)

lemma validated_properties:
  "validate_properties ps = None \<Longrightarrow> (name, p) \<in> set ps \<Longrightarrow> validateOutputProperty name p 0 = None"
  by (induction ps rule: validate_properties.induct) (auto split: option.splits)

text \<open>
  Claim C29: an accepted output schema is well formed throughout: at most ten properties around any property, a JSON Schema type and a
  description everywhere, exactly one of a template and nested properties, nested properties in objects only, and every
  required field among the properties.
\<close>

theorem accepted_output_well_formed:
  assumes "ValidateOutputConfig (Some out) = None"
  shows "oc_Properties out \<noteq> [] \<and> set (oc_Required out) \<subseteq> fst ` set (oc_Properties out) \<and>
    (\<forall>(name, p) \<in> set (oc_Properties out). \<forall>(n, q) \<in> set (sub_properties 0 p). property_ok n q)"
proof -
  have parts: "oc_Properties out \<noteq> []" "find (\<lambda>f. map_of (oc_Properties out) f = None) (oc_Required out) = None"
      "validate_properties (oc_Properties out) = None"
    using assms by (auto simp: ValidateOutputConfig_def split: if_splits option.splits)
  have "set (oc_Required out) \<subseteq> fst ` set (oc_Properties out)"
    using parts(2) by (auto simp: find_None_iff map_of_eq_None_iff)
  moreover have "\<forall>(n, q) \<in> set (sub_properties 0 p). property_ok n q" if "(name, p) \<in> set (oc_Properties out)" for name p
    using validated_property(1) [OF validated_properties [OF parts(3) that]] .
  ultimately show ?thesis using parts(1) by blast
qed

definition example_output :: OutputConfig where
  "example_output = \<lparr>oc_Properties = [(''r'', OutputProperty ''object'' ''d'' ''''
       [(''x'', OutputProperty ''string'' ''d'' ''{{.params.x}}'' [] None)] None)], oc_Required = [''r'']\<rparr>"

theorem accepted_output_well_formed_witness:
  "ValidateOutputConfig (Some example_output) = None \<and> set (oc_Required example_output) \<subseteq> fst ` set (oc_Properties example_output)"
proof -
  have ok: "ValidateOutputConfig (Some example_output) = None" by code_simp
  show ?thesis using accepted_output_well_formed [OF ok] ok by blast
qed

text \<open>
  The check of the delimiters counts a closing brace after a template as a second closing delimiter. A template that builds a
  JSON object and ends with a value, which is how an object property is meant to be written, is rejected, while the
  same template with a space before the last brace is accepted.
\<close>

theorem json_object_template_rejected:
  "let value = CHR ''{'' # quoted ''a'' @ '': {{.params.a}}'' in
   (\<exists>e. ValidateOutputConfig (Some \<lparr>oc_Properties = [(''r'', OutputProperty ''object'' ''d'' (value @ ''}'') [] None)], oc_Required = []\<rparr>) = Some e) \<and>
   ValidateOutputConfig (Some \<lparr>oc_Properties = [(''r'', OutputProperty ''object'' ''d'' (value @ '' }'') [] None)], oc_Required = []\<rparr>) = None"
proof -
  let ?v = "CHR ''{'' # quoted ''a'' @ '': {{.params.a}}''"
  let ?out = "\<lambda>v. \<lparr>oc_Properties = [(''r'', OutputProperty ''object'' ''d'' v [] None)], oc_Required = []\<rparr>"
  have "ValidateOutputConfig (Some (?out (?v @ ''}''))) \<noteq> None" by code_simp
  moreover have "ValidateOutputConfig (Some (?out (?v @ '' }''))) = None" by code_simp
  ultimately show ?thesis unfolding Let_def by blast
qed

end
