(* ===== verification/Workflow_Levels.thy ===== *)
theory Workflow_Levels
  imports Workflow_Types
begin

text \<open>
  The execution plan of a workflow: the levels of \<open>dag_executor.go\<close> (\<open>pkg/vmcp/composer\<close>), computed by
  Kahn's algorithm, and what they are.
\<close>

section \<open>Execution levels\<close>

definition stepMap :: "WorkflowStep list \<Rightarrow> (string, WorkflowStep) gomap" where
  "stepMap steps = fold (\<lambda>s. AList.update (ws_ID s) s) steps []"

type_synonym dep_graph = "(string, string list) gomap \<times> (string, int) gomap"

definition init_graph :: "WorkflowStep list \<Rightarrow> dep_graph" where
  "init_graph steps = fold (\<lambda>s (dependents, inDegree). (AList.update (ws_ID s) [] dependents, AList.update (ws_ID s) 0 inDegree))
     steps ([], [])"

text \<open>Reading an absent key of a map gives the zero value.\<close>

definition degree :: "(string, int) gomap \<Rightarrow> string \<Rightarrow> int" where
  "degree m k = (case map_of m k of None \<Rightarrow> 0 | Some d \<Rightarrow> d)"

definition dependents_of :: "(string, string list) gomap \<Rightarrow> string \<Rightarrow> string list" where
  "dependents_of m k = (case map_of m k of None \<Rightarrow> [] | Some ds \<Rightarrow> ds)"

definition add_dependency :: "string \<Rightarrow> string \<Rightarrow> dep_graph \<Rightarrow> dep_graph" where
  "add_dependency stepID depID = (\<lambda>(dependents, inDegree).
     (AList.update depID (dependents_of dependents depID @ [stepID]) dependents,
      AList.update stepID (degree inDegree stepID + 1) inDegree))"

definition build_graph :: "WorkflowStep list \<Rightarrow> dep_graph" where
  "build_graph steps = fold (\<lambda>s. fold (add_dependency (ws_ID s)) (ws_DependsOn s)) steps (init_graph steps)"

text \<open>The identifiers of one level, in the order of a traversal of \<open>inDegree\<close>.\<close>

definition ready :: "(string, int) gomap \<Rightarrow> string list \<Rightarrow> string list" where
  "ready inDegree processed = map fst (filter (\<lambda>(stepID, d). d = 0 \<and> stepID \<notin> set processed) inDegree)"

definition decrement :: "string \<Rightarrow> (string, int) gomap \<Rightarrow> (string, int) gomap" where
  "decrement dependentID inDegree = AList.update dependentID (degree inDegree dependentID - 1) inDegree"

definition release :: "(string, string list) gomap \<Rightarrow> string list \<Rightarrow> (string, int) gomap \<Rightarrow> (string, int) gomap" where
  "release dependents level inDegree = fold (\<lambda>stepID. fold decrement (dependents_of dependents stepID)) level inDegree"

text \<open>\<open>processed\<close> is the list of the keys of the map of that name, all of whose values are true.\<close>

function build_levels :: "(string, string list) gomap \<Rightarrow> nat \<Rightarrow> (string, int) gomap \<Rightarrow> string list \<Rightarrow> string list list
    \<Rightarrow> goerror + string list list" where
  "build_levels dependents n inDegree processed levels =
     (if length processed < n
      then let level = ready inDegree processed in
           if length level = 0
           then Inl (\<lparr>err_chain = [ErrCircularDependency],
             err_text = ''circular dependency detected: topological sort failed - no steps with zero dependencies''\<rparr>)
           else build_levels dependents n (release dependents level inDegree) (processed @ level) (levels @ [level])
      else Inr levels)"
  by pat_completeness auto
termination
  by (relation "measure (\<lambda>(dependents, n, inDegree, processed, levels). n - length processed)") (auto intro: diff_less_mono2)

declare build_levels.simps [simp del]

definition level_steps :: "(string, WorkflowStep) gomap \<Rightarrow> string list \<Rightarrow> WorkflowStep list" where
  "level_steps m ids = concat (map (\<lambda>i. case map_of m i of Some s \<Rightarrow> [s] | None \<Rightarrow> []) ids)"

definition buildExecutionLevels :: "WorkflowStep list \<Rightarrow> goerror + WorkflowStep list list" where
  "buildExecutionLevels steps =
     (let (dependents, inDegree) = build_graph steps in
      case build_levels dependents (length steps) inDegree [] [] of Inl e \<Rightarrow> Inl e
      | Inr levels \<Rightarrow> Inr (map (level_steps (stepMap steps)) levels))"

record executionStats =
  st_total_levels :: nat
  st_total_steps :: nat
  st_max_parallelism :: nat
  st_min_parallelism :: nat
  st_sequential_steps :: nat

definition count_level :: "nat \<Rightarrow> executionStats \<Rightarrow> executionStats" where
  "count_level levelSize st = st\<lparr>st_total_steps := st_total_steps st + levelSize,
     st_max_parallelism := (if st_max_parallelism st = 0 \<or> levelSize > st_max_parallelism st then levelSize
       else st_max_parallelism st),
     st_min_parallelism := (if st_min_parallelism st = 0 \<or> levelSize < st_min_parallelism st then levelSize
       else st_min_parallelism st),
     st_sequential_steps := (if levelSize = 1 then st_sequential_steps st + 1 else st_sequential_steps st)\<rparr>"

definition getExecutionStats :: "WorkflowStep list list \<Rightarrow> executionStats" where
  "getExecutionStats levels = fold (\<lambda>level. count_level (length level)) levels
     \<lparr>st_total_levels = length levels, st_total_steps = 0, st_max_parallelism = 0, st_min_parallelism = 0,
      st_sequential_steps = 0\<rparr>"

section \<open>The levels\<close>

abbreviation step_ids :: "WorkflowStep list \<Rightarrow> string set" where
  "step_ids steps \<equiv> ws_ID ` set steps"

definition deps_of :: "WorkflowStep list \<Rightarrow> string \<Rightarrow> string list" where
  "deps_of steps i = concat (map ws_DependsOn (filter (\<lambda>s. ws_ID s = i) steps))"

lemma degree_update [simp]: "degree (AList.update k v m) i = (if i = k then v else degree m i)"
  by (simp add: degree_def)

lemma dependents_update [simp]: "dependents_of (AList.update k v m) i = (if i = k then v else dependents_of m i)"
  by (simp add: dependents_of_def)

lemma keys_update [simp]: "fst ` set (AList.update k v m) = insert k (fst ` set m)"
  by (simp flip: dom_map_of_conv_image_fst)

text \<open>What the graph holds: the number of dependencies of each step and, reversed, the dependencies.\<close>

definition graph_ok :: "(string \<Rightarrow> string list) \<Rightarrow> string set \<Rightarrow> dep_graph \<Rightarrow> bool" where
  "graph_ok deps ids = (\<lambda>(dependents, inDegree). gomap_ok inDegree \<and> fst ` set inDegree = ids \<and>
     (\<forall>i. degree inDegree i = int (length (deps i))) \<and>
     (\<forall>i d. count_list (dependents_of dependents d) i = count_list (deps i) d))"

lemma graph_ok_init: "graph_ok (\<lambda>_. []) (step_ids steps) (init_graph steps)"
proof -
  have "graph_ok (\<lambda>_. []) (ids \<union> step_ids steps) (fold (\<lambda>s (dependents, inDegree).
      (AList.update (ws_ID s) [] dependents, AList.update (ws_ID s) 0 inDegree)) steps (d, m))"
    if "graph_ok (\<lambda>_. []) ids (d, m)" for ids d m
    using that
  proof (induction steps arbitrary: ids d m)
    case (Cons s steps)
    then have "graph_ok (\<lambda>_. []) (insert (ws_ID s) ids) (AList.update (ws_ID s) [] d, AList.update (ws_ID s) 0 m)"
      by (auto simp: graph_ok_def)
    from Cons.IH [OF this] show ?case by (simp add: insert_commute)
  qed simp
  from this [of "{}" "[]" "[]"] show ?thesis
    by (simp add: init_graph_def graph_ok_def degree_def dependents_of_def)
qed

lemma graph_ok_add:
  assumes "graph_ok deps ids gr" "i \<in> ids"
  shows "graph_ok (deps(i := deps i @ [d])) ids (add_dependency i d gr)"
  using assms by (cases gr) (auto simp: graph_ok_def add_dependency_def)

lemma graph_ok_adds:
  "graph_ok deps ids gr \<Longrightarrow> i \<in> ids \<Longrightarrow> graph_ok (deps(i := deps i @ ds)) ids (fold (add_dependency i) ds gr)"
proof (induction ds arbitrary: deps gr)
  case (Cons d ds)
  have eq: "(deps(i := deps i @ [d]))(i := (deps(i := deps i @ [d])) i @ ds) = deps(i := deps i @ d # ds)" by simp
  from Cons.IH [OF graph_ok_add [OF Cons.prems, of d] Cons.prems(2), unfolded eq] show ?case by simp
qed simp

lemma graph_ok_build: "graph_ok (deps_of steps) (step_ids steps) (build_graph steps)"
proof -
  have "graph_ok (\<lambda>i. deps i @ deps_of xs i) ids (fold (\<lambda>s. fold (add_dependency (ws_ID s)) (ws_DependsOn s)) xs gr)"
    if "graph_ok deps ids gr" "step_ids xs \<subseteq> ids" for deps ids gr xs
    using that
  proof (induction xs arbitrary: deps gr)
    case (Cons s xs)
    have "(\<lambda>i. (deps(ws_ID s := deps (ws_ID s) @ ws_DependsOn s)) i @ deps_of xs i) = (\<lambda>i. deps i @ deps_of (s # xs) i)"
      by (auto simp: deps_of_def)
    then show ?case using Cons.IH [OF graph_ok_adds [OF Cons.prems(1), of "ws_ID s" "ws_DependsOn s"]] Cons.prems(2) by simp
  qed (simp add: deps_of_def)
  from this [OF graph_ok_init] show ?thesis by (simp add: build_graph_def)
qed

lemma count_list_distinct_sum:
  "distinct level \<Longrightarrow> (\<Sum>x\<leftarrow>level. count_list (y # xs) x) = (\<Sum>x\<leftarrow>level. count_list xs x) + (if y \<in> set level then 1 else 0)"
  by (induction level) auto

lemma filter_release:
  "distinct level \<Longrightarrow> set level \<inter> A = {} \<Longrightarrow>
   length (filter (\<lambda>d. d \<notin> A \<union> set level) xs) + (\<Sum>x\<leftarrow>level. count_list xs x) = length (filter (\<lambda>d. d \<notin> A) xs)"
proof (induction xs)
  case (Cons y xs)
  then show ?case using count_list_distinct_sum [OF Cons.prems(1), of y xs]
    by (auto simp: disjoint_iff simp del: count_list.simps)
qed (induction level, simp_all)

lemma degree_decrements: "degree (fold decrement ds m) i = degree m i - int (count_list ds i)"
  by (induction ds arbitrary: m) (auto simp: decrement_def)

lemma degree_release: "degree (release dep level m) i = degree m i - int (\<Sum>x\<leftarrow>level. count_list (dependents_of dep x) i)"
  unfolding release_def by (induction level arbitrary: m) (auto simp: degree_decrements)

lemma release_keys:
  assumes "\<forall>x. set (dependents_of dep x) \<subseteq> fst ` set m" "gomap_ok m"
  shows "fst ` set (release dep level m) = fst ` set m \<and> gomap_ok (release dep level m)"
proof -
  have dec: "fst ` set (fold decrement ds m) = fst ` set m \<and> gomap_ok (fold decrement ds m)"
    if "set ds \<subseteq> fst ` set m" "gomap_ok m" for ds and m :: "(string, int) gomap"
    using that by (induction ds arbitrary: m) (auto simp: decrement_def insert_absorb)
  show ?thesis unfolding release_def using assms
  proof (induction level arbitrary: m)
    case (Cons x level)
    have "fst ` set (fold decrement (dependents_of dep x) m) = fst ` set m \<and> gomap_ok (fold decrement (dependents_of dep x) m)"
      by (rule dec) (use Cons.prems in auto)
    then show ?case using Cons.IH [of "fold decrement (dependents_of dep x) m"] Cons.prems by simp
  qed simp
qed

text \<open>
  The state of the loop: the degree of a step counts its dependencies that are not yet processed, and the
  levels built so far respect the dependencies and are as early as possible.
\<close>

definition degrees_ok :: "(string \<Rightarrow> string list) \<Rightarrow> string set \<Rightarrow> (string, int) gomap \<Rightarrow> string list \<Rightarrow> bool" where
  "degrees_ok deps ids m processed \<longleftrightarrow> gomap_ok m \<and> fst ` set m = ids \<and>
     (\<forall>i. degree m i = int (length (filter (\<lambda>d. d \<notin> set processed) (deps i))))"

definition level_ok :: "(string \<Rightarrow> string list) \<Rightarrow> string list list \<Rightarrow> string list \<Rightarrow> bool" where
  "level_ok deps earlier level \<longleftrightarrow> level \<noteq> [] \<and> (\<forall>i \<in> set level. set (deps i) \<subseteq> set (concat earlier) \<and>
     (earlier \<noteq> [] \<longrightarrow> set (deps i) \<inter> set (last earlier) \<noteq> {}))"

definition levels_ok :: "(string \<Rightarrow> string list) \<Rightarrow> string list list \<Rightarrow> bool" where
  "levels_ok deps levels \<longleftrightarrow> (\<forall>k < length levels. level_ok deps (take k levels) (levels ! k))"

lemma levels_ok_snoc: "levels_ok deps (levels @ [level]) \<longleftrightarrow> levels_ok deps levels \<and> level_ok deps levels level"
  by (auto simp: levels_ok_def less_Suc_eq nth_append)

definition levelling :: "(string \<Rightarrow> string list) \<Rightarrow> string set \<Rightarrow> string list \<Rightarrow> string list list \<Rightarrow> bool" where
  "levelling deps ids processed levels \<longleftrightarrow> processed = concat levels \<and> distinct processed \<and> set processed \<subseteq> ids \<and>
     levels_ok deps levels \<and>
     (levels \<noteq> [] \<longrightarrow> (\<forall>i \<in> ids - set processed. \<exists>d \<in> set (deps i). d \<notin> set (concat (butlast levels))))"

lemma set_ready:
  assumes "degrees_ok deps ids m processed"
  shows "set (ready m processed) = {i \<in> ids. i \<notin> set processed \<and> set (deps i) \<subseteq> set processed}" (is "_ = ?R")
proof -
  have m: "gomap_ok m" "fst ` set m = ids" using assms by (simp_all add: degrees_ok_def)
  have "i \<in> set (ready m processed) \<longleftrightarrow> (i, 0) \<in> set m \<and> i \<notin> set processed" for i
    by (force simp: ready_def)
  moreover have "(i, 0) \<in> set m \<longleftrightarrow> map_of m i = Some 0" for i by (simp add: gomap_ok_lookup [OF m(1)])
  moreover have "map_of m i = Some 0 \<longleftrightarrow> i \<in> ids \<and> degree m i = 0" for i
    unfolding m(2) [symmetric] dom_map_of_conv_image_fst [symmetric] by (auto simp: degree_def)
  moreover have "degree m i = 0 \<longleftrightarrow> set (deps i) \<subseteq> set processed" for i
  proof -
    have "degree m i = int (length (filter (\<lambda>d. d \<notin> set processed) (deps i)))" using assms by (simp add: degrees_ok_def)
    then show ?thesis by (auto simp: filter_empty_conv)
  qed
  ultimately show ?thesis by auto
qed

lemma distinct_ready: "gomap_ok m \<Longrightarrow> distinct (ready m processed)"
  by (simp add: ready_def gomap_ok_def distinct_map_filter)

lemma degrees_release:
  assumes ok: "degrees_ok deps ids m processed" and gr: "graph_ok deps ids (dep, m0)"
    and level: "level = ready m processed"
  shows "degrees_ok deps ids (release dep level m) (processed @ level)"
proof -
  have m: "gomap_ok m" "fst ` set m = ids" using ok by (simp_all add: degrees_ok_def)
  have count: "count_list (dependents_of dep d) i = count_list (deps i) d" for i d using gr by (simp add: graph_ok_def)
  have "deps i = []" if "i \<notin> ids" for i
  proof -
    have "degree m0 i = 0" using gr that by (auto simp: graph_ok_def degree_def map_of_eq_None_iff split: option.splits)
    then show ?thesis using gr by (simp add: graph_ok_def)
  qed
  then have "\<forall>x. set (dependents_of dep x) \<subseteq> fst ` set m"
    using count m(2) by (metis count_list_0_iff count_list.simps(1) subsetI)
  note keys = release_keys [OF this m(1), of level]
  have "distinct level" "set level \<inter> set processed = {}"
    using distinct_ready [OF m(1)] set_ready [OF ok] by (auto simp: level)
  then have "degree (release dep level m) i = int (length (filter (\<lambda>d. d \<notin> set (processed @ level)) (deps i)))" for i
    using ok filter_release [OF \<open>distinct level\<close> \<open>set level \<inter> set processed = {}\<close>, of "deps i"]
    by (simp add: degree_release count degrees_ok_def)
  then show ?thesis using keys m(2) by (simp add: degrees_ok_def)
qed

lemma levelling_step:
  assumes ok: "degrees_ok deps ids m processed" and lev: "levelling deps ids processed levels"
    and level: "level = ready m processed" "level \<noteq> []"
  shows "levelling deps ids (processed @ level) (levels @ [level])"
proof -
  note ready = set_ready [OF ok, folded level(1)]
  have old: "processed = concat levels" "distinct processed" "set processed \<subseteq> ids" "levels_ok deps levels"
    using lev unfolding levelling_def by blast+
  have "set (deps i) \<inter> set (last levels) \<noteq> {}" if i: "i \<in> set level" "levels \<noteq> []" for i
  proof -
    have "i \<in> ids - set processed" "set (deps i) \<subseteq> set (concat levels)" using i(1) ready old(1) by auto
    then obtain d where d: "d \<in> set (deps i)" "d \<notin> set (concat (butlast levels))" "d \<in> set (concat levels)"
      using lev i(2) unfolding levelling_def by blast
    have "levels = butlast levels @ [last levels]" using i(2) by simp
    then have "concat levels = concat (butlast levels) @ last levels" by (metis append_Nil2 concat.simps concat_append)
    then show ?thesis using d by auto
  qed
  then have "level_ok deps levels level" using level(2) ready old(1) by (auto simp: level_ok_def)
  moreover have "distinct level" using ok distinct_ready by (simp add: level(1) degrees_ok_def)
  moreover have "set processed \<inter> set level = {}" "set level \<subseteq> ids" using ready by auto
  moreover have "\<exists>d \<in> set (deps i). d \<notin> set processed" if "i \<in> ids - set (processed @ level)" for i
    using that ready by auto
  ultimately show ?thesis using old unfolding levelling_def by (simp add: butlast_append levels_ok_snoc)
qed

lemma build_levels_correct:
  "degrees_ok deps ids m processed \<Longrightarrow> levelling deps ids processed levels \<Longrightarrow> graph_ok deps ids (dep, m0) \<Longrightarrow>
   case build_levels dep n m processed levels of
     Inr out \<Rightarrow> levelling deps ids (concat out) out \<and> n \<le> length (concat out)
   | Inl e \<Rightarrow> errors_Is e ErrCircularDependency \<and> (\<exists>P. distinct P \<and> set P \<subseteq> ids \<and> length P < n \<and>
       (\<forall>i \<in> ids - set P. \<not> set (deps i) \<subseteq> set P))"
proof (induction dep n m processed levels rule: build_levels.induct)
  case (1 dep n m processed levels)
  let ?level = "ready m processed"
  consider (stop) "\<not> length processed < n" | (stuck) "length processed < n" "?level = []"
    | (go) "length processed < n" "?level \<noteq> []" by blast
  then show ?case
  proof cases
    case stop
    then have "build_levels dep n m processed levels = Inr levels" by (subst build_levels.simps) simp
    moreover have "processed = concat levels" using "1.prems"(2) by (simp add: levelling_def)
    ultimately show ?thesis using "1.prems"(2) stop by simp
  next
    case stuck
    have "\<forall>i \<in> ids - set processed. \<not> set (deps i) \<subseteq> set processed"
      using set_ready [OF "1.prems"(1)] stuck(2) by auto
    moreover have "distinct processed" "set processed \<subseteq> ids" using "1.prems"(2) unfolding levelling_def by blast+
    ultimately show ?thesis using stuck by (subst build_levels.simps) (auto simp: errors_Is_def)
  next
    case go
    note IH = "1.IH" [OF go(1) refl _ degrees_release [OF "1.prems"(1,3) refl]
        levelling_step [OF "1.prems"(1,2) refl go(2)] "1.prems"(3)]
    show ?thesis using IH go by (subst build_levels.simps) (simp add: Let_def)
  qed
qed

lemma buildExecutionLevels_cases:
  shows "case buildExecutionLevels steps of
     Inr levels \<Rightarrow> (\<exists>out. levels = map (level_steps (stepMap steps)) out \<and> distinct (concat out) \<and>
       set (concat out) \<subseteq> step_ids steps \<and> levels_ok (deps_of steps) out \<and> length steps \<le> length (concat out))
   | Inl e \<Rightarrow> errors_Is e ErrCircularDependency \<and> (\<exists>P. distinct P \<and> set P \<subseteq> step_ids steps \<and> length P < length steps \<and>
       (\<forall>i \<in> step_ids steps - set P. \<not> set (deps_of steps i) \<subseteq> set P))"
proof -
  obtain dep m where gr: "build_graph steps = (dep, m)" by fastforce
  note ok = graph_ok_build [of steps, unfolded gr]
  have "degrees_ok (deps_of steps) (step_ids steps) m []" using ok by (simp add: degrees_ok_def graph_ok_def)
  moreover have "levelling (deps_of steps) (step_ids steps) [] []" by (simp add: levelling_def levels_ok_def)
  ultimately show ?thesis using build_levels_correct [OF _ _ ok, of m "[]" "[]" "length steps"]
    by (fastforce simp: buildExecutionLevels_def gr levelling_def split: sum.splits)
qed

lemma stepMap_lookup: "map_of (stepMap steps) i = find (\<lambda>s. ws_ID s = i) (rev steps)"
  unfolding stepMap_def by (induction steps rule: rev_induct) auto

lemma stepMap_distinct:
  assumes "distinct (map ws_ID steps)"
  shows "map_of (stepMap steps) i = Some s \<longleftrightarrow> s \<in> set steps \<and> ws_ID s = i"
proof -
  have "find (\<lambda>s. ws_ID s = i) (rev steps) = Some s \<longleftrightarrow> s \<in> set (rev steps) \<and> ws_ID s = i"
    by (rule find_unique_iff) (use assms distinct_keys_unique [of ws_ID steps] in auto)
  then show ?thesis by (simp add: stepMap_lookup)
qed

lemma level_steps_ids:
  assumes dist: "distinct (map ws_ID steps)"
  shows "set l \<subseteq> step_ids steps \<Longrightarrow>
    map ws_ID (level_steps (stepMap steps) l) = l \<and> set (level_steps (stepMap steps) l) \<subseteq> set steps"
proof (induction l)
  case (Cons i l)
  then obtain s where "s \<in> set steps" "ws_ID s = i" by auto
  then have "map_of (stepMap steps) i = Some s" by (simp add: stepMap_distinct [OF dist])
  then show ?case using Cons \<open>s \<in> set steps\<close> \<open>ws_ID s = i\<close> by (simp add: level_steps_def)
qed (simp add: level_steps_def)

lemma deps_of_distinct: "distinct (map ws_ID steps) \<Longrightarrow> s \<in> set steps \<Longrightarrow> deps_of steps (ws_ID s) = ws_DependsOn s"
proof (induction steps)
  case (Cons x steps)
  have "filter (\<lambda>s. ws_ID s = i) steps = []" if "i \<notin> step_ids steps" for i
    using that by (auto simp: filter_empty_conv)
  then show ?case using Cons by (auto simp: deps_of_def)
qed simp

lemma plan_ids:
  assumes dist: "distinct (map ws_ID steps)" and plan: "buildExecutionLevels steps = Inr levels"
  shows "mset (concat levels) = mset steps \<and> levels_ok (deps_of steps) (map (map ws_ID) levels)"
proof -
  obtain out where out: "levels = map (level_steps (stepMap steps)) out" "distinct (concat out)"
      "set (concat out) \<subseteq> step_ids steps" "levels_ok (deps_of steps) out" "length steps \<le> length (concat out)"
    using buildExecutionLevels_cases [of steps] plan by auto
  have level: "map ws_ID (level_steps (stepMap steps) l) = l" "set (level_steps (stepMap steps) l) \<subseteq> set steps"
    if "l \<in> set out" for l using level_steps_ids [OF dist, of l] out(3) that by auto
  then have ids: "map (map ws_ID) levels = out" "set (concat levels) \<subseteq> set steps"
    by (auto simp: out(1) intro: map_idI)
  have all: "map ws_ID (concat levels) = concat out" by (simp only: map_concat ids(1))
  have "distinct (concat levels)" using out(2) by (metis all distinct_map)
  moreover have "distinct steps" using dist by (simp add: distinct_map)
  moreover have "length steps \<le> length (concat levels)" using out(5) all by (metis length_map)
  ultimately have "card (set steps) \<le> card (set (concat levels))" by (simp only: distinct_card)
  then have "set (concat levels) = set steps" by (intro card_seteq ids(2)) simp_all
  then have "mset (concat levels) = mset steps"
    using \<open>distinct (concat levels)\<close> \<open>distinct steps\<close> by (simp only: set_eq_iff_mset_eq_distinct)
  then show ?thesis using out(4) ids(1) by simp
qed

abbreviation dependency_edges :: "WorkflowStep list \<Rightarrow> (string \<times> string) set" where
  "dependency_edges steps \<equiv> {(ws_ID s, d) | s d. s \<in> set steps \<and> d \<in> set (ws_DependsOn s)}"

lemma in_concat_nth: "x \<in> set (concat xss) \<longleftrightarrow> (\<exists>k. k < length xss \<and> x \<in> set (xss ! k))"
  by (metis (no_types, lifting) UN_iff in_set_conv_nth set_concat)

text \<open>Each dependency of a levelled step is on a smaller level, so following dependencies ends.\<close>

lemma levels_ok_acyclic:
  assumes ok: "levels_ok deps levels" and E: "E \<subseteq> {(i, d). i \<in> set (concat levels) \<and> d \<in> set (deps i)}"
  shows "acyclic E"
proof -
  define rank where "rank i = (LEAST k. k < length levels \<and> i \<in> set (levels ! k))" for i
  have "rank d < rank i" if "i \<in> set (concat levels)" "d \<in> set (deps i)" for i d
  proof -
    have "\<exists>k. k < length levels \<and> i \<in> set (levels ! k)" using that(1) by (simp only: in_concat_nth)
    then have k: "rank i < length levels" "i \<in> set (levels ! rank i)"
      unfolding rank_def by (metis (mono_tags, lifting) LeastI_ex)+
    then have "d \<in> set (concat (take (rank i) levels))"
      using ok that(2) unfolding levels_ok_def level_ok_def by blast
    then obtain j where "j < rank i" "j < length levels" "d \<in> set (levels ! j)" unfolding in_concat_nth by auto
    then show ?thesis using Least_le [of "\<lambda>k. k < length levels \<and> d \<in> set (levels ! k)" j] by (simp add: rank_def)
  qed
  then have "E\<inverse> \<subseteq> measure rank" using E by (fastforce simp del: set_concat)
  then have "wf (E\<inverse>)" by (rule wf_subset [OF wf_measure])
  then show ?thesis using wf_acyclic by fastforce
qed

text \<open>A set that cannot be extended is everything, when dependencies are closed and acyclic.\<close>

lemma stuck_cycle:
  assumes "finite ids" "\<forall>i \<in> ids. set (deps i) \<subseteq> ids" "i \<in> ids - P" "\<forall>i \<in> ids - P. \<not> set (deps i) \<subseteq> P"
  shows "\<not> acyclic {(i, d). i \<in> ids \<and> d \<in> set (deps i)}" (is "\<not> acyclic ?E")
proof
  assume acyclic: "acyclic ?E"
  have "?E \<subseteq> ids \<times> ids" using assms(2) by auto
  then have "finite ?E" using assms(1) by (simp add: finite_subset)
  then have "wf (?E\<inverse>)" using acyclic by (rule finite_acyclic_wf_converse)
  then obtain z where z: "z \<in> ids - P" "\<And>y. (y, z) \<in> ?E\<inverse> \<Longrightarrow> y \<notin> ids - P" using assms(3) by (meson wfE_min)
  then show False using assms(2,4) by blast
qed

lemma dependency_edges_deps:
  "distinct (map ws_ID steps) \<Longrightarrow> dependency_edges steps = {(i, d). i \<in> step_ids steps \<and> d \<in> set (deps_of steps i)}"
  using deps_of_distinct [of steps] by fastforce

lemma plan_exists:
  assumes dist: "distinct (map ws_ID steps)"
  shows "(\<exists>levels. buildExecutionLevels steps = Inr levels) \<longleftrightarrow>
    (\<forall>s \<in> set steps. set (ws_DependsOn s) \<subseteq> step_ids steps) \<and> acyclic (dependency_edges steps)"
proof (cases "buildExecutionLevels steps")
  case (Inl e)
  then obtain P where P: "distinct P" "set P \<subseteq> step_ids steps" "length P < length steps"
      "\<forall>i \<in> step_ids steps - set P. \<not> set (deps_of steps i) \<subseteq> set P"
    using buildExecutionLevels_cases [of steps] by auto
  have "card (step_ids steps) = length steps" using dist by (metis distinct_card length_map list.set_map)
  then have "step_ids steps \<noteq> set P" using P(1,3) by (metis distinct_card nat_neq_iff)
  then obtain i where "i \<in> step_ids steps - set P" using P(2) by blast
  moreover have "\<forall>i \<in> step_ids steps. set (deps_of steps i) \<subseteq> step_ids steps"
    if "\<forall>s \<in> set steps. set (ws_DependsOn s) \<subseteq> step_ids steps" using that deps_of_distinct [OF dist] by auto
  ultimately show ?thesis
    using Inl P(4) stuck_cycle [of "step_ids steps" "deps_of steps" i "set P"] dependency_edges_deps [OF dist] by auto
next
  case (Inr levels)
  let ?out = "map (map ws_ID) levels"
  have plan: "mset (concat levels) = mset steps" "levels_ok (deps_of steps) ?out" using plan_ids [OF dist Inr] by simp_all
  have ids: "set (concat ?out) = step_ids steps"
    using plan(1) by (metis list.set_map map_concat mset_eq_setD)
  then have "acyclic (dependency_edges steps)"
    using levels_ok_acyclic [OF plan(2), of "dependency_edges steps"] dependency_edges_deps [OF dist] by auto
  moreover have "set (ws_DependsOn s) \<subseteq> step_ids steps" if s: "s \<in> set steps" for s
  proof -
    have "ws_ID s \<in> set (concat ?out)" using s ids by blast
    then obtain k where "k < length ?out" "ws_ID s \<in> set (?out ! k)" unfolding in_concat_nth by blast
    then have "set (deps_of steps (ws_ID s)) \<subseteq> set (concat (take k ?out))"
      using plan(2) unfolding levels_ok_def level_ok_def by blast
    also have "\<dots> \<subseteq> step_ids steps" unfolding ids [symmetric] set_concat by (blast dest: in_set_takeD)
    finally show ?thesis by (simp add: deps_of_distinct [OF dist s])
  qed
  ultimately show ?thesis using Inr by auto
qed

lemma plan_layers:
  assumes "distinct (map ws_ID steps)" "buildExecutionLevels steps = Inr levels"
  shows "mset (concat levels) = mset steps \<and> (\<forall>k < length levels. levels ! k \<noteq> [] \<and> (\<forall>s \<in> set (levels ! k).
    (\<forall>d \<in> set (ws_DependsOn s). \<exists>j < k. d \<in> step_ids (levels ! j)) \<and>
    (0 < k \<longrightarrow> (\<exists>d \<in> set (ws_DependsOn s). d \<in> step_ids (levels ! (k - 1))))))"
proof -
  let ?out = "map (map ws_ID) levels"
  have plan: "mset (concat levels) = mset steps" "levels_ok (deps_of steps) ?out" using plan_ids [OF assms] by simp_all
  have level: "level_ok (deps_of steps) (take k ?out) (map ws_ID (levels ! k))" if "k < length levels" for k
    using plan(2) that by (simp add: levels_ok_def)
  have step: "(\<forall>d \<in> set (ws_DependsOn s). \<exists>j < k. d \<in> step_ids (levels ! j)) \<and>
    (0 < k \<longrightarrow> (\<exists>d \<in> set (ws_DependsOn s). d \<in> step_ids (levels ! (k - 1))))"
    if k: "k < length levels" and s: "s \<in> set (levels ! k)" for k s
  proof -
    have "s \<in> set (concat levels)" using k s unfolding in_concat_nth by blast
    then have "s \<in> set steps" using plan(1) by (metis mset_eq_setD)
    then have "deps_of steps (ws_ID s) = ws_DependsOn s" by (rule deps_of_distinct [OF assms(1)])
    moreover have "ws_ID s \<in> set (map ws_ID (levels ! k))" using s by simp
    ultimately have deps: "set (ws_DependsOn s) \<subseteq> set (concat (take k ?out))"
        "take k ?out \<noteq> [] \<Longrightarrow> set (ws_DependsOn s) \<inter> set (last (take k ?out)) \<noteq> {}"
      using level [OF k] unfolding level_ok_def by metis+
    have "\<exists>j < k. d \<in> step_ids (levels ! j)" if "d \<in> set (ws_DependsOn s)" for d
    proof -
      have "d \<in> set (concat (take k ?out))" using deps(1) that by blast
      then show ?thesis unfolding in_concat_nth by auto
    qed
    moreover have "last (take k ?out) = map ws_ID (levels ! (k - 1))" if "0 < k"
    proof -
      have "length (take k ?out) = k" "take k ?out \<noteq> []" using that k by auto
      then show ?thesis using that k by (simp add: last_conv_nth del: take_eq_Nil take_map)
    qed
    moreover have "take k ?out \<noteq> []" if "0 < k" using that k by auto
    ultimately show ?thesis using deps(2) by (metis disjoint_iff list.set_map)
  qed
  have "levels ! k \<noteq> []" if "k < length levels" for k using level [OF that] by (simp add: level_ok_def)
  then show ?thesis using plan(1) step by blast
qed

text \<open>
  Claim C22: the execution plan is a topological order of the steps in layers. Each step is planned exactly once; every
  dependency of a step is in a strictly earlier layer; no layer is empty; and a step is never later than it has to be:
  outside the first layer it depends on a step of the layer just before its own.
\<close>

theorem execution_levels_topological:
  assumes "distinct (map ws_ID steps)" "buildExecutionLevels steps = Inr levels"
  shows "mset (concat levels) = mset steps \<and> (\<forall>k < length levels. levels ! k \<noteq> [] \<and> (\<forall>s \<in> set (levels ! k).
    (\<forall>d \<in> set (ws_DependsOn s). \<exists>j < k. d \<in> step_ids (levels ! j)) \<and>
    (0 < k \<longrightarrow> (\<exists>d \<in> set (ws_DependsOn s). d \<in> step_ids (levels ! (k - 1))))))"
  by (rule plan_layers [OF assms])

theorem execution_levels_topological_witness:
  "\<exists>levels. buildExecutionLevels [tool_step ''c'' ''t'' [''a'', ''b''], tool_step ''a'' ''t'' [], tool_step ''b'' ''t'' []] = Inr levels \<and>
    length levels = 2 \<and> (\<forall>s \<in> set (levels ! 1). \<exists>d \<in> set (ws_DependsOn s). d \<in> step_ids (levels ! 0))"
proof -
  let ?steps = "[tool_step ''c'' ''t'' [''a'', ''b''], tool_step ''a'' ''t'' [], tool_step ''b'' ''t'' []]"
  have "distinct (map ws_ID ?steps)" by (simp add: tool_step_def)
  moreover obtain levels where levels: "buildExecutionLevels ?steps = Inr levels" "length levels = 2"
    by (simp add: buildExecutionLevels_def build_graph_def init_graph_def add_dependency_def tool_step_def build_levels.simps
        ready_def release_def decrement_def degree_def dependents_of_def)
  ultimately have "\<forall>k < length levels. \<forall>s \<in> set (levels ! k). 0 < k \<longrightarrow> (\<exists>d \<in> set (ws_DependsOn s). d \<in> step_ids (levels ! (k - 1)))"
    using execution_levels_topological [of ?steps levels] by blast
  from this [rule_format, of 1] show ?thesis using levels by auto
qed

text \<open>
  Claim C23: planning ends, and it fails exactly when no plan exists. For steps with different identifiers the loop of
  \<open>buildExecutionLevels\<close> returns levels if and only if every dependency names a step and the dependencies are acyclic;
  otherwise it returns an error that wraps \<open>ErrCircularDependency\<close>, also when the fault is a dependency on a missing step.
\<close>

theorem buildExecutionLevels_decides_plan:
  assumes "distinct (map ws_ID steps)"
  shows "case buildExecutionLevels steps of
     Inr levels \<Rightarrow> (\<forall>s \<in> set steps. set (ws_DependsOn s) \<subseteq> step_ids steps) \<and> acyclic (dependency_edges steps)
   | Inl e \<Rightarrow> \<not> ((\<forall>s \<in> set steps. set (ws_DependsOn s) \<subseteq> step_ids steps) \<and> acyclic (dependency_edges steps)) \<and>
       errors_Is e ErrCircularDependency"
proof (cases "buildExecutionLevels steps")
  case (Inl e)
  then show ?thesis using plan_exists [OF assms] buildExecutionLevels_cases [of steps] by auto
next
  case (Inr levels)
  then show ?thesis using plan_exists [OF assms] by auto
qed

theorem buildExecutionLevels_decides_plan_witness:
  "\<exists>e. buildExecutionLevels [tool_step ''a'' ''t'' [''ghost'']] = Inl e \<and> errors_Is e ErrCircularDependency"
proof -
  let ?steps = "[tool_step ''a'' ''t'' [''ghost'']]"
  have "distinct (map ws_ID ?steps)" by simp
  moreover obtain e where "buildExecutionLevels ?steps = Inl e"
    by (simp add: buildExecutionLevels_def build_graph_def init_graph_def add_dependency_def tool_step_def build_levels.simps
        ready_def degree_def dependents_of_def)
  ultimately show ?thesis using buildExecutionLevels_decides_plan [of ?steps] by auto
qed

lemma length_le_concat: "(\<forall>l \<in> set ls. l \<noteq> []) \<Longrightarrow> length ls \<le> length (concat ls)"
proof (induction ls)
  case (Cons l ls)
  then show ?case by (cases l) auto
qed simp

lemma plan_level_count:
  assumes "distinct (map ws_ID steps)" "buildExecutionLevels steps = Inr levels"
  shows "length levels \<le> length (concat levels) \<and> (levels = [] \<longleftrightarrow> steps = [])"
proof -
  have plan: "mset (concat levels) = mset steps" "levels_ok (deps_of steps) (map (map ws_ID) levels)"
    using plan_ids [OF assms] by simp_all
  then have ne: "\<forall>l \<in> set levels. l \<noteq> []" by (auto simp: levels_ok_def level_ok_def in_set_conv_nth)
  then have "levels = [] \<longleftrightarrow> concat levels = []" by (cases levels) auto
  also have "\<dots> \<longleftrightarrow> steps = []" using plan(1) by (metis mset_zero_iff)
  finally show ?thesis using length_le_concat [OF ne] by simp
qed

end
