(* ===== verification/Workflow_Validation.thy ===== *)
theory Workflow_Validation
  imports Workflow_Levels
begin

text \<open>
  The validation of workflow definitions in \<open>workflow_engine.go\<close> (\<open>pkg/vmcp/composer\<close>): the shape of the
  steps, their references and, by a depth-first search, the absence of dependency cycles.
\<close>

section \<open>Cycle detection\<close>

type_synonym graph = "(string, string list) gomap"

definition succs :: "graph \<Rightarrow> string \<Rightarrow> string list" where
  "succs g n = (case map_of g n of None \<Rightarrow> [] | Some ds \<Rightarrow> ds)"

definition graph_nodes :: "graph \<Rightarrow> string set" where
  "graph_nodes g = fst ` set g"

lemma finite_graph_nodes [simp]: "finite (graph_nodes g - A)"
  by (simp add: graph_nodes_def)

lemma succs_unknown: "n \<notin> graph_nodes g \<Longrightarrow> succs g n = []"
  by (simp add: succs_def graph_nodes_def map_of_eq_None_iff [THEN iffD2])

text \<open>
  The loop of the recursive closure \<open>hasCycle\<close> over the dependencies of one node, with the recursive call
  written out. \<open>visited\<close> and \<open>recStack\<close> are the keys that are true in the maps of those names; the
  result says whether a cycle was found.
\<close>

function hasCycle_loop :: "graph \<Rightarrow> string list \<Rightarrow> string list \<Rightarrow> string list \<Rightarrow> bool \<times> string list \<times> string list" where
  "hasCycle_loop g [] visited recStack = (False, visited, recStack)"
| "hasCycle_loop g (depID # rest) visited recStack =
     (if depID \<notin> set visited
      then case hasCycle_loop g (succs g depID) (depID # visited) (depID # recStack) of
          (True, visited', recStack') \<Rightarrow> (True, visited', recStack')
        | (False, visited', recStack') \<Rightarrow> hasCycle_loop g rest visited' (removeAll depID recStack')
      else if depID \<in> set recStack then (True, visited, recStack)
      else hasCycle_loop g rest visited recStack)"
  by pat_completeness auto

lemma hasCycle_loop_visited:
  "hasCycle_loop_dom (g, ds, v, r) \<Longrightarrow> hasCycle_loop g ds v r = (c, v', r') \<Longrightarrow> set v \<subseteq> set v'"
proof (induction g ds v r arbitrary: c v' r' rule: hasCycle_loop.pinduct)
  case (1 g v r)
  then show ?case by (simp add: hasCycle_loop.psimps)
next
  case (2 g d ds v r)
  show ?case
  proof (cases "d \<in> set v")
    case True
    then show ?thesis using 2 by (auto simp: hasCycle_loop.psimps split: if_splits)
  next
    case False
    obtain c1 v1 r1 where call: "hasCycle_loop g (succs g d) (d # v) (d # r) = (c1, v1, r1)"
      by (cases "hasCycle_loop g (succs g d) (d # v) (d # r)") auto
    then have "set (d # v) \<subseteq> set v1" using "2.IH"(1) False by blast
    moreover have "set v1 \<subseteq> set v'" 
      using 2 False call by (cases c1) (auto simp: hasCycle_loop.psimps)
    ultimately show ?thesis by auto
  qed
qed

termination hasCycle_loop
  apply (relation "inv_image (finite_psubset <*lex*> less_than) (\<lambda>(g, ds, v, r). (graph_nodes g - set v, length ds))")
  subgoal by auto
  subgoal for g d ds v r by (cases "d \<in> graph_nodes g") (auto simp: finite_psubset_def succs_unknown)
  subgoal for g d ds v r x y v1 r1
    using hasCycle_loop_visited [of g "succs g d" "d # v" "d # r" False v1 r1] by (auto simp: finite_psubset_def)
  subgoal by auto
  done

definition hasCycle :: "graph \<Rightarrow> string \<Rightarrow> string list \<Rightarrow> string list \<Rightarrow> bool \<times> string list \<times> string list" where
  "hasCycle g nodeID visited recStack =
     (case hasCycle_loop g (succs g nodeID) (nodeID # visited) (nodeID # recStack) of
        (True, visited', recStack') \<Rightarrow> (True, visited', recStack')
      | (False, visited', recStack') \<Rightarrow> (False, visited', removeAll nodeID recStack'))"

definition dep_relation :: "WorkflowStep list \<Rightarrow> graph" where
  "dep_relation steps = fold (\<lambda>s. AList.update (ws_ID s) (ws_DependsOn s)) steps []"

text \<open>The loop over all steps; the right result is the final \<open>visited\<close>.\<close>

fun check_cycles :: "graph \<Rightarrow> WorkflowStep list \<Rightarrow> string list \<Rightarrow> string list \<Rightarrow> goerror + string list" where
  "check_cycles g [] visited recStack = Inr visited"
| "check_cycles g (s # rest) visited recStack =
     (if ws_ID s \<notin> set visited
      then case hasCycle g (ws_ID s) visited recStack of
          (True, visited', recStack') \<Rightarrow> Inl (NewValidationError ''dependencies''
            (''circular dependency detected involving step '' @ ws_ID s) (Some circular_dependency))
        | (False, visited', recStack') \<Rightarrow> check_cycles g rest visited' recStack'
      else check_cycles g rest visited recStack)"

fun missing_dependency :: "WorkflowStep \<Rightarrow> string list \<Rightarrow> string list \<Rightarrow> goerror option" where
  "missing_dependency s [] visited = None"
| "missing_dependency s (depID # rest) visited = (if depID \<notin> set visited
     then Some (NewValidationError ''dependencies''
       (''step '' @ ws_ID s @ '' depends on non-existent step '' @ depID) None)
     else missing_dependency s rest visited)"

fun check_references :: "WorkflowStep list \<Rightarrow> string list \<Rightarrow> goerror option" where
  "check_references [] visited = None"
| "check_references (s # rest) visited = (case missing_dependency s (ws_DependsOn s) visited of
     Some e \<Rightarrow> Some e | None \<Rightarrow> check_references rest visited)"

definition validateDependencies :: "WorkflowStep list \<Rightarrow> goerror option" where
  "validateDependencies steps = (case check_cycles (dep_relation steps) steps [] [] of
     Inl e \<Rightarrow> Some e | Inr visited \<Rightarrow> check_references steps visited)"

section \<open>Validation of a definition\<close>

fun unknown_dependency :: "WorkflowStep \<Rightarrow> string list \<Rightarrow> string list \<Rightarrow> goerror option" where
  "unknown_dependency s [] validStepIDs = None"
| "unknown_dependency s (depID # rest) validStepIDs = (if depID \<notin> set validStepIDs
     then Some (NewValidationError ''step.depends_on''
       (''step '' @ ws_ID s @ '' depends on non-existent step '' @ depID) None)
     else unknown_dependency s rest validStepIDs)"

definition validate_type :: "WorkflowStep \<Rightarrow> goerror option" where
  "validate_type step = (case ws_Type step of
     StepTypeTool \<Rightarrow> if ws_Tool step = ''''
       then Some (NewValidationError ''step.tool'' (''tool name is required for tool step '' @ ws_ID step) None) else None
   | StepTypeElicitation \<Rightarrow> (case ws_Elicitation step of
       None \<Rightarrow> Some (NewValidationError ''step.elicitation''
         (''elicitation config is required for elicitation step '' @ ws_ID step) None)
     | Some cfg \<Rightarrow> if ec_Message cfg = ''''
       then Some (NewValidationError ''step.elicitation.message''
         (''elicitation message is required for step '' @ ws_ID step) None) else None)
   | StepTypeForEach \<Rightarrow>
       if ws_Collection step = ''''
       then Some (NewValidationError ''step.collection'' (''collection is required for forEach step '' @ ws_ID step) None)
       else if ws_InnerStep step = None
       then Some (NewValidationError ''step.innerStep'' (''inner step is required for forEach step '' @ ws_ID step) None)
       else None
   | StepTypeOther t \<Rightarrow> Some (NewValidationError ''step.type'' (''invalid step type '' @ quoted t @ '' for step '' @ ws_ID step) None))"

definition validateStep :: "WorkflowStep \<Rightarrow> string list \<Rightarrow> goerror option" where
  "validateStep step validStepIDs = (case validate_type step of Some e \<Rightarrow> Some e
     | None \<Rightarrow> unknown_dependency step (ws_DependsOn step) validStepIDs)"

fun validate_steps :: "WorkflowStep list \<Rightarrow> string list \<Rightarrow> goerror option" where
  "validate_steps [] validStepIDs = None"
| "validate_steps (s # rest) validStepIDs = (case validateStep s validStepIDs of Some e \<Rightarrow> Some e
     | None \<Rightarrow> validate_steps rest validStepIDs)"

fun collect_ids :: "WorkflowStep list \<Rightarrow> string list \<Rightarrow> goerror + string list" where
  "collect_ids [] stepIDs = Inr stepIDs"
| "collect_ids (s # rest) stepIDs =
     (if ws_ID s = '''' then Inl (NewValidationError ''step.id'' ''step ID is required'' None)
      else if ws_ID s \<in> set stepIDs
      then Inl (NewValidationError ''step.id'' (''duplicate step ID: '' @ ws_ID s) None)
      else collect_ids rest (ws_ID s # stepIDs))"

definition maxWorkflowSteps :: nat where
  "maxWorkflowSteps = 100"

text \<open>The output configuration is checked by the argument \<open>validateOutput\<close>.\<close>

definition ValidateWorkflow :: "('o \<Rightarrow> goerror option) \<Rightarrow> 'o WorkflowDefinition option \<Rightarrow> goerror option" where
  "ValidateWorkflow validateOutput definition' = (case definition' of
     None \<Rightarrow> Some (NewValidationError ''workflow'' ''workflow definition is nil'' None)
   | Some d \<Rightarrow>
       if wd_Name d = '''' then Some (NewValidationError ''name'' ''workflow name is required'' None)
       else if length (wd_Steps d) = 0
       then Some (NewValidationError ''steps'' ''workflow must have at least one step'' None)
       else if length (wd_Steps d) > maxWorkflowSteps
       then Some (NewValidationError ''steps''
         (''too many steps: '' @ show_int (int (length (wd_Steps d))) @ '' (max '' @ show_int (int maxWorkflowSteps) @ '')'') None)
       else case collect_ids (wd_Steps d) [] of Inl e \<Rightarrow> Some e
         | Inr stepIDs \<Rightarrow> (case validateDependencies (wd_Steps d) of Some e \<Rightarrow> Some e
           | None \<Rightarrow> (case validate_steps (wd_Steps d) stepIDs of Some e \<Rightarrow> Some e
             | None \<Rightarrow> (case wd_Output d of None \<Rightarrow> None | Some out \<Rightarrow> validateOutput out))))"

section \<open>The depth-first search\<close>

definition edges :: "graph \<Rightarrow> (string \<times> string) set" where
  "edges g = {(n, d). d \<in> set (succs g n)}"

text \<open>
  The nodes that are visited and off the stack are finished: their successors are finished and none of
  them is on a cycle. The stack is a path, its head the node whose dependencies are being scanned.
\<close>

definition search_ok :: "graph \<Rightarrow> string list \<Rightarrow> string list \<Rightarrow> bool" where
  "search_ok g v r \<longleftrightarrow> set r \<subseteq> set v \<and>
     (\<forall>x \<in> set v - set r. set (succs g x) \<subseteq> set v - set r \<and> (x, x) \<notin> (edges g)\<^sup>+)"

fun stack_path :: "graph \<Rightarrow> string list \<Rightarrow> bool" where
  "stack_path g (y # x # r) \<longleftrightarrow> y \<in> set (succs g x) \<and> stack_path g (x # r)"
| "stack_path g r \<longleftrightarrow> True"

lemma stack_path_reach: "stack_path g (x # r) \<Longrightarrow> y \<in> set (x # r) \<Longrightarrow> (y, x) \<in> (edges g)\<^sup>*"
proof (induction r arbitrary: x)
  case (Cons z r)
  then have "(z, x) \<in> edges g" by (simp add: edges_def)
  then show ?case using Cons by (auto intro: rtrancl_into_rtrancl)
qed simp

lemma finished_closed:
  assumes ok: "search_ok g v r" and x: "x \<in> set v - set r" and xy: "(x, y) \<in> (edges g)\<^sup>*"
  shows "y \<in> set v - set r"
  using xy
proof (induction rule: rtrancl_induct)
  case (step y z)
  then have "z \<in> set (succs g y)" by (simp add: edges_def)
  then show ?case using ok step.IH unfolding search_ok_def by blast
qed (rule x)

text \<open>Taking the head off the stack once its successors are finished.\<close>

lemma search_ok_pop:
  assumes ok: "search_ok g v (d # r)" and d: "d \<notin> set r" and succ: "set (succs g d) \<subseteq> set v - set (d # r)"
  shows "search_ok g v r"
proof -
  let ?F = "set v - set (d # r)"
  have "(d, d) \<notin> (edges g)\<^sup>+"
  proof
    assume "(d, d) \<in> (edges g)\<^sup>+"
    then obtain y where "(d, y) \<in> edges g" "(y, d) \<in> (edges g)\<^sup>*" by (meson tranclD)
    then have "y \<in> ?F" "(y, d) \<in> (edges g)\<^sup>*" using succ by (auto simp: edges_def)
    then have "d \<in> ?F" by (rule finished_closed [OF ok])
    then show False by simp
  qed
  moreover have "set v - set r = insert d ?F" using ok d by (auto simp: search_ok_def)
  ultimately show ?thesis using ok succ unfolding search_ok_def by auto
qed

definition search_post :: "graph \<Rightarrow> string list \<Rightarrow> string list \<Rightarrow> string list \<Rightarrow> bool \<times> string list \<times> string list \<Rightarrow> bool" where
  "search_post g ds v r = (\<lambda>(c, v', r'). if c then \<exists>x. (x, x) \<in> (edges g)\<^sup>+
     else r' = r \<and> search_ok g v' r \<and> set v \<subseteq> set v' \<and> set ds \<subseteq> set v' - set r)"

lemma hasCycle_loop_correct:
  "search_ok g v r \<Longrightarrow> stack_path g r \<Longrightarrow> r \<noteq> [] \<Longrightarrow> set ds \<subseteq> set (succs g (hd r)) \<Longrightarrow>
   search_post g ds v r (hasCycle_loop g ds v r)"
proof (induction g ds v r rule: hasCycle_loop.induct)
  case (1 g v r)
  then show ?case by (simp add: search_post_def)
next
  case (2 g d ds v r)
  obtain x r0 where r: "r = x # r0" using "2.prems"(3) by (cases r) auto
  have edge: "(x, d) \<in> edges g" using "2.prems"(4) r by (simp add: edges_def)
  consider (fresh) "d \<notin> set v" | (stack) "d \<in> set v" "d \<in> set r" | (old) "d \<in> set v" "d \<notin> set r" by blast
  then show ?case
  proof cases
    case stack
    then have "(d, x) \<in> (edges g)\<^sup>*" using stack_path_reach [of g x r0 d] "2.prems"(2) r by simp
    then have "(d, d) \<in> (edges g)\<^sup>+" using edge by (rule rtrancl_into_trancl1)
    then show ?thesis using stack by (auto simp: search_post_def)
  next
    case old
    then have "search_post g ds v r (hasCycle_loop g ds v r)" using 2 by auto
    then show ?thesis using old by (auto simp: search_post_def split: prod.splits)
  next
    case fresh
    obtain c1 v1 r1 where call: "hasCycle_loop g (succs g d) (d # v) (d # r) = (c1, v1, r1)"
      by (cases "hasCycle_loop g (succs g d) (d # v) (d # r)") auto
    have "set (d # v) - set (d # r) = set v - set r" using fresh "2.prems"(1) by (auto simp: search_ok_def)
    then have "search_ok g (d # v) (d # r)" using "2.prems"(1) by (auto simp: search_ok_def)
    moreover have "stack_path g (d # r)" using "2.prems"(2) edge r by (simp add: edges_def)
    ultimately have post1: "search_post g (succs g d) (d # v) (d # r) (c1, v1, r1)"
      using "2.IH"(1) [OF fresh] call by simp
    show ?thesis
    proof (cases c1)
      case True
      then show ?thesis using post1 call fresh by (simp add: search_post_def)
    next
      case False
      have dr: "d \<notin> set r" using fresh "2.prems"(1) by (auto simp: search_ok_def)
      have v1: "r1 = d # r" "search_ok g v1 (d # r)" "set (d # v) \<subseteq> set v1" "set (succs g d) \<subseteq> set v1 - set (d # r)"
        using post1 False by (auto simp: search_post_def)
      have "search_ok g v1 r" by (rule search_ok_pop [OF v1(2) dr v1(4)])
      then have "search_post g ds v1 r (hasCycle_loop g ds v1 r)"
        using "2.IH"(2) [OF fresh call [symmetric]] False v1(1) dr "2.prems" by simp
      then show ?thesis using call fresh False v1 dr by (fastforce simp: search_post_def split: prod.splits)
    qed
  qed
qed

lemma hasCycle_correct:
  assumes ok: "search_ok g v []" and n: "n \<notin> set v"
  shows "case hasCycle g n v [] of (c, v', r') \<Rightarrow> if c then \<exists>x. (x, x) \<in> (edges g)\<^sup>+
    else r' = [] \<and> search_ok g v' [] \<and> set (n # v) \<subseteq> set v'"
proof -
  obtain c v' r' where call: "hasCycle_loop g (succs g n) (n # v) [n] = (c, v', r')"
    by (cases "hasCycle_loop g (succs g n) (n # v) [n]") auto
  have "search_ok g (n # v) [n]" using ok n by (auto simp: search_ok_def)
  then have post: "search_post g (succs g n) (n # v) [n] (c, v', r')"
    using hasCycle_loop_correct [of g "n # v" "[n]" "succs g n"] call by simp
  show ?thesis
  proof (cases c)
    case False
    then have "search_ok g v' [n]" "set (succs g n) \<subseteq> set v' - set [n]" "r' = [n]" "set (n # v) \<subseteq> set v'"
      using post by (auto simp: search_post_def)
    then show ?thesis using search_ok_pop [of g v' n "[]"] False call by (simp add: hasCycle_def)
  qed (use post call in \<open>simp add: hasCycle_def search_post_def\<close>)
qed

lemma check_cycles_correct:
  "search_ok g v [] \<Longrightarrow> case check_cycles g steps v [] of
     Inl e \<Rightarrow> (\<exists>x. (x, x) \<in> (edges g)\<^sup>+) \<and> errors_Is e ErrCircularDependency
   | Inr v' \<Rightarrow> search_ok g v' [] \<and> set v \<union> ws_ID ` set steps \<subseteq> set v'"
proof (induction steps arbitrary: v)
  case (Cons s steps)
  show ?case
  proof (cases "ws_ID s \<in> set v")
    case True
    then show ?thesis using Cons.IH [OF Cons.prems] by (auto split: sum.splits)
  next
    case False
    obtain c v' r' where call: "hasCycle g (ws_ID s) v [] = (c, v', r')" by (cases "hasCycle g (ws_ID s) v []") auto
    note post = hasCycle_correct [OF Cons.prems False, unfolded call prod.case]
    show ?thesis
    proof (cases c)
      case True
      then show ?thesis using post call False
        by (simp add: errors_Is_def NewValidationError_def circular_dependency_def)
    next
      case c: False
      then show ?thesis using post call False Cons.IH [of v'] by (auto split: sum.splits)
    qed
  qed
qed (simp add: search_ok_def)

lemma dep_relation_lookup:
  "map_of (dep_relation steps) n = map_option ws_DependsOn (find (\<lambda>s. ws_ID s = n) (rev steps))"
  unfolding dep_relation_def by (induction steps rule: rev_induct) auto

lemma dep_relation_nodes: "succs (dep_relation steps) n \<noteq> [] \<Longrightarrow> n \<in> ws_ID ` set steps"
  using find_Some [of "\<lambda>s. ws_ID s = n" "rev steps"]
  by (fastforce simp: succs_def dep_relation_lookup split: option.splits)

lemma dep_relation_distinct:
  assumes "distinct (map ws_ID steps)" "s \<in> set steps"
  shows "succs (dep_relation steps) (ws_ID s) = ws_DependsOn s"
proof -
  have "find (\<lambda>e. ws_ID e = ws_ID s) (rev steps) = Some s \<longleftrightarrow> s \<in> set (rev steps) \<and> ws_ID s = ws_ID s"
    by (rule find_unique_iff) (use assms distinct_keys_unique [of ws_ID steps] in auto)
  then show ?thesis using assms(2) by (simp add: succs_def dep_relation_lookup)
qed

lemma missing_dependency_None: "missing_dependency s ds v = None \<longleftrightarrow> set ds \<subseteq> set v"
  by (induction ds) auto

lemma check_references_None: "check_references steps v = None \<longleftrightarrow> (\<forall>s \<in> set steps. set (ws_DependsOn s) \<subseteq> set v)"
proof (induction steps)
  case (Cons s steps)
  then show ?case using missing_dependency_None [of s "ws_DependsOn s" v]
    by (cases "missing_dependency s (ws_DependsOn s) v") auto
qed simp

lemma edges_dep_relation:
  assumes "distinct (map ws_ID steps)"
  shows "edges (dep_relation steps) = dependency_edges steps"
proof -
  have "(n, d) \<in> edges (dep_relation steps) \<longleftrightarrow> (\<exists>s \<in> set steps. ws_ID s = n \<and> d \<in> set (ws_DependsOn s))" for n d
    using dep_relation_nodes [of steps n] dep_relation_distinct [OF assms] by (fastforce simp: edges_def)
  then show ?thesis by auto
qed

lemma validateDependencies_acyclic:
  assumes "distinct (map ws_ID steps)"
  shows "(validateDependencies steps = None \<longleftrightarrow> acyclic (dependency_edges steps)) \<and>
    (\<forall>e. validateDependencies steps = Some e \<longrightarrow> errors_Is e ErrCircularDependency)"
proof -
  let ?g = "dep_relation steps"
  have E: "edges ?g = dependency_edges steps" by (rule edges_dep_relation [OF assms])
  have "search_ok ?g [] []" by (simp add: search_ok_def)
  note checked = check_cycles_correct [OF this, of steps]
  show ?thesis
  proof (cases "check_cycles ?g steps [] []")
    case (Inl e)
    then show ?thesis using checked by (auto simp: validateDependencies_def acyclic_def simp flip: E)
  next
    case (Inr v)
    then have v: "search_ok ?g v []" "ws_ID ` set steps \<subseteq> set v" using checked by auto
    have "set (ws_DependsOn s) \<subseteq> set v" if "s \<in> set steps" for s
      using v that dep_relation_distinct [OF assms that] by (fastforce simp: search_ok_def)
    then have "check_references steps v = None" by (simp add: check_references_None)
    moreover have "(x, x) \<notin> (edges ?g)\<^sup>+" for x
    proof
      assume c: "(x, x) \<in> (edges ?g)\<^sup>+"
      then obtain y where "(x, y) \<in> edges ?g" by (meson tranclD)
      then have "succs ?g x \<noteq> []" by (auto simp: edges_def)
      then have "x \<in> set v" using dep_relation_nodes v(2) by blast
      then show False using v(1) c by (simp add: search_ok_def)
    qed
    ultimately show ?thesis using Inr by (simp add: validateDependencies_def acyclic_def flip: E)
  qed
qed

text \<open>
  Claim C13: the depth-first search decides acyclicity. For steps with different identifiers,
  \<open>validateDependencies\<close> accepts exactly the acyclic dependency graphs, and what it rejects it rejects
  as a circular dependency; the search always ends. Its later check for dependencies on steps that do not exist never
  rejects anything, since the search visits every dependency it meets.
\<close>

theorem validateDependencies_decides_acyclicity:
  assumes "distinct (map ws_ID steps)"
  shows "(validateDependencies steps = None \<longleftrightarrow> acyclic (dependency_edges steps)) \<and>
    (\<forall>e. validateDependencies steps = Some e \<longrightarrow> errors_Is e ErrCircularDependency)"
  by (rule validateDependencies_acyclic [OF assms])

theorem validateDependencies_decides_acyclicity_witness:
  "validateDependencies [tool_step ''a'' ''t'' [], tool_step ''b'' ''t'' [''a'']] = None \<and>
   (\<exists>e. validateDependencies [tool_step ''a'' ''t'' [''b''], tool_step ''b'' ''t'' [''a'']] = Some e \<and>
      errors_Is e ErrCircularDependency)"
proof -
  let ?cyc = "[tool_step ''a'' ''t'' [''b''], tool_step ''b'' ''t'' [''a'']]"
  have "distinct (map ws_ID ?cyc)" by (simp add: tool_step_def)
  moreover obtain e where e: "validateDependencies ?cyc = Some e"
    by (simp add: validateDependencies_def dep_relation_def tool_step_def hasCycle_def succs_def)
  ultimately have "errors_Is e ErrCircularDependency" using validateDependencies_decides_acyclicity [of ?cyc] by blast
  moreover have "validateDependencies [tool_step ''a'' ''t'' [], tool_step ''b'' ''t'' [''a'']] = None"
    by (simp add: validateDependencies_def dep_relation_def tool_step_def hasCycle_def succs_def)
  ultimately show ?thesis using e by blast
qed

section \<open>Validated workflows\<close>

lemma collect_ids_ok:
  "collect_ids steps seen = Inr ids \<Longrightarrow> distinct seen \<Longrightarrow>
   distinct (map ws_ID steps) \<and> set ids = set seen \<union> step_ids steps \<and> '''' \<notin> step_ids steps \<and> set seen \<inter> step_ids steps = {}"
proof (induction steps arbitrary: seen)
  case (Cons s steps)
  then have "ws_ID s \<noteq> ''''" "ws_ID s \<notin> set seen" "collect_ids steps (ws_ID s # seen) = Inr ids"
    by (auto split: if_splits)
  then show ?case using Cons.IH [of "ws_ID s # seen"] Cons.prems(2) by auto
qed simp

lemma collect_ids_complete:
  "distinct (map ws_ID steps) \<Longrightarrow> [] \<notin> step_ids steps \<Longrightarrow> set seen \<inter> step_ids steps = {} \<Longrightarrow>
   \<exists>ids. collect_ids steps seen = Inr ids \<and> set ids = set seen \<union> step_ids steps"
proof (induction steps arbitrary: seen)
  case (Cons s steps)
  then show ?case using Cons.IH [of "ws_ID s # seen"] by auto
qed simp

lemma unknown_dependency_None: "unknown_dependency s ds ids = None \<longleftrightarrow> set ds \<subseteq> set ids"
  by (induction ds) auto

lemma validate_steps_None: "validate_steps steps ids = None \<longleftrightarrow> (\<forall>s \<in> set steps. validateStep s ids = None)"
  by (induction steps) (auto split: option.splits)

lemma ValidateWorkflow_steps:
  assumes "ValidateWorkflow vo (Some d) = None"
  obtains ids where "collect_ids (wd_Steps d) [] = Inr ids" "validateDependencies (wd_Steps d) = None"
    "validate_steps (wd_Steps d) ids = None" "wd_Steps d \<noteq> []" "length (wd_Steps d) \<le> maxWorkflowSteps"
  using assms by (auto simp: ValidateWorkflow_def split: if_splits sum.splits option.splits)

text \<open>
  Claim C11: a workflow that passed validation can be planned. When \<open>ValidateWorkflow\<close> accepts a definition its steps have
  different, non-empty identifiers, there are between one and one hundred of them, and \<open>buildExecutionLevels\<close> returns
  levels: execution never fails for want of a plan. The two graph algorithms, the recursive search of the validator and
  the degree counting of the executor, agree.
\<close>

theorem validated_workflow_has_plan:
  assumes "ValidateWorkflow validateOutput (Some d) = None"
  shows "distinct (map ws_ID (wd_Steps d)) \<and> '''' \<notin> step_ids (wd_Steps d) \<and> length (wd_Steps d) \<in> {1..100} \<and>
    (\<exists>levels. buildExecutionLevels (wd_Steps d) = Inr levels \<and> length levels \<in> {1..length (wd_Steps d)})"
proof -
  let ?steps = "wd_Steps d"
  obtain ids where ok: "collect_ids ?steps [] = Inr ids" "validateDependencies ?steps = None"
      "validate_steps ?steps ids = None" "?steps \<noteq> []" "length ?steps \<le> maxWorkflowSteps"
    by (rule ValidateWorkflow_steps [OF assms])
  have ids: "distinct (map ws_ID ?steps)" "set ids = step_ids ?steps" "'''' \<notin> step_ids ?steps"
    using collect_ids_ok [OF ok(1)] by auto
  have "set (ws_DependsOn s) \<subseteq> step_ids ?steps" if "s \<in> set ?steps" for s
    using ok(3) that by (auto simp: validate_steps_None validateStep_def unknown_dependency_None ids(2) split: option.splits)
  moreover have "acyclic (dependency_edges ?steps)" using validateDependencies_acyclic [OF ids(1)] ok(2) by simp
  ultimately obtain levels where levels: "buildExecutionLevels ?steps = Inr levels" using plan_exists [OF ids(1)] by auto
  have "length levels \<le> length (concat levels) \<and> (levels = [] \<longrightarrow> ?steps = [])"
    using plan_level_count [OF ids(1) levels] by auto
  moreover have "length (concat levels) = length ?steps" using plan_ids [OF ids(1) levels] by (metis mset_eq_length)
  ultimately show ?thesis using ids(1,3) levels ok(4,5) by (auto simp: maxWorkflowSteps_def Suc_le_eq)
qed

definition example_workflow :: "unit WorkflowDefinition" where
  "example_workflow = \<lparr>wd_Name = ''report'', wd_Description = [], wd_Parameters = [],
     wd_Steps = [tool_step ''publish'' ''wiki.write'' [''fetch'', ''lint''], tool_step ''fetch'' ''git.read'' [],
       tool_step ''lint'' ''git.lint'' [''fetch'']],
     wd_Timeout = 0, wd_FailureMode = ''abort'', wd_Output = None, wd_Annotations = None, wd_Metadata = []\<rparr>"

theorem validated_workflow_has_plan_witness:
  "ValidateWorkflow (\<lambda>_. None) (Some example_workflow) = None \<and>
   (\<exists>levels. buildExecutionLevels (wd_Steps example_workflow) = Inr levels \<and> length levels \<in> {1..3})"
proof -
  have ok: "ValidateWorkflow (\<lambda>_. None) (Some example_workflow) = None"
    by (simp add: ValidateWorkflow_def example_workflow_def tool_step_def maxWorkflowSteps_def validateDependencies_def
        dep_relation_def hasCycle_def succs_def validateStep_def validate_type_def)
  moreover have "length (wd_Steps example_workflow) = 3" by (simp add: example_workflow_def)
  ultimately show ?thesis using validated_workflow_has_plan [OF ok] by auto
qed

end
