(* ===== verification/Composite_Config.thy ===== *)
theory Composite_Config
  imports Output_Validation Workflow_Validation
begin

text \<open>
  The configuration of composite tools (\<open>pkg/vmcp/config/config.go\<close>), its validation
  (\<open>pkg/vmcp/config/composite_validation.go\<close>) and the references its templates make (\<open>pkg/templates/references.go\<close>).

  The parser of \<open>text/template\<close> and the JSON Schema library are arguments, the fields of \<open>config_env\<close>: the first takes the name of
  the new template and its text and gives the root of every template the text defines, as the node types of \<open>text/template/parse\<close>, the second says whether a schema can be
  compiled. A \<open>thvjson.Map\<close> is a map or nil, and its conversion to a map never fails. A nil dereference is the outcome \<open>Panic\<close>.
\<close>

section \<open>References in templates\<close>

datatype tnode = ListNode "tnode list" | ActionNode tnode | PipeNode "tnode list" "tnode list" | CommandNode "tnode list"
  | FieldNode "string list" | ChainNode tnode "string list" | IfNode tnode tnode "tnode option"
  | RangeNode tnode tnode "tnode option" | WithNode tnode tnode "tnode option" | TemplateNode "tnode option" | OtherNode

datatype 'a outcome = Return 'a | Fail goerror | Panic

record config_env =
  ce_parse :: "string \<Rightarrow> string \<Rightarrow> goerror + tnode option list"
  ce_schema :: "json_object \<Rightarrow> goerror option"

fun join_strings :: "string \<Rightarrow> string list \<Rightarrow> string" where
  "join_strings sep [] = []"
| "join_strings sep [s] = s"
| "join_strings sep (s # ss) = s @ sep @ join_strings sep ss"

definition field_path :: "string list \<Rightarrow> string" where
  "field_path idents = ''.'' @ join_strings ''.'' idents"

text \<open>
  \<open>walkNode\<close> with the keys of the map \<open>refs\<close>. A template invocation without argument has a nil pipeline, which \<open>walkNode\<close> gets as an
  interface that is not nil, and whose commands it reads.
\<close>

fun walkNode :: "tnode \<Rightarrow> string list \<Rightarrow> string list option"
  and walkNodes :: "tnode list \<Rightarrow> string list \<Rightarrow> string list option"
  and walkElse :: "tnode option \<Rightarrow> string list \<Rightarrow> string list option" where
  "walkNode (ListNode nodes) refs = walkNodes nodes refs"
| "walkNode (ActionNode pipe) refs = walkNode pipe refs"
| "walkNode (PipeNode cmds decl) refs = (case walkNodes cmds refs of None \<Rightarrow> None | Some r \<Rightarrow> walkNodes decl r)"
| "walkNode (CommandNode args) refs = walkNodes args refs"
| "walkNode (FieldNode ident) refs = Some (List.insert (field_path ident) refs)"
| "walkNode (ChainNode node chain) refs = (case walkNode node refs of None \<Rightarrow> None
     | Some r \<Rightarrow> Some (if chain \<noteq> [] then List.insert (field_path chain) r else r))"
| "walkNode (IfNode pipe list elseList) refs = (case walkNode pipe refs of None \<Rightarrow> None
     | Some r \<Rightarrow> (case walkNode list r of None \<Rightarrow> None | Some r' \<Rightarrow> walkElse elseList r'))"
| "walkNode (RangeNode pipe list elseList) refs = (case walkNode pipe refs of None \<Rightarrow> None
     | Some r \<Rightarrow> (case walkNode list r of None \<Rightarrow> None | Some r' \<Rightarrow> walkElse elseList r'))"
| "walkNode (WithNode pipe list elseList) refs = (case walkNode pipe refs of None \<Rightarrow> None
     | Some r \<Rightarrow> (case walkNode list r of None \<Rightarrow> None | Some r' \<Rightarrow> walkElse elseList r'))"
| "walkNode (TemplateNode None) refs = None"
| "walkNode (TemplateNode (Some pipe)) refs = walkNode pipe refs"
| "walkNode OtherNode refs = Some refs"
| "walkNodes [] refs = Some refs"
| "walkNodes (n # ns) refs = (case walkNode n refs of None \<Rightarrow> None | Some r \<Rightarrow> walkNodes ns r)"
| "walkElse None refs = Some refs"
| "walkElse (Some node) refs = walkNode node refs"

definition ExtractReferencesFromTemplate :: "tnode option list \<Rightarrow> string list option" where
  "ExtractReferencesFromTemplate roots = walkNodes (map the (filter (\<lambda>r. r \<noteq> None) roots)) []"

definition ExtractReferences :: "config_env \<Rightarrow> string \<Rightarrow> string list outcome" where
  "ExtractReferences env tmplStr = (case ce_parse env ''extract'' tmplStr of Inl e \<Rightarrow> Fail e
     | Inr roots \<Rightarrow> (case ExtractReferencesFromTemplate roots of None \<Rightarrow> Panic | Some refs \<Rightarrow> Return refs))"

section \<open>Configuration\<close>

record StepErrorHandling =
  seh_Action :: string
  seh_RetryCount :: int
  seh_RetryDelay :: duration

record ElicitationResponseConfig =
  erc_Action :: string

datatype WorkflowStepConfig = WorkflowStepConfig
  (wsc_ID: string) (wsc_Type: string) (wsc_Tool: string) (wsc_Arguments: "json_object option") (wsc_Condition: string)
  (wsc_DependsOn: "string list") (wsc_OnError: "StepErrorHandling option") (wsc_Message: string) (wsc_Schema: "json_object option")
  (wsc_Timeout: duration) (wsc_OnDecline: "ElicitationResponseConfig option") (wsc_OnCancel: "ElicitationResponseConfig option")
  (wsc_DefaultResults: "json_object option") (wsc_Collection: string) (wsc_ItemVar: string) (wsc_MaxParallel: int)
  (wsc_MaxIterations: int) (wsc_InnerStep: "WorkflowStepConfig option")

record CompositeToolConfig =
  ctc_Name :: string
  ctc_Description :: string
  ctc_Parameters :: "json_object option"
  ctc_Timeout :: duration
  ctc_Steps :: "WorkflowStepConfig list"
  ctc_Output :: "OutputConfig option"
  ctc_Annotations :: "ToolAnnotationsOverride option"

definition map_value :: "json_object option \<Rightarrow> json_object" where
  "map_value m = (case m of None \<Rightarrow> [] | Some x \<Rightarrow> x)"

text \<open>The string values of a map, which are the templates among its arguments.\<close>

fun string_values :: "json_object \<Rightarrow> (string \<times> string) list" where
  "string_values [] = []"
| "string_values ((k, JString t) # rest) = (k, t) # string_values rest"
| "string_values (_ # rest) = string_values rest"

definition is_alpha :: "char \<Rightarrow> bool" where
  "is_alpha c = (let n = (of_char c :: nat) in 65 \<le> n \<and> n \<le> 90 \<or> 97 \<le> n \<and> n \<le> 122)"

definition is_digit :: "char \<Rightarrow> bool" where
  "is_digit c = (let n = (of_char c :: nat) in 48 \<le> n \<and> n \<le> 57)"

definition isValidGoIdentifier :: "string \<Rightarrow> bool" where
  "isValidGoIdentifier s = (case s of [] \<Rightarrow> False
     | c # cs \<Rightarrow> (is_alpha c \<or> c = CHR ''_'') \<and> list_all (\<lambda>d. is_alpha d \<or> is_digit d \<or> d = CHR ''_'') cs)"

definition IsValidToolReference :: "string \<Rightarrow> bool" where
  "IsValidToolReference tool = (case tool of [] \<Rightarrow> False
     | c # cs \<Rightarrow> (is_alpha c \<or> is_digit c) \<and>
         list_all (\<lambda>d. is_alpha d \<or> is_digit d \<or> d \<in> {CHR ''.'', CHR ''_'', CHR ''-''}) cs)"

section \<open>Validation of steps\<close>

definition at_step :: "string \<Rightarrow> nat \<Rightarrow> string" where
  "at_step pathPrefix index = pathPrefix @ ''['' @ show_nat index @ '']''"

definition ValidateTemplate :: "config_env \<Rightarrow> string \<Rightarrow> goerror option" where
  "ValidateTemplate env tmpl = (case ce_parse env ''validation'' tmpl of Inl e \<Rightarrow> Some (wrap_error ''invalid template syntax: '' e) | Inr _ \<Rightarrow> None)"

definition ValidateJSONSchema :: "config_env \<Rightarrow> json_object \<Rightarrow> goerror option" where
  "ValidateJSONSchema env schema = map_option (wrap_error ''invalid JSON Schema: '') (ce_schema env schema)"

fun validate_arguments :: "config_env \<Rightarrow> string \<Rightarrow> (string \<times> string) list \<Rightarrow> goerror option" where
  "validate_arguments env path [] = None"
| "validate_arguments env path ((argName, t) # rest) = (case ValidateTemplate env t of
     Some e \<Rightarrow> Some (wrap_error (path @ ''['' @ argName @ '']: invalid template: '') e)
   | None \<Rightarrow> validate_arguments env path rest)"

definition validateForEachInnerStep :: "config_env \<Rightarrow> string \<Rightarrow> nat \<Rightarrow> WorkflowStepConfig \<Rightarrow> goerror option" where
  "validateForEachInnerStep env pathPrefix index inner =
     (let innerType = (if wsc_Type inner = '''' then ''tool'' else wsc_Type inner) in
      if innerType \<noteq> ''tool'' then Some (new_error (at_step pathPrefix index @ ''.step.type must be 'tool' (got '' @ quoted innerType @
        ''); only tool inner steps are supported''))
      else if wsc_Tool inner = '''' then Some (new_error (at_step pathPrefix index @ ''.step.tool is required for tool inner steps''))
      else if \<not> IsValidToolReference (wsc_Tool inner) then Some (new_error (at_step pathPrefix index @ ''.step.tool must be a valid tool name''))
      else validate_arguments env (at_step pathPrefix index @ ''.step.arguments'') (string_values (map_value (wsc_Arguments inner))))"

definition maxForEachParallel :: int where
  "maxForEachParallel = 50"

definition validateForEachLimits :: "string \<Rightarrow> nat \<Rightarrow> WorkflowStepConfig \<Rightarrow> goerror option" where
  "validateForEachLimits pathPrefix index step =
     (let p = at_step pathPrefix index in
      if wsc_ItemVar step \<noteq> '''' \<and> \<not> isValidGoIdentifier (wsc_ItemVar step)
      then Some (new_error (p @ ''.itemVar must be a valid Go identifier (got '' @ quoted (wsc_ItemVar step) @ '')''))
      else if wsc_ItemVar step = ''index'' then Some (new_error (p @ ''.itemVar cannot be 'index' (reserved)''))
      else if wsc_MaxParallel step < 0 then Some (new_error (p @ ''.maxParallel must be non-negative''))
      else if wsc_MaxParallel step > maxForEachParallel
      then Some (new_error (p @ ''.maxParallel must be <= '' @ show_int maxForEachParallel @ '' (got '' @ show_int (wsc_MaxParallel step) @ '')''))
      else if wsc_MaxIterations step < 0 then Some (new_error (p @ ''.maxIterations must be non-negative''))
      else if wsc_MaxIterations step > MaxForEachIterations
      then Some (new_error (p @ ''.maxIterations must be <= '' @ show_int MaxForEachIterations @ '' (got '' @ show_int (wsc_MaxIterations step) @ '')''))
      else None)"

definition ValidateForEachStep :: "config_env \<Rightarrow> string \<Rightarrow> nat \<Rightarrow> WorkflowStepConfig \<Rightarrow> goerror option" where
  "ValidateForEachStep env pathPrefix index step =
     (let p = at_step pathPrefix index in
      if wsc_Tool step \<noteq> '''' then Some (new_error (p @ '': forEach step must not have 'tool' field''))
      else if wsc_Message step \<noteq> '''' then Some (new_error (p @ '': forEach step must not have 'message' field''))
      else if wsc_Collection step = '''' then Some (new_error (p @ ''.collection is required for forEach steps''))
      else case ValidateTemplate env (wsc_Collection step) of
        Some e \<Rightarrow> Some (wrap_error (p @ ''.collection: invalid template: '') e)
      | None \<Rightarrow> (case wsc_InnerStep step of
          None \<Rightarrow> Some (new_error (p @ ''.step is required for forEach steps''))
        | Some inner \<Rightarrow> (case validateForEachInnerStep env pathPrefix index inner of Some e \<Rightarrow> Some e
            | None \<Rightarrow> validateForEachLimits pathPrefix index step)))"

definition step_type :: "WorkflowStepConfig \<Rightarrow> string" where
  "step_type step = (if wsc_Type step = '''' then ''tool'' else wsc_Type step)"

definition ValidateStepType :: "config_env \<Rightarrow> string \<Rightarrow> nat \<Rightarrow> WorkflowStepConfig \<Rightarrow> goerror option" where
  "ValidateStepType env pathPrefix index step =
     (let p = at_step pathPrefix index; stepType = step_type step in
      if wsc_Type step = '''' \<and> wsc_Tool step \<noteq> '''' \<and> wsc_Message step \<noteq> ''''
      then Some (new_error (p @ '' cannot have both tool and message fields - use explicit type to clarify intent''))
      else if stepType \<notin> {''tool'', ''elicitation'', ''forEach''}
      then Some (new_error (p @ ''.type must be one of: tool, elicitation, forEach''))
      else if stepType = ''tool'' \<and> wsc_Tool step = '''' then Some (new_error (p @ ''.tool is required when type is tool''))
      else if stepType = ''tool'' \<and> \<not> IsValidToolReference (wsc_Tool step) then Some (new_error (p @ ''.tool must be a valid tool name''))
      else if stepType = ''elicitation'' \<and> wsc_Message step = ''''
      then Some (new_error (p @ ''.message is required when type is elicitation''))
      else if stepType = ''forEach'' then ValidateForEachStep env pathPrefix index step
      else None)"

definition validate_optional :: "config_env \<Rightarrow> string \<Rightarrow> string \<Rightarrow> goerror option" where
  "validate_optional env path t = (if t = '''' then None
     else map_option (wrap_error (path @ '': invalid template: '')) (ValidateTemplate env t))"

definition ValidateStepTemplates :: "config_env \<Rightarrow> string \<Rightarrow> nat \<Rightarrow> WorkflowStepConfig \<Rightarrow> goerror option" where
  "ValidateStepTemplates env pathPrefix index step =
     (let p = at_step pathPrefix index in
      case validate_arguments env (p @ ''.arguments'') (string_values (map_value (wsc_Arguments step))) of Some e \<Rightarrow> Some e
      | None \<Rightarrow> (case validate_optional env (p @ ''.condition'') (wsc_Condition step) of Some e \<Rightarrow> Some e
        | None \<Rightarrow> (case validate_optional env (p @ ''.message'') (wsc_Message step) of Some e \<Rightarrow> Some e
          | None \<Rightarrow> if map_value (wsc_Schema step) = [] then None
              else map_option (wrap_error (p @ ''.schema: invalid JSON Schema: '')) (ValidateJSONSchema env (map_value (wsc_Schema step))))))"

definition ValidateStepDependencies :: "string \<Rightarrow> nat \<Rightarrow> WorkflowStepConfig \<Rightarrow> string list \<Rightarrow> goerror option" where
  "ValidateStepDependencies pathPrefix index step stepIDs = (case find (\<lambda>d. d \<notin> set stepIDs) (wsc_DependsOn step) of
     Some d \<Rightarrow> Some (new_error (at_step pathPrefix index @ ''.dependsOn references unknown step '' @ quoted d)) | None \<Rightarrow> None)"

definition ValidateStepErrorHandling :: "string \<Rightarrow> nat \<Rightarrow> StepErrorHandling \<Rightarrow> goerror option" where
  "ValidateStepErrorHandling pathPrefix index onError =
     (if seh_Action onError = '''' then None
      else if seh_Action onError \<notin> {''abort'', ''continue'', ''retry''}
      then Some (new_error (at_step pathPrefix index @ ''.onError.action must be one of: abort, continue, retry''))
      else if seh_Action onError = ''retry'' \<and> seh_RetryCount onError < 1
      then Some (new_error (at_step pathPrefix index @ ''.onError.retryCount must be at least 1 when action is retry''))
      else None)"

definition ValidateElicitationResponseHandler :: "string \<Rightarrow> nat \<Rightarrow> string \<Rightarrow> ElicitationResponseConfig \<Rightarrow> goerror option" where
  "ValidateElicitationResponseHandler pathPrefix index handlerName handler =
     (if erc_Action handler = '''' then Some (new_error (at_step pathPrefix index @ ''.'' @ handlerName @ ''.action is required''))
      else if erc_Action handler \<notin> {''abort'', ''continue'', ''skip_remaining''}
      then Some (new_error (at_step pathPrefix index @ ''.'' @ handlerName @ ''.action must be one of: abort, continue, skip_remaining''))
      else None)"

definition validate_option :: "('a \<Rightarrow> goerror option) \<Rightarrow> 'a option \<Rightarrow> goerror option" where
  "validate_option f x = (case x of None \<Rightarrow> None | Some v \<Rightarrow> f v)"

definition ValidateWorkflowStep :: "config_env \<Rightarrow> string \<Rightarrow> nat \<Rightarrow> WorkflowStepConfig \<Rightarrow> string list \<Rightarrow> goerror option" where
  "ValidateWorkflowStep env pathPrefix index step stepIDs =
     (case ValidateStepType env pathPrefix index step of Some e \<Rightarrow> Some e
      | None \<Rightarrow> (case ValidateStepTemplates env pathPrefix index step of Some e \<Rightarrow> Some e
        | None \<Rightarrow> (case ValidateStepDependencies pathPrefix index step stepIDs of Some e \<Rightarrow> Some e
          | None \<Rightarrow> (case validate_option (ValidateStepErrorHandling pathPrefix index) (wsc_OnError step) of Some e \<Rightarrow> Some e
            | None \<Rightarrow> if step_type step \<noteq> ''elicitation'' then None
                else (case validate_option (ValidateElicitationResponseHandler pathPrefix index ''onDecline'') (wsc_OnDecline step) of Some e \<Rightarrow> Some e
                  | None \<Rightarrow> validate_option (ValidateElicitationResponseHandler pathPrefix index ''onCancel'') (wsc_OnCancel step))))))"

section \<open>Validation of the steps together\<close>

fun collect_config_ids :: "string \<Rightarrow> nat \<Rightarrow> WorkflowStepConfig list \<Rightarrow> string list \<Rightarrow> goerror + string list" where
  "collect_config_ids pathPrefix i [] stepIDs = Inr stepIDs"
| "collect_config_ids pathPrefix i (step # rest) stepIDs =
     (if wsc_ID step = '''' then Inl (new_error (at_step pathPrefix i @ ''.id is required''))
      else if wsc_ID step \<in> set stepIDs
      then Inl (new_error (at_step pathPrefix i @ ''.id '' @ quoted (wsc_ID step) @ '' is duplicated''))
      else collect_config_ids pathPrefix (Suc i) rest (wsc_ID step # stepIDs))"

fun validate_each :: "config_env \<Rightarrow> string \<Rightarrow> nat \<Rightarrow> WorkflowStepConfig list \<Rightarrow> string list \<Rightarrow> goerror option" where
  "validate_each env pathPrefix i [] stepIDs = None"
| "validate_each env pathPrefix i (step # rest) stepIDs = (case ValidateWorkflowStep env pathPrefix i step stepIDs of
     Some e \<Rightarrow> Some e | None \<Rightarrow> validate_each env pathPrefix (Suc i) rest stepIDs)"

text \<open>
  \<open>ValidateDependencyCycles\<close> has the recursive closure of the engine's \<open>validateDependencies\<close>, which is \<open>hasCycle\<close>, and starts it from
  the keys of the graph. The order of the association list is the order in which one \<open>range\<close> loop visits them.
\<close>

definition config_graph :: "WorkflowStepConfig list \<Rightarrow> graph" where
  "config_graph steps = fold (\<lambda>s. AList.update (wsc_ID s) (wsc_DependsOn s)) steps []"

fun cycle_search :: "string \<Rightarrow> graph \<Rightarrow> string list \<Rightarrow> string list \<Rightarrow> string list \<Rightarrow> goerror option" where
  "cycle_search pathPrefix g [] visited recStack = None"
| "cycle_search pathPrefix g (stepID # rest) visited recStack =
     (if stepID \<notin> set visited
      then case hasCycle g stepID visited recStack of
          (True, visited', recStack') \<Rightarrow> Some (new_error (pathPrefix @ '': dependency cycle detected involving step '' @ quoted stepID))
        | (False, visited', recStack') \<Rightarrow> cycle_search pathPrefix g rest visited' recStack'
      else cycle_search pathPrefix g rest visited recStack)"

definition ValidateDependencyCycles :: "string \<Rightarrow> WorkflowStepConfig list \<Rightarrow> goerror option" where
  "ValidateDependencyCycles pathPrefix steps = cycle_search pathPrefix (config_graph steps) (map fst (config_graph steps)) [] []"

definition ValidateWorkflowSteps :: "config_env \<Rightarrow> string \<Rightarrow> WorkflowStepConfig list \<Rightarrow> goerror option" where
  "ValidateWorkflowSteps env pathPrefix steps = (case collect_config_ids pathPrefix 0 steps [] of Inl e \<Rightarrow> Some e
     | Inr stepIDs \<Rightarrow> (case validate_each env pathPrefix 0 steps stepIDs of Some e \<Rightarrow> Some e
       | None \<Rightarrow> ValidateDependencyCycles pathPrefix steps))"

section \<open>Defaults of steps that may be skipped\<close>

definition stepMayBeSkipped :: "WorkflowStepConfig \<Rightarrow> bool" where
  "stepMayBeSkipped step \<longleftrightarrow> wsc_Condition step \<noteq> '''' \<or>
     (case wsc_OnError step of None \<Rightarrow> False | Some h \<Rightarrow> seh_Action h = ''continue'')"

text \<open>\<open>strings.SplitN (s, ".", n)\<close> for positive \<open>n\<close>.\<close>

fun split_dots :: "nat \<Rightarrow> string \<Rightarrow> string list" where
  "split_dots n [] = [[]]"
| "split_dots n (c # cs) =
     (if c = CHR ''.'' \<and> 1 < n then [] # split_dots (n - 1) cs
      else case split_dots n cs of [] \<Rightarrow> [[c]] | p # ps \<Rightarrow> (c # p) # ps)"

fun uniqueStepFieldRefs :: "(string \<times> string) list \<Rightarrow> (string \<times> string) list \<Rightarrow> (string \<times> string) list" where
  "uniqueStepFieldRefs seen [] = []"
| "uniqueStepFieldRefs seen (r # rs) =
     (if r \<in> set seen then uniqueStepFieldRefs seen rs else r # uniqueStepFieldRefs (r # seen) rs)"

definition stepFieldRef_of :: "string \<Rightarrow> (string \<times> string) option" where
  "stepFieldRef_of ref =
     (if take 7 ref = ''.steps.''
      then (let parts = split_dots 6 ref in
            if length parts \<ge> 5 \<and> parts ! 3 = ''output'' then Some (parts ! 2, parts ! 4) else None)
      else None)"

definition extractStepFieldRefsFromTemplate :: "config_env \<Rightarrow> string \<Rightarrow> (string \<times> string) list outcome" where
  "extractStepFieldRefsFromTemplate env tmplStr = (case ExtractReferences env tmplStr of
     Return refs \<Rightarrow> Return (uniqueStepFieldRefs [] (List.map_filter stepFieldRef_of refs))
   | Fail e \<Rightarrow> Fail e | Panic \<Rightarrow> Panic)"

fun extract_each :: "config_env \<Rightarrow> string list \<Rightarrow> (string \<times> string) list outcome" where
  "extract_each env [] = Return []"
| "extract_each env (t # ts) = (case extractStepFieldRefsFromTemplate env t of
     Return refs \<Rightarrow> (case extract_each env ts of Return refs' \<Rightarrow> Return (refs @ refs') | Fail e \<Rightarrow> Fail e | Panic \<Rightarrow> Panic)
   | Fail e \<Rightarrow> Fail e | Panic \<Rightarrow> Panic)"

text \<open>The templates of a step in the order in which \<open>extractStepFieldRefsFromStep\<close> reads them.\<close>

definition step_templates :: "WorkflowStepConfig \<Rightarrow> string list" where
  "step_templates step = (if wsc_Condition step \<noteq> '''' then [wsc_Condition step] else []) @
     map snd (string_values (map_value (wsc_Arguments step))) @
     (if wsc_Message step \<noteq> '''' then [wsc_Message step] else [])"

definition extractStepFieldRefsFromStep :: "config_env \<Rightarrow> WorkflowStepConfig \<Rightarrow> (string \<times> string) list outcome" where
  "extractStepFieldRefsFromStep env step = (case extract_each env (step_templates step) of
     Return refs \<Rightarrow> Return (uniqueStepFieldRefs [] refs) | Fail e \<Rightarrow> Fail e | Panic \<Rightarrow> Panic)"

fun extractStepFieldRefsFromOutput :: "config_env \<Rightarrow> (string \<times> OutputProperty) list \<Rightarrow> (string \<times> string) list outcome"
  and property_refs :: "config_env \<Rightarrow> OutputProperty \<Rightarrow> (string \<times> string) list outcome" where
  "extractStepFieldRefsFromOutput env [] = Return []"
| "extractStepFieldRefsFromOutput env ((name, p) # rest) = (case property_refs env p of
     Return refs \<Rightarrow> (case extractStepFieldRefsFromOutput env rest of
         Return refs' \<Rightarrow> Return (refs @ refs') | Fail e \<Rightarrow> Fail e | Panic \<Rightarrow> Panic)
   | Fail e \<Rightarrow> Fail e | Panic \<Rightarrow> Panic)"
| "property_refs env (OutputProperty ty desc val nested dflt) =
     (case extract_each env (if val \<noteq> '''' then [val] else []) of
        Return refs \<Rightarrow> (case extractStepFieldRefsFromOutput env nested of
            Return nestedRefs \<Rightarrow> Return (refs @ uniqueStepFieldRefs [] nestedRefs) | Fail e \<Rightarrow> Fail e | Panic \<Rightarrow> Panic)
      | Fail e \<Rightarrow> Fail e | Panic \<Rightarrow> Panic)"

definition skippableStepDefaults :: "WorkflowStepConfig list \<Rightarrow> (string, string list) gomap" where
  "skippableStepDefaults steps = fold (\<lambda>s m.
     if \<exists>t \<in> set steps. stepMayBeSkipped t \<and> wsc_ID t = wsc_ID s
     then AList.update (wsc_ID s) (map fst (map_value (wsc_DefaultResults s))) m else m) steps []"

definition lacks_default :: "(string, string list) gomap \<Rightarrow> string \<times> string \<Rightarrow> bool" where
  "lacks_default defaults ref = (case map_of defaults (fst ref) of None \<Rightarrow> False | Some defaultFields \<Rightarrow> snd ref \<notin> set defaultFields)"

definition missing_default :: "string \<Rightarrow> (string, string list) gomap \<Rightarrow> string \<Rightarrow> (string \<times> string) list \<Rightarrow> goerror option" where
  "missing_default pathPrefix defaults referrer refs = (case find (lacks_default defaults) refs of None \<Rightarrow> None
     | Some (i, f) \<Rightarrow> Some (new_error (pathPrefix @ ''['' @ i @ ''].defaultResults['' @ f @ ''] is required: step '' @ quoted i @
         '' may be skipped and field '' @ quoted f @ '' is referenced by '' @ referrer)))"

fun check_step_refs :: "config_env \<Rightarrow> string \<Rightarrow> (string, string list) gomap \<Rightarrow> WorkflowStepConfig list \<Rightarrow> unit outcome" where
  "check_step_refs env pathPrefix defaults [] = Return ()"
| "check_step_refs env pathPrefix defaults (step # rest) = (case extractStepFieldRefsFromStep env step of
     Return refs \<Rightarrow> (case missing_default pathPrefix defaults (''step '' @ wsc_ID step) refs of
         Some e \<Rightarrow> Fail e | None \<Rightarrow> check_step_refs env pathPrefix defaults rest)
   | Fail e \<Rightarrow> Fail (wrap_error (''failed to extract step references from step '' @ wsc_ID step @ '': '') e)
   | Panic \<Rightarrow> Panic)"

definition check_output_refs :: "config_env \<Rightarrow> string \<Rightarrow> (string, string list) gomap \<Rightarrow> OutputConfig option \<Rightarrow> unit outcome" where
  "check_output_refs env pathPrefix defaults output = (case output of None \<Rightarrow> Return ()
     | Some out \<Rightarrow> (case extractStepFieldRefsFromOutput env (oc_Properties out) of
         Return refs \<Rightarrow> (case missing_default pathPrefix defaults ''output'' (uniqueStepFieldRefs [] refs) of
             Some e \<Rightarrow> Fail e | None \<Rightarrow> Return ())
       | Fail e \<Rightarrow> Fail (wrap_error ''failed to extract step references from output: '' e)
       | Panic \<Rightarrow> Panic))"

definition ValidateDefaultResultsForSteps :: "config_env \<Rightarrow> string \<Rightarrow> WorkflowStepConfig list \<Rightarrow> OutputConfig option \<Rightarrow> unit outcome" where
  "ValidateDefaultResultsForSteps env pathPrefix steps output =
     (if \<not> (\<exists>s \<in> set steps. stepMayBeSkipped s) then Return ()
      else (let defaults = skippableStepDefaults steps in
        case check_step_refs env pathPrefix defaults steps of
          Return _ \<Rightarrow> check_output_refs env pathPrefix defaults output
        | Fail e \<Rightarrow> Fail e | Panic \<Rightarrow> Panic))"

section \<open>Validation of a composite tool\<close>

definition ValidateParameters :: "config_env \<Rightarrow> string \<Rightarrow> json_object option \<Rightarrow> goerror option" where
  "ValidateParameters env pathPrefix params =
     (let paramsMap = map_value params; p = pathPrefix @ ''.parameters: '' in
      if paramsMap = [] then None
      else case map_of paramsMap ''type'' of
        None \<Rightarrow> Some (new_error (p @ ''must have 'type' field (should be 'object' for JSON Schema)''))
      | Some (JString typeStr) \<Rightarrow>
          if typeStr \<noteq> ''object'' then Some (new_error (p @ ticked ''type'' @ '' must be 'object' (got '' @ ticked typeStr @ '')''))
          else map_option (wrap_error (p @ ''invalid JSON Schema: '')) (ValidateJSONSchema env paramsMap)
      | Some _ \<Rightarrow> Some (new_error (p @ ticked ''type'' @ '' field must be a string'')))"

definition error_texts :: "goerror option \<Rightarrow> string list" where
  "error_texts e = (case e of None \<Rightarrow> [] | Some err \<Rightarrow> [err_text err])"

definition head_errors :: "config_env \<Rightarrow> string \<Rightarrow> CompositeToolConfig \<Rightarrow> string list" where
  "head_errors env pathPrefix tool =
     (if ctc_Name tool = '''' then [pathPrefix @ ''.name is required''] else []) @
     (if ctc_Description tool = '''' then [pathPrefix @ ''.description is required''] else []) @
     (if ctc_Steps tool = [] then [pathPrefix @ ''.steps must have at least one step''] else []) @
     (if ctc_Timeout tool < 0 then [pathPrefix @ ''.timeout cannot be negative''] else []) @
     error_texts (ValidateParameters env pathPrefix (ctc_Parameters tool))"

definition validation_result :: "string list \<Rightarrow> unit outcome" where
  "validation_result errors = (if errors = [] then Return ()
     else Fail (new_error (''validation failed: '' @ join_strings ''; '' errors)))"

definition ValidateCompositeToolConfig :: "config_env \<Rightarrow> string \<Rightarrow> CompositeToolConfig \<Rightarrow> unit outcome" where
  "ValidateCompositeToolConfig env pathPrefix tool =
     (let errors = head_errors env pathPrefix tool; path = pathPrefix @ ''.steps'' in
      if ctc_Steps tool = [] then validation_result errors
      else (let errors' = errors @ error_texts (ValidateWorkflowSteps env path (ctc_Steps tool)) in
        case ValidateDefaultResultsForSteps env path (ctc_Steps tool) (ctc_Output tool) of
          Return _ \<Rightarrow> validation_result errors'
        | Fail e \<Rightarrow> validation_result (errors' @ [err_text e])
        | Panic \<Rightarrow> Panic))"

section \<open>What accepted steps satisfy\<close>

lemma cycle_search_correct:
  "search_ok g v [] \<Longrightarrow> case cycle_search p g ns v [] of Some e \<Rightarrow> \<exists>x. (x, x) \<in> (edges g)\<^sup>+
   | None \<Rightarrow> \<exists>v'. search_ok g v' [] \<and> set v \<union> set ns \<subseteq> set v'"
proof (induction ns arbitrary: v)
  case (Cons n ns)
  show ?case
  proof (cases "n \<in> set v")
    case True
    then show ?thesis using Cons.IH [OF Cons.prems] by (auto split: option.splits)
  next
    case False
    obtain c v' r' where call: "hasCycle g n v [] = (c, v', r')" by (cases "hasCycle g n v []") auto
    note post = hasCycle_correct [OF Cons.prems False, unfolded call prod.case]
    show ?thesis
    proof (cases c)
      case True
      then show ?thesis using post call False by simp
    next
      case c: False
      then show ?thesis using post call False Cons.IH [of v'] by (fastforce split: option.splits)
    qed
  qed
qed auto

lemma ValidateDependencyCycles_acyclic:
  "ValidateDependencyCycles p steps = None \<longleftrightarrow> acyclic (edges (config_graph steps))"
proof -
  let ?g = "config_graph steps"
  have "search_ok ?g [] []" by (simp add: search_ok_def)
  note found = cycle_search_correct [OF this, where p = p and ns = "map fst ?g"]
  show ?thesis
  proof (cases "ValidateDependencyCycles p steps")
    case None
    then obtain v where v: "search_ok ?g v []" "fst ` set ?g \<subseteq> set v" using found by (auto simp: ValidateDependencyCycles_def)
    have "(x, x) \<notin> (edges ?g)\<^sup>+" for x
    proof
      assume c: "(x, x) \<in> (edges ?g)\<^sup>+"
      then obtain y where "(x, y) \<in> edges ?g" by (meson tranclD)
      then have "x \<in> graph_nodes ?g" using succs_unknown [of x ?g] by (cases "x \<in> graph_nodes ?g") (auto simp: edges_def)
      then show False using v c by (auto simp: search_ok_def graph_nodes_def)
    qed
    then show ?thesis using None by (simp add: acyclic_def)
  next
    case (Some e)
    then show ?thesis using found by (auto simp: ValidateDependencyCycles_def acyclic_def)
  qed
qed

lemma collect_config_ids_ok:
  "collect_config_ids p i steps seen = Inr ids \<Longrightarrow>
   distinct (map wsc_ID steps) \<and> set ids = set seen \<union> wsc_ID ` set steps \<and> '''' \<notin> wsc_ID ` set steps \<and> set seen \<inter> wsc_ID ` set steps = {}"
proof (induction steps arbitrary: i seen)
  case (Cons s steps)
  then have "wsc_ID s \<noteq> ''''" "wsc_ID s \<notin> set seen" "collect_config_ids p (Suc i) steps (wsc_ID s # seen) = Inr ids"
    by (auto split: if_splits)
  then show ?case using Cons.IH [of "Suc i" "wsc_ID s # seen"] by auto
qed simp

lemma validate_each_None:
  "validate_each env p i steps ids = None \<Longrightarrow> s \<in> set steps \<Longrightarrow> \<exists>j. ValidateWorkflowStep env p j s ids = None"
  by (induction steps arbitrary: i) (auto split: option.splits)

lemma ValidateWorkflowSteps_None:
  assumes "ValidateWorkflowSteps env p steps = None"
  shows "distinct (map wsc_ID steps)" "'''' \<notin> wsc_ID ` set steps" "acyclic (edges (config_graph steps))"
    "s \<in> set steps \<Longrightarrow> \<exists>i ids. ValidateWorkflowStep env p i s ids = None \<and> set ids = wsc_ID ` set steps"
proof -
  obtain ids where ids: "collect_config_ids p 0 steps [] = Inr ids" "validate_each env p 0 steps ids = None"
      "ValidateDependencyCycles p steps = None"
    using assms by (auto simp: ValidateWorkflowSteps_def split: sum.splits option.splits)
  note c = collect_config_ids_ok [OF ids(1)]
  show "distinct (map wsc_ID steps)" "'''' \<notin> wsc_ID ` set steps" using c by simp_all
  show "acyclic (edges (config_graph steps))" using ids(3) by (simp add: ValidateDependencyCycles_acyclic)
  show "\<exists>i ids. ValidateWorkflowStep env p i s ids = None \<and> set ids = wsc_ID ` set steps" if "s \<in> set steps"
    using validate_each_None [OF ids(2) that] c by auto
qed

lemma error_texts_empty [simp]: "error_texts e = [] \<longleftrightarrow> e = None"
  by (cases e) (simp_all add: error_texts_def)

lemma validation_result_Return [simp]: "validation_result es = Return u \<longleftrightarrow> es = []"
  by (simp add: validation_result_def)

lemma accepted_tool:
  assumes "ValidateCompositeToolConfig env p tool = Return ()"
  shows "ctc_Name tool \<noteq> ''''" "ctc_Steps tool \<noteq> []" "ctc_Timeout tool \<ge> 0"
    "ValidateWorkflowSteps env (p @ ''.steps'') (ctc_Steps tool) = None"
    "ValidateDefaultResultsForSteps env (p @ ''.steps'') (ctc_Steps tool) (ctc_Output tool) = Return ()"
  using assms by (auto simp: ValidateCompositeToolConfig_def head_errors_def Let_def split: if_splits outcome.splits)

section \<open>References to steps that may be skipped\<close>

lemma set_uniqueStepFieldRefs: "set (uniqueStepFieldRefs seen rs) = set rs - set seen"
  by (induction seen rs rule: uniqueStepFieldRefs.induct) auto

lemma split_dots_piece: "CHR ''.'' \<notin> set a \<Longrightarrow> 1 < n \<Longrightarrow> split_dots n (a @ CHR ''.'' # rest) = a # split_dots (n - 1) rest"
  by (induction a) auto

lemma split_dots_nonempty [simp]: "split_dots n s \<noteq> []"
  by (induction n s rule: split_dots.induct) (auto split: list.splits)

lemma split_dots_first:
  assumes "CHR ''.'' \<notin> set a" "suffix = [] \<or> hd suffix = CHR ''.''" "1 < n"
  shows "\<exists>ps. split_dots n (a @ suffix) = a # ps"
proof (cases suffix)
  case Nil
  have "split_dots n a = [a]" using assms(1) by (induction a) auto
  then show ?thesis using Nil by simp
qed (use assms in \<open>simp add: split_dots_piece\<close>)

lemma stepFieldRef_of_ref:
  assumes "CHR ''.'' \<notin> set i" "CHR ''.'' \<notin> set f" "suffix = [] \<or> hd suffix = CHR ''.''"
  shows "stepFieldRef_of (''.steps.'' @ i @ ''.output.'' @ f @ suffix) = Some (i, f)"
proof -
  obtain ps where ps: "split_dots 2 (f @ suffix) = f # ps" using split_dots_first [OF assms(2,3), of 2] by auto
  have "split_dots 6 (''.steps.'' @ i @ ''.output.'' @ f @ suffix) = [] # ''steps'' # i # ''output'' # f # ps"
    by (simp add: split_dots_piece [OF assms(1)] ps)
  then show ?thesis by (simp add: stepFieldRef_of_def)
qed

text \<open>Every template whose references are looked at: those of the steps, then the values of the output at any depth.\<close>

fun property_templates :: "OutputProperty \<Rightarrow> string list"
  and output_templates :: "(string \<times> OutputProperty) list \<Rightarrow> string list" where
  "property_templates (OutputProperty ty desc val nested dflt) = (if val \<noteq> '''' then [val] else []) @ output_templates nested"
| "output_templates [] = []"
| "output_templates ((name, p) # rest) = property_templates p @ output_templates rest"

definition tool_templates :: "CompositeToolConfig \<Rightarrow> string list" where
  "tool_templates tool = concat (map step_templates (ctc_Steps tool)) @
     (case ctc_Output tool of None \<Rightarrow> [] | Some out \<Rightarrow> output_templates (oc_Properties out))"

definition refs_within :: "config_env \<Rightarrow> string list \<Rightarrow> (string \<times> string) list \<Rightarrow> bool" where
  "refs_within env ts refs \<longleftrightarrow> (\<forall>t \<in> set ts. \<exists>rs. ExtractReferences env t = Return rs \<and> set (List.map_filter stepFieldRef_of rs) \<subseteq> set refs)"

lemma refs_within_append: "refs_within env ts r1 \<Longrightarrow> refs_within env us r2 \<Longrightarrow> refs_within env (ts @ us) (r1 @ r2)"
  unfolding refs_within_def by fastforce

lemma refs_within_set: "refs_within env ts rs \<Longrightarrow> set rs \<subseteq> set rs' \<Longrightarrow> refs_within env ts rs'"
  unfolding refs_within_def by (meson order_trans)

lemma refs_within_Nil [simp]: "refs_within env [] rs"
  by (simp add: refs_within_def)

lemma extract_each_refs: "extract_each env ts = Return refs \<Longrightarrow> refs_within env ts refs"
proof (induction ts arbitrary: refs)
  case (Cons t ts)
  obtain rs refs' where rs: "ExtractReferences env t = Return rs" "extract_each env ts = Return refs'"
      "refs = uniqueStepFieldRefs [] (List.map_filter stepFieldRef_of rs) @ refs'"
    using Cons.prems by (auto simp: extractStepFieldRefsFromTemplate_def split: outcome.splits)
  have "refs_within env [t] (uniqueStepFieldRefs [] (List.map_filter stepFieldRef_of rs))"
    using rs(1) by (simp add: refs_within_def set_uniqueStepFieldRefs)
  then show ?case using refs_within_append [OF _ Cons.IH [OF rs(2)], of "[t]"] rs(3) by simp
qed simp

lemma output_refs_within:
  "extractStepFieldRefsFromOutput env ps = Return refs \<Longrightarrow> refs_within env (output_templates ps) refs"
  "property_refs env p = Return refs \<Longrightarrow> refs_within env (property_templates p) refs"
proof (induction env ps and env p arbitrary: refs and refs rule: extractStepFieldRefsFromOutput_property_refs.induct)
  case (3 env ty desc val nested dflt)
  then obtain r1 r2 where r: "extract_each env (if val \<noteq> '''' then [val] else []) = Return r1"
      "extractStepFieldRefsFromOutput env nested = Return r2" "refs = r1 @ uniqueStepFieldRefs [] r2"
    by (auto split: outcome.splits)
  have "refs_within env (output_templates nested) (uniqueStepFieldRefs [] r2)"
    using "3.IH" [OF r(1) r(2)] by (rule refs_within_set) (simp add: set_uniqueStepFieldRefs)
  then show ?case using refs_within_append [OF extract_each_refs [OF r(1)]] r(3) by simp
next
  case (2 env name p rest)
  then obtain r1 r2 where "property_refs env p = Return r1" "extractStepFieldRefsFromOutput env rest = Return r2" "refs = r1 @ r2"
    by (auto split: outcome.splits)
  then show ?case using 2 refs_within_append by simp
qed simp

lemma missing_default_None: "missing_default p d r refs = None \<longleftrightarrow> (\<forall>x \<in> set refs. \<not> lacks_default d x)"
proof -
  have "missing_default p d r refs = None \<longleftrightarrow> find (lacks_default d) refs = None"
    by (auto simp: missing_default_def split: option.splits)
  then show ?thesis by (auto simp: find_None_iff)
qed

definition defaults_cover :: "config_env \<Rightarrow> (string, string list) gomap \<Rightarrow> string list \<Rightarrow> bool" where
  "defaults_cover env d ts \<longleftrightarrow> (\<exists>refs. refs_within env ts refs \<and> (\<forall>x \<in> set refs. \<not> lacks_default d x))"

lemma defaults_cover_append: "defaults_cover env d ts \<Longrightarrow> defaults_cover env d us \<Longrightarrow> defaults_cover env d (ts @ us)"
  unfolding defaults_cover_def by (metis Un_iff refs_within_append set_append)

lemma check_step_refs_cover:
  "check_step_refs env p d steps = Return u \<Longrightarrow> defaults_cover env d (concat (map step_templates steps))"
proof (induction steps)
  case Nil
  then show ?case by (auto simp: defaults_cover_def intro: exI [of _ "[]"])
next
  case (Cons s steps)
  obtain refs where refs: "extract_each env (step_templates s) = Return refs"
      "missing_default p d (''step '' @ wsc_ID s) (uniqueStepFieldRefs [] refs) = None" "check_step_refs env p d steps = Return u"
    using Cons.prems by (auto simp: extractStepFieldRefsFromStep_def split: outcome.splits option.splits)
  have "defaults_cover env d (step_templates s)"
    using extract_each_refs [OF refs(1)] refs(2) by (auto simp: defaults_cover_def missing_default_None set_uniqueStepFieldRefs)
  then show ?case using defaults_cover_append Cons.IH [OF refs(3)] by simp
qed

lemma check_output_refs_cover:
  assumes "check_output_refs env p d cfg = Return u"
  shows "defaults_cover env d (case cfg of None \<Rightarrow> [] | Some out \<Rightarrow> output_templates (oc_Properties out))"
proof (cases cfg)
  case None
  then show ?thesis by (auto simp: defaults_cover_def intro: exI [of _ "[]"])
next
  case (Some out)
  obtain refs where refs: "extractStepFieldRefsFromOutput env (oc_Properties out) = Return refs"
      "missing_default p d ''output'' (uniqueStepFieldRefs [] refs) = None"
    using assms Some by (auto simp: check_output_refs_def split: outcome.splits option.splits)
  then show ?thesis using output_refs_within(1) [OF refs(1)] Some
    by (auto simp: defaults_cover_def missing_default_None set_uniqueStepFieldRefs)
qed

lemma skippable_lookup:
  assumes "distinct (map wsc_ID steps)" "s \<in> set steps" "stepMayBeSkipped s"
  shows "map_of (skippableStepDefaults steps) (wsc_ID s) = Some (map fst (map_value (wsc_DefaultResults s)))"
proof -
  let ?upd = "\<lambda>all s m. if \<exists>t \<in> set all. stepMayBeSkipped t \<and> wsc_ID t = wsc_ID s
    then AList.update (wsc_ID s) (map fst (map_value (wsc_DefaultResults s))) m else m"
  have other: "wsc_ID s \<notin> wsc_ID ` set rest \<Longrightarrow> map_of (fold (?upd all) rest m) (wsc_ID s) = map_of m (wsc_ID s)" for all rest m
    by (induction rest arbitrary: m) (auto simp: update_conv')
  obtain xs ys where split: "steps = xs @ s # ys" using assms(2) by (meson split_list)
  then have "wsc_ID s \<notin> wsc_ID ` set ys" using assms(1) by auto
  then show ?thesis using assms(2,3) unfolding skippableStepDefaults_def
    by (subst (2) split) (auto simp: other update_conv')
qed

lemma accepted_defaults_cover:
  assumes "ValidateDefaultResultsForSteps env p (ctc_Steps tool) (ctc_Output tool) = Return ()"
    "s \<in> set (ctc_Steps tool)" "stepMayBeSkipped s"
  shows "defaults_cover env (skippableStepDefaults (ctc_Steps tool)) (tool_templates tool)"
proof -
  let ?d = "skippableStepDefaults (ctc_Steps tool)"
  have "check_step_refs env p ?d (ctc_Steps tool) = Return ()" "check_output_refs env p ?d (ctc_Output tool) = Return ()"
    using assms by (auto simp: ValidateDefaultResultsForSteps_def Let_def split: if_splits outcome.splits)
  then show ?thesis unfolding tool_templates_def
    by (intro defaults_cover_append check_step_refs_cover check_output_refs_cover)
qed

text \<open>
  When the validation accepts a composite tool with a step that has a condition or continues on error, the references of every template
  it looks at can be extracted, and each reference to an output field of that step, whose identifier has no dot, is to a field
  for which the step declares a default result.
\<close>

lemma skippable_fields_have_defaults:
  assumes "ValidateCompositeToolConfig env p tool = Return ()"
    and "s \<in> set (ctc_Steps tool)" and skip: "wsc_Condition s \<noteq> '''' \<or> (\<exists>h. wsc_OnError s = Some h \<and> seh_Action h = ''continue'')"
    and "CHR ''.'' \<notin> set (wsc_ID s)" "t \<in> set (tool_templates tool)"
  shows "\<exists>refs. ExtractReferences env t = Return refs \<and>
    (\<forall>field suffix. CHR ''.'' \<notin> set field \<and> (suffix = [] \<or> hd suffix = CHR ''.'') \<and>
      ''.steps.'' @ wsc_ID s @ ''.output.'' @ field @ suffix \<in> set refs \<longrightarrow> field \<in> fst ` set (map_value (wsc_DefaultResults s)))"
proof -
  let ?d = "skippableStepDefaults (ctc_Steps tool)"
  have s: "stepMayBeSkipped s" using skip by (auto simp: stepMayBeSkipped_def)
  note acc = accepted_tool [OF assms(1)]
  obtain all where "refs_within env (tool_templates tool) all" and cover: "\<forall>x \<in> set all. \<not> lacks_default ?d x"
    using accepted_defaults_cover [OF acc(5) assms(2) s] by (auto simp: defaults_cover_def)
  then obtain refs where refs: "ExtractReferences env t = Return refs" "set (List.map_filter stepFieldRef_of refs) \<subseteq> set all"
    using assms(5) by (auto simp: refs_within_def)
  have look: "map_of ?d (wsc_ID s) = Some (map fst (map_value (wsc_DefaultResults s)))"
    by (rule skippable_lookup [OF ValidateWorkflowSteps_None(1) [OF acc(4)] assms(2) s])
  have "field \<in> fst ` set (map_value (wsc_DefaultResults s))"
    if "CHR ''.'' \<notin> set field" "suffix = [] \<or> hd suffix = CHR ''.''"
      "''.steps.'' @ wsc_ID s @ ''.output.'' @ field @ suffix \<in> set refs" for field suffix
  proof -
    have "(wsc_ID s, field) \<in> set (List.map_filter stepFieldRef_of refs)"
      using that(3) stepFieldRef_of_ref [OF assms(4) that(1,2)] unfolding List.map_filter_def by force
    then show ?thesis using refs(2) cover look by (fastforce simp: lacks_default_def)
  qed
  then show ?thesis using refs(1) by blast
qed

text \<open>A tool step with everything else at its zero value.\<close>

definition config_tool_step :: "string \<Rightarrow> string \<Rightarrow> string \<Rightarrow> json_object \<Rightarrow> string list \<Rightarrow> json_object \<Rightarrow> WorkflowStepConfig" where
  "config_tool_step i tool cond args deps dflts = WorkflowStepConfig i ''tool'' tool (Some args) cond deps None '''' None 0 None None
     (Some dflts) '''' '''' 0 0 None"

definition call_template :: string where
  "call_template = ''{{define '' @ quoted ''x'' @ ''}}{{end}}{{template '' @ quoted ''x'' @ ''}}''"

definition example_env :: config_env where
  "example_env = \<lparr>ce_parse = (\<lambda>name t. Inr (if t = ''{{.steps.a.output.text}}''
       then [Some (ListNode [ActionNode (PipeNode [CommandNode [FieldNode [''steps'', ''a'', ''output'', ''text'']]] [])])]
       else if t = ''{{.steps.a.output.items}}''
       then [Some (ListNode [ActionNode (PipeNode [CommandNode [FieldNode [''steps'', ''a'', ''output'', ''items'']]] [])])]
       else if t = call_template then [Some (ListNode []), Some (ListNode [TemplateNode None])]
       else [Some (ListNode [OtherNode])])),
     ce_schema = (\<lambda>_. None)\<rparr>"

definition example_tool :: "string \<Rightarrow> json_object \<Rightarrow> CompositeToolConfig" where
  "example_tool t dflts = \<lparr>ctc_Name = ''report'', ctc_Description = ''d'', ctc_Parameters = None, ctc_Timeout = 0,
     ctc_Steps = [config_tool_step ''a'' ''git.read'' ''true'' [] [] dflts,
       config_tool_step ''b'' ''wiki.write'' '''' [(''body'', JString t)] [''a''] []],
     ctc_Output = None, ctc_Annotations = None\<rparr>"

section \<open>What the extraction of references finds\<close>

text \<open>
  The nodes of a template, independently of the order in which \<open>walkNode\<close> visits them, and the path that a node reads by itself.
\<close>

fun children :: "tnode \<Rightarrow> tnode list" where
  "children (ListNode nodes) = nodes"
| "children (ActionNode pipe) = [pipe]"
| "children (PipeNode cmds decl) = cmds @ decl"
| "children (CommandNode args) = args"
| "children (FieldNode ident) = []"
| "children (ChainNode node chain) = [node]"
| "children (IfNode pipe list elseList) = [pipe, list] @ (case elseList of None \<Rightarrow> [] | Some n \<Rightarrow> [n])"
| "children (RangeNode pipe list elseList) = [pipe, list] @ (case elseList of None \<Rightarrow> [] | Some n \<Rightarrow> [n])"
| "children (WithNode pipe list elseList) = [pipe, list] @ (case elseList of None \<Rightarrow> [] | Some n \<Rightarrow> [n])"
| "children (TemplateNode arg) = (case arg of None \<Rightarrow> [] | Some pipe \<Rightarrow> [pipe])"
| "children OtherNode = []"

inductive occurs_in :: "tnode \<Rightarrow> tnode \<Rightarrow> bool" where
  occurs_here: "occurs_in node node"
| occurs_below: "child \<in> set (children parent) \<Longrightarrow> occurs_in node child \<Longrightarrow> occurs_in node parent"

lemma occurs_in_iff: "occurs_in node n \<longleftrightarrow> node = n \<or> (\<exists>c \<in> set (children n). occurs_in node c)"
  by (subst occurs_in.simps) auto

definition reads :: "tnode \<Rightarrow> string option" where
  "reads node = (case node of FieldNode ident \<Rightarrow> Some (field_path ident)
     | ChainNode n chain \<Rightarrow> if chain = [] then None else Some (field_path chain) | _ \<Rightarrow> None)"

text \<open>Whether a template is invoked without an argument, and the paths that are read, somewhere in one of the nodes.\<close>

definition bare_call :: "tnode set \<Rightarrow> bool" where
  "bare_call ns \<longleftrightarrow> (\<exists>n \<in> ns. occurs_in (TemplateNode None) n)"

definition paths_read :: "tnode set \<Rightarrow> string set" where
  "paths_read ns = {path. \<exists>n \<in> ns. \<exists>node. occurs_in node n \<and> reads node = Some path}"

lemma nodes_Un [simp]:
  "bare_call (ms \<union> ns) \<longleftrightarrow> bare_call ms \<or> bare_call ns" "paths_read (ms \<union> ns) = paths_read ms \<union> paths_read ns"
  "\<not> bare_call {}" "paths_read {} = {}"
  by (auto simp: bare_call_def paths_read_def)

lemma nodes_insert:
  "bare_call (insert n ns) \<longleftrightarrow> bare_call {n} \<or> bare_call ns" "paths_read (insert n ns) = paths_read {n} \<union> paths_read ns"
  by (auto simp: bare_call_def paths_read_def)

lemma node_children:
  "bare_call {n} \<longleftrightarrow> n = TemplateNode None \<or> bare_call (set (children n))"
  "paths_read {n} = set_option (reads n) \<union> paths_read (set (children n))"
proof -
  show "bare_call {n} \<longleftrightarrow> n = TemplateNode None \<or> bare_call (set (children n))"
    unfolding bare_call_def by (simp, subst occurs_in_iff) auto
  have "occurs_in node n \<and> reads node = Some p \<longleftrightarrow>
      node = n \<and> reads n = Some p \<or> (\<exists>c \<in> set (children n). occurs_in node c \<and> reads node = Some p)" for node p
    by (subst occurs_in_iff) auto
  then show "paths_read {n} = set_option (reads n) \<union> paths_read (set (children n))" unfolding paths_read_def by auto
qed

definition walked :: "tnode set \<Rightarrow> string list \<Rightarrow> string list option \<Rightarrow> bool" where
  "walked ns refs res = (case res of None \<Rightarrow> bare_call ns
     | Some r \<Rightarrow> \<not> bare_call ns \<and> set r = set refs \<union> paths_read ns \<and> (distinct refs \<longrightarrow> distinct r))"

lemma walked_then:
  assumes "walked ms refs res" "\<And>r. res = Some r \<Longrightarrow> walked ns r (f r)"
  shows "walked (ms \<union> ns) refs (case res of None \<Rightarrow> None | Some r \<Rightarrow> f r)"
  using assms by (cases res) (auto simp: walked_def split: option.splits)

lemma walked_node:
  "walked (set (children n)) refs res \<Longrightarrow> reads n = None \<Longrightarrow> n \<noteq> TemplateNode None \<Longrightarrow> walked {n} refs res"
  by (cases res) (simp_all add: walked_def node_children [of n])

lemma walked_branch:
  assumes "walked {pipe} refs (walkNode pipe refs)" "\<And>r. walkNode pipe refs = Some r \<Longrightarrow> walked {list} r (walkNode list r)"
    "\<And>r r'. walkNode pipe refs = Some r \<Longrightarrow> walkNode list r = Some r' \<Longrightarrow> walked (set_option e) r' (walkElse e r')"
  shows "walked (set ([pipe, list] @ (case e of None \<Rightarrow> [] | Some n \<Rightarrow> [n]))) refs (case walkNode pipe refs of None \<Rightarrow> None
     | Some r \<Rightarrow> (case walkNode list r of None \<Rightarrow> None | Some r' \<Rightarrow> walkElse e r'))"
proof -
  have "walked ({list} \<union> set_option e) r (case walkNode list r of None \<Rightarrow> None | Some r' \<Rightarrow> walkElse e r')"
    if "walkNode pipe refs = Some r" for r
    by (rule walked_then) (use assms(2,3) that in auto)
  with assms(1) have "walked ({pipe} \<union> ({list} \<union> set_option e)) refs (case walkNode pipe refs of None \<Rightarrow> None
     | Some r \<Rightarrow> (case walkNode list r of None \<Rightarrow> None | Some r' \<Rightarrow> walkElse e r'))" by (rule walked_then)
  moreover have "set ([pipe, list] @ (case e of None \<Rightarrow> [] | Some n \<Rightarrow> [n])) = {pipe} \<union> ({list} \<union> set_option e)"
    by (cases e) auto
  ultimately show ?thesis by simp
qed

lemma walkNode_walked:
  "walked {n} refs (walkNode n refs)" "walked (set ns) refs (walkNodes ns refs)" "walked (set_option e) refs (walkElse e refs)"
proof (induction n refs and ns refs and e refs rule: walkNode_walkNodes_walkElse.induct)
  case (1 nodes refs)
  then show ?case by (intro walked_node) (simp_all add: reads_def)
next
  case (2 pipe refs)
  then show ?case by (intro walked_node) (simp_all add: reads_def)
next
  case (4 args refs)
  then show ?case by (intro walked_node) (simp_all add: reads_def)
next
  case (5 ident refs)
  then show ?case by (auto simp: walked_def node_children [of "FieldNode ident"] reads_def)
next
  case (10 refs)
  then show ?case by (simp add: walked_def node_children [of "TemplateNode None"])
next
  case (11 pipe refs)
  then show ?case by (intro walked_node) (simp_all add: reads_def)
next
  case (12 refs)
  then show ?case by (simp add: walked_def node_children [of OtherNode] reads_def)
next
  case (3 cmds decl refs)
  have "walked (set cmds \<union> set decl) refs (case walkNodes cmds refs of None \<Rightarrow> None | Some r \<Rightarrow> walkNodes decl r)"
    by (rule walked_then) (use 3 in auto)
  then show ?case by (intro walked_node) (simp_all add: reads_def)
next
  case (6 node chain refs)
  then show ?case by (auto simp: walked_def node_children [of "ChainNode node chain"] reads_def split: option.splits)
next
  case (7 pipe list elseList refs)
  then show ?case by (intro walked_node) (simp_all only: children.simps walkNode.simps walked_branch, simp_all add: reads_def)
next
  case (8 pipe list elseList refs)
  then show ?case by (intro walked_node) (simp_all only: children.simps walkNode.simps walked_branch, simp_all add: reads_def)
next
  case (9 pipe list elseList refs)
  then show ?case by (intro walked_node) (simp_all only: children.simps walkNode.simps walked_branch, simp_all add: reads_def)
next
  case (14 n ns refs)
  have "walked ({n} \<union> set ns) refs (case walkNode n refs of None \<Rightarrow> None | Some r \<Rightarrow> walkNodes ns r)"
    by (rule walked_then) (use 14 in auto)
  then show ?case by simp
qed (simp_all add: walked_def)

text \<open>
  Claim C40: the extraction of references is exact. A template text that does not parse fails with the error of the parser. Otherwise
  the references that are returned are, each once, the paths of all field nodes and chained fields that occur anywhere in one of
  the templates the text defines, whatever actions, pipelines, branches and loops they are nested in; unless a template is
  invoked without an argument somewhere, as in \<open>{{template "x"}}\<close>: then and only then the extraction panics.
\<close>

theorem references_exact:
  "case ce_parse env ''extract'' t of
     Inl e \<Rightarrow> ExtractReferences env t = Fail e
   | Inr roots \<Rightarrow>
       if \<exists>root. Some root \<in> set roots \<and> occurs_in (TemplateNode None) root then ExtractReferences env t = Panic
       else \<exists>refs. ExtractReferences env t = Return refs \<and> distinct refs \<and>
         set refs = {path. \<exists>root node. Some root \<in> set roots \<and> occurs_in node root \<and> reads node = Some path}"
proof (cases "ce_parse env ''extract'' t")
  case (Inr roots)
  let ?ns = "map the (filter (\<lambda>r. r \<noteq> None) roots)"
  have ns: "set ?ns = {root. Some root \<in> set roots}" by force
  have "walked (set ?ns) [] (ExtractReferencesFromTemplate roots)"
    unfolding ExtractReferencesFromTemplate_def by (rule walkNode_walked)
  then show ?thesis unfolding ns using Inr
    by (auto simp: ExtractReferences_def walked_def bare_call_def paths_read_def split: option.splits)
qed (simp add: ExtractReferences_def)

text \<open>
  The validation of a configuration can therefore crash: a template that invokes another one without an argument parses and passes
  the syntax check, and the validation of a tool that has a step that may be skipped and this template among its arguments
  panics instead of returning an error.
\<close>

lemma template_call_panics:
  "ValidateTemplate example_env call_template = None \<and>
   walkNode (TemplateNode None) refs = None \<and>
   ValidateCompositeToolConfig example_env p (example_tool call_template []) = Panic"
  by (simp add: ValidateTemplate_def example_env_def ValidateCompositeToolConfig_def example_tool_def config_tool_step_def
      ValidateDefaultResultsForSteps_def stepMayBeSkipped_def extractStepFieldRefsFromStep_def step_templates_def
      extractStepFieldRefsFromTemplate_def ExtractReferences_def ExtractReferencesFromTemplate_def map_value_def
      missing_default_def List.map_filter_def Let_def call_template_def quoted_def)

end
