(* ===== verification/Workflow_Convert.thy ===== *)
theory Workflow_Convert
  imports Composite_Config
begin

text \<open>
  The conversion of configured composite tools into workflow definitions (\<open>pkg/vmcp/server/workflow_converter.go\<close>), and how it fits
  the validations before it (\<open>ValidateCompositeToolConfig\<close>) and after it (\<open>ValidateWorkflow\<close>). \<open>validateStepBasics\<close> writes the default type
  into the configuration it is given; only the conversion of the same step reads it, so the model passes the type on.
\<close>

section \<open>Conversion\<close>

definition validateStepBasics :: "nat \<Rightarrow> WorkflowStepConfig \<Rightarrow> goerror + string" where
  "validateStepBasics index cs = (if wsc_ID cs = '''' then Inl (new_error (''step '' @ show_nat index @ '': step ID is required''))
     else Inr (if wsc_Type cs = '''' then ''tool'' else wsc_Type cs))"

definition parseStepType :: "string \<Rightarrow> WorkflowStepConfig \<Rightarrow> goerror + StepType" where
  "parseStepType ty cs =
     (if ty = ''tool'' then (if wsc_Tool cs = '''' then Inl (new_error (''step '' @ wsc_ID cs @ '': tool name is required for tool steps''))
        else Inr StepTypeTool)
      else if ty = ''elicitation'' then Inr StepTypeElicitation
      else if ty = ''forEach'' then Inr StepTypeForEach
      else Inl (new_error (''step '' @ wsc_ID cs @ '': invalid step type '' @ ty)))"

definition positive :: "duration \<Rightarrow> duration" where
  "positive d = (if d > 0 then d else 0)"

definition convertErrorHandler :: "StepErrorHandling option \<Rightarrow> ErrorHandler option" where
  "convertErrorHandler h = map_option (\<lambda>c. \<lparr>eh_Action = seh_Action c, eh_RetryCount = seh_RetryCount c,
     eh_RetryDelay = positive (seh_RetryDelay c), eh_ContinueOnError = (seh_Action c = ''continue'')\<rparr>) h"

definition convertElicitation :: "StepType \<Rightarrow> WorkflowStepConfig \<Rightarrow> goerror + ElicitationConfig option" where
  "convertElicitation stepType cs =
     (if stepType \<noteq> StepTypeElicitation then Inr None
      else if wsc_Message cs = '''' then Inl (new_error (''step '' @ wsc_ID cs @ '': message is required for elicitation steps''))
      else if map_value (wsc_Schema cs) = [] then Inl (new_error (''step '' @ wsc_ID cs @ '': schema is required for elicitation steps''))
      else Inr (Some \<lparr>ec_Message = wsc_Message cs, ec_Schema = map_value (wsc_Schema cs), ec_Timeout = positive (wsc_Timeout cs),
        ec_OnDecline = map_option (\<lambda>h. \<lparr>elh_Action = erc_Action h\<rparr>) (wsc_OnDecline cs),
        ec_OnCancel = map_option (\<lambda>h. \<lparr>elh_Action = erc_Action h\<rparr>) (wsc_OnCancel cs)\<rparr>))"

lemma size_InnerStep [termination_simp]: "wsc_InnerStep cs = Some inner \<Longrightarrow> size inner < size cs"
  by (cases cs) auto

text \<open>The step without its forEach fields, then with them.\<close>

definition base_step :: "StepType \<Rightarrow> ElicitationConfig option \<Rightarrow> WorkflowStepConfig \<Rightarrow> WorkflowStep" where
  "base_step stepType elicitation cs = WorkflowStep (wsc_ID cs) stepType (wsc_Tool cs) (map_value (wsc_Arguments cs)) (wsc_Condition cs)
     (wsc_DependsOn cs) (convertErrorHandler (wsc_OnError cs)) elicitation (positive (wsc_Timeout cs)) [] (wsc_DefaultResults cs)
     '''' '''' 0 0 None"

definition with_forEach :: "WorkflowStepConfig \<Rightarrow> WorkflowStep option \<Rightarrow> WorkflowStep \<Rightarrow> WorkflowStep" where
  "with_forEach cs inner ws = WorkflowStep (ws_ID ws) (ws_Type ws) (ws_Tool ws) (ws_Arguments ws) (ws_Condition ws) (ws_DependsOn ws)
     (ws_OnError ws) (ws_Elicitation ws) (ws_Timeout ws) (ws_Metadata ws) (ws_DefaultResults ws) (wsc_Collection cs) (wsc_ItemVar cs)
     (wsc_MaxParallel cs) (wsc_MaxIterations cs) inner"

fun convertSingleStep :: "nat \<Rightarrow> WorkflowStepConfig \<Rightarrow> goerror + WorkflowStep" where
  "convertSingleStep index cs = (case validateStepBasics index cs of Inl e \<Rightarrow> Inl e
   | Inr ty \<Rightarrow> (case parseStepType ty cs of Inl e \<Rightarrow> Inl e
     | Inr stepType \<Rightarrow> (case convertElicitation stepType cs of Inl e \<Rightarrow> Inl e
       | Inr elicitation \<Rightarrow>
           if stepType \<noteq> StepTypeForEach then Inr (base_step stepType elicitation cs)
           else (case wsc_InnerStep cs of
               None \<Rightarrow> Inr (with_forEach cs None (base_step stepType elicitation cs))
             | Some inner \<Rightarrow> (case convertSingleStep 0 inner of
                 Inl e \<Rightarrow> Inl (wrap_error (''step '' @ wsc_ID cs @ '': failed to convert inner step: '') e)
               | Inr innerStep \<Rightarrow> Inr (with_forEach cs (Some innerStep) (base_step stepType elicitation cs)))))))"

declare convertSingleStep.simps [simp del]

fun convert_each :: "nat \<Rightarrow> WorkflowStepConfig list \<Rightarrow> goerror + WorkflowStep list" where
  "convert_each i [] = Inr []"
| "convert_each i (cs # rest) = (case convertSingleStep i cs of Inl e \<Rightarrow> Inl e
     | Inr step \<Rightarrow> (case convert_each (Suc i) rest of Inl e \<Rightarrow> Inl e | Inr steps \<Rightarrow> Inr (step # steps)))"

definition convertSteps :: "WorkflowStepConfig list \<Rightarrow> goerror + WorkflowStep list" where
  "convertSteps configSteps = (if configSteps = [] then Inl (new_error ''workflow must have at least one step'')
     else convert_each 0 configSteps)"

definition convert_tool :: "CompositeToolConfig \<Rightarrow> WorkflowStep list \<Rightarrow> OutputConfig WorkflowDefinition" where
  "convert_tool ct steps = \<lparr>wd_Name = ctc_Name ct, wd_Description = ctc_Description ct, wd_Parameters = map_value (ctc_Parameters ct),
     wd_Steps = steps, wd_Timeout = positive (ctc_Timeout ct), wd_FailureMode = '''', wd_Output = ctc_Output ct,
     wd_Annotations = ctc_Annotations ct, wd_Metadata = []\<rparr>"

fun convert_tools :: "CompositeToolConfig list \<Rightarrow> (string, OutputConfig WorkflowDefinition) gomap \<Rightarrow>
    goerror + (string, OutputConfig WorkflowDefinition) gomap" where
  "convert_tools [] workflowDefs = Inr workflowDefs"
| "convert_tools (ct # rest) workflowDefs =
     (if ctc_Name ct = '''' then Inl (new_error ''composite tool name is required'')
      else if map_of workflowDefs (ctc_Name ct) \<noteq> None
      then Inl (new_error (''duplicate composite tool name: '' @ ctc_Name ct))
      else case convertSteps (ctc_Steps ct) of
        Inl e \<Rightarrow> Inl (wrap_error (''failed to convert steps for composite tool '' @ ctc_Name ct @ '': '') e)
      | Inr steps \<Rightarrow> convert_tools rest (AList.update (ctc_Name ct) (convert_tool ct steps) workflowDefs))"

text \<open>Without tools the result is nil, of which every lookup is that of the empty map.\<close>

definition ConvertConfigToWorkflowDefinitions :: "CompositeToolConfig list \<Rightarrow>
    goerror + (string, OutputConfig WorkflowDefinition) gomap" where
  "ConvertConfigToWorkflowDefinitions compositeTools = (if compositeTools = [] then Inr [] else convert_tools compositeTools [])"

section \<open>What the conversion keeps\<close>

text \<open>What the converter asks for beyond the validation of the configuration.\<close>

definition convertible :: "WorkflowStepConfig \<Rightarrow> bool" where
  "convertible cs \<longleftrightarrow> (step_type cs = ''elicitation'' \<longrightarrow> map_value (wsc_Schema cs) \<noteq> []) \<and>
     (step_type cs = ''forEach'' \<longrightarrow> (case wsc_InnerStep cs of None \<Rightarrow> True | Some inner \<Rightarrow> wsc_ID inner \<noteq> ''''))"

definition converted :: "WorkflowStepConfig \<Rightarrow> WorkflowStep \<Rightarrow> bool" where
  "converted cs ws \<longleftrightarrow> ws_ID ws = wsc_ID cs \<and> ws_DependsOn ws = wsc_DependsOn cs \<and> ws_Condition ws = wsc_Condition cs \<and>
     ws_DefaultResults ws = wsc_DefaultResults cs \<and> validate_type ws = None"

lemmas convert_defs = convertSingleStep.simps validateStepBasics_def parseStepType_def convertElicitation_def base_step_def
  with_forEach_def

lemma convert_tool_step:
  "step_type cs = ''tool'' \<Longrightarrow> wsc_ID cs \<noteq> '''' \<Longrightarrow> wsc_Tool cs \<noteq> '''' \<Longrightarrow> convertSingleStep i cs = Inr (base_step StepTypeTool None cs)"
  by (auto simp: convert_defs step_type_def split: if_splits)

lemma ValidateStepType_shape:
  assumes "ValidateStepType env p i cs = None"
  obtains (tool) "step_type cs = ''tool''" "wsc_Tool cs \<noteq> ''''"
    | (elicitation) "step_type cs = ''elicitation''" "wsc_Message cs \<noteq> ''''"
    | (forEach) inner where "step_type cs = ''forEach''" "wsc_Collection cs \<noteq> ''''" "wsc_InnerStep cs = Some inner"
        "step_type inner = ''tool''" "wsc_Tool inner \<noteq> ''''"
  using assms by (auto simp: ValidateStepType_def ValidateForEachStep_def validateForEachInnerStep_def step_type_def Let_def
      split: if_splits option.splits)

lemma convert_step:
  assumes ok: "ValidateStepType env p i cs = None" and id: "wsc_ID cs \<noteq> ''''" and conv: "convertible cs"
  shows "\<exists>ws. convertSingleStep j cs = Inr ws \<and> converted cs ws"
  using ok
proof (cases rule: ValidateStepType_shape)
  case tool
  then show ?thesis using convert_tool_step [OF tool(1) id tool(2)] by (simp add: converted_def base_step_def validate_type_def)
next
  case elicitation
  then show ?thesis using id conv
    by (auto simp: convert_defs step_type_def converted_def validate_type_def convertible_def split: if_splits)
next
  case (forEach inner)
  then have "wsc_ID inner \<noteq> ''''" using conv by (simp add: convertible_def)
  note inner = convert_tool_step [OF forEach(4) this forEach(5), of 0]
  have "wsc_Type cs = ''forEach''" using forEach(1) by (auto simp: step_type_def split: if_splits)
  then have "convertSingleStep j cs = Inr (with_forEach cs (Some (base_step StepTypeTool None inner)) (base_step StepTypeForEach None cs))"
    using forEach(3) id inner by (subst convertSingleStep.simps) (simp add: validateStepBasics_def parseStepType_def convertElicitation_def)
  then show ?thesis using forEach(2) by (simp add: converted_def with_forEach_def base_step_def validate_type_def)
qed

lemma convert_each_all:
  "(\<And>cs j. cs \<in> set css \<Longrightarrow> \<exists>ws. convertSingleStep j cs = Inr ws \<and> converted cs ws) \<Longrightarrow>
   \<exists>steps. convert_each i css = Inr steps \<and> list_all2 converted css steps"
proof (induction css arbitrary: i)
  case (Cons cs css)
  obtain ws where ws: "convertSingleStep i cs = Inr ws" "converted cs ws" using Cons.prems [of cs i] by auto
  obtain steps where "convert_each (Suc i) css = Inr steps" "list_all2 converted css steps"
    using Cons.IH [of "Suc i"] Cons.prems by (meson list.set_intros(2))
  then show ?case using ws by simp
qed simp

lemma converted_ids: "list_all2 converted css steps \<Longrightarrow> map ws_ID steps = map wsc_ID css"
  by (induction rule: list_all2_induct) (auto simp: converted_def)

lemma converted_graph: "list_all2 converted css steps \<Longrightarrow> dep_relation steps = config_graph css"
proof -
  have "list_all2 converted css steps \<Longrightarrow> fold (\<lambda>s. AList.update (ws_ID s) (ws_DependsOn s)) steps m =
      fold (\<lambda>s. AList.update (wsc_ID s) (wsc_DependsOn s)) css m" for m
    by (induction arbitrary: m rule: list_all2_induct) (auto simp: converted_def)
  then show "list_all2 converted css steps \<Longrightarrow> ?thesis" by (simp add: dep_relation_def config_graph_def)
qed

lemma converted_members:
  assumes "list_all2 converted css steps" "ws \<in> set steps"
  obtains cs where "cs \<in> set css" "converted cs ws"
  using assms by (metis in_set_conv_nth list_all2_conv_all_nth)

section \<open>From the configuration to the plan\<close>

lemma converted_steps_valid:
  assumes valid: "ValidateWorkflowSteps env p css = None" and conv: "list_all2 converted css steps"
  shows "\<exists>ids. collect_ids steps [] = Inr ids \<and> validate_steps steps ids = None" "validateDependencies steps = None"
    "\<exists>levels. buildExecutionLevels steps = Inr levels"
proof -
  note ok = ValidateWorkflowSteps_None [OF valid]
  have "distinct (map ws_ID steps)" using ok(1) by (simp only: converted_ids [OF conv])
  moreover have "step_ids steps = wsc_ID ` set css" using arg_cong [OF converted_ids [OF conv], of set] by simp
  ultimately have ids: "distinct (map ws_ID steps)" "step_ids steps = wsc_ID ` set css" .
  have acyc: "acyclic (dependency_edges steps)"
    using ok(3) edges_dep_relation [OF ids(1)] converted_graph [OF conv] by simp
  have step: "validate_type ws = None \<and> set (ws_DependsOn ws) \<subseteq> step_ids steps" if ws: "ws \<in> set steps" for ws
  proof -
    obtain cs where cs: "cs \<in> set css" "converted cs ws" by (rule converted_members [OF conv ws])
    obtain i vs where "ValidateWorkflowStep env p i cs vs = None" "set vs = wsc_ID ` set css" using ok(4) [OF cs(1)] by blast
    then have "set (wsc_DependsOn cs) \<subseteq> wsc_ID ` set css"
      by (auto simp: ValidateWorkflowStep_def ValidateStepDependencies_def find_None_iff split: option.splits)
    then show ?thesis using cs(2) ids(2) by (simp add: converted_def)
  qed
  obtain vs where "collect_ids steps [] = Inr vs" "set vs = step_ids steps"
    using collect_ids_complete [of steps "[]"] ids ok(2) by auto
  then show "\<exists>ids. collect_ids steps [] = Inr ids \<and> validate_steps steps ids = None"
    using step by (simp add: validate_steps_None validateStep_def unknown_dependency_None)
  show "validateDependencies steps = None" using validateDependencies_acyclic [OF ids(1)] acyc by simp
  show "\<exists>levels. buildExecutionLevels steps = Inr levels" using plan_exists [OF ids(1)] acyc step by blast
qed

definition runnable :: "OutputConfig WorkflowDefinition \<Rightarrow> bool" where
  "runnable d \<longleftrightarrow> ValidateWorkflow (\<lambda>out. ValidateOutputConfig (Some out)) (Some d) = None \<and>
     (\<exists>levels. buildExecutionLevels (wd_Steps d) = Inr levels)"

lemma accepted_steps_convert:
  assumes ok: "ValidateCompositeToolConfig env p tool = Return ()" and conv: "list_all convertible (ctc_Steps tool)"
  shows "\<exists>steps. convertSteps (ctc_Steps tool) = Inr steps \<and> list_all2 converted (ctc_Steps tool) steps"
proof -
  note acc = accepted_tool [OF ok]
  note valid = ValidateWorkflowSteps_None [OF acc(4)]
  have "\<exists>ws. convertSingleStep j cs = Inr ws \<and> converted cs ws" if cs: "cs \<in> set (ctc_Steps tool)" for cs j
  proof -
    obtain i where "ValidateStepType env (p @ ''.steps'') i cs = None"
      using valid(4) [OF cs] by (auto simp: ValidateWorkflowStep_def split: option.splits)
    moreover have "wsc_ID cs \<noteq> ''''" using valid(2) cs by (metis imageI)
    ultimately show ?thesis using convert_step conv cs by (simp add: list_all_iff)
  qed
  then show ?thesis using convert_each_all [of "ctc_Steps tool" 0] acc(2) by (simp add: convertSteps_def)
qed

lemma convert_tool_runnable:
  assumes ok: "ValidateCompositeToolConfig env p tool = Return ()" and conv: "list_all convertible (ctc_Steps tool)"
    and len: "length (ctc_Steps tool) \<le> maxWorkflowSteps" and out: "ValidateOutputConfig (ctc_Output tool) = None"
  shows "\<exists>steps. convertSteps (ctc_Steps tool) = Inr steps \<and> list_all2 converted (ctc_Steps tool) steps \<and> runnable (convert_tool tool steps)"
proof -
  note acc = accepted_tool [OF ok]
  obtain steps where steps: "convertSteps (ctc_Steps tool) = Inr steps" "list_all2 converted (ctc_Steps tool) steps"
    using accepted_steps_convert [OF ok conv] by blast
  have "length steps = length (ctc_Steps tool)" using steps(2) by (simp add: list_all2_lengthD)
  then have "runnable (convert_tool tool steps)"
    using converted_steps_valid [OF acc(4) steps(2)] acc(1,2) len out
    by (auto simp: runnable_def convert_tool_def ValidateWorkflow_def split: option.splits)
  then show ?thesis using steps by blast
qed

lemma convert_tools_all:
  assumes "\<forall>tool \<in> set tools. ctc_Name tool \<noteq> '''' \<and> (\<exists>steps. convertSteps (ctc_Steps tool) = Inr steps \<and> P tool (convert_tool tool steps))"
    "distinct (map ctc_Name tools)" "fst ` set defs \<inter> ctc_Name ` set tools = {}"
  shows "\<exists>defs'. convert_tools tools defs = Inr defs' \<and> (\<forall>n. n \<notin> ctc_Name ` set tools \<longrightarrow> map_of defs' n = map_of defs n) \<and>
    (\<forall>tool \<in> set tools. \<exists>d. map_of defs' (ctc_Name tool) = Some d \<and> P tool d)"
  using assms
proof (induction tools arbitrary: defs)
  case (Cons t tools)
  obtain steps where steps: "convertSteps (ctc_Steps t) = Inr steps" "P t (convert_tool t steps)" "ctc_Name t \<noteq> ''''"
    using Cons.prems(1) by auto
  let ?defs = "AList.update (ctc_Name t) (convert_tool t steps) defs"
  have new: "map_of defs (ctc_Name t) = None" using Cons.prems(3) by (auto simp: map_of_eq_None_iff)
  have other: "ctc_Name t \<notin> ctc_Name ` set tools" using Cons.prems(2) by auto
  then have fresh: "fst ` set ?defs \<inter> ctc_Name ` set tools = {}" using Cons.prems(3) by auto
  have rest: "\<forall>tool \<in> set tools. ctc_Name tool \<noteq> [] \<and> (\<exists>steps. convertSteps (ctc_Steps tool) = Inr steps \<and> P tool (convert_tool tool steps))"
      "distinct (map ctc_Name tools)"
    using Cons.prems(1,2) by simp_all
  obtain defs' where defs': "convert_tools tools ?defs = Inr defs'"
      "\<forall>n. n \<notin> ctc_Name ` set tools \<longrightarrow> map_of defs' n = map_of ?defs n"
      "\<forall>tool \<in> set tools. \<exists>d. map_of defs' (ctc_Name tool) = Some d \<and> P tool d"
    using Cons.IH [OF rest fresh] by (elim exE conjE)
  have "convert_tools (t # tools) defs = Inr defs'" using steps(1,3) new defs'(1) by simp
  moreover have "map_of defs' n = map_of defs n" if "n \<notin> ctc_Name ` set (t # tools)" for n
    using defs'(2) that by (simp add: update_conv')
  moreover have "map_of defs' (ctc_Name t) = Some (convert_tool t steps)"
    using defs'(2) other by (simp add: update_conv')
  ultimately show ?case using defs'(3) steps(2) by simp
qed simp

text \<open>
  Claim C4: a validated configuration runs. Take composite tools with different names that \<open>ValidateCompositeToolConfig\<close> accepts, that
  have at most one hundred steps each and an output the engine accepts, whose elicitation steps have a schema and whose forEach
  steps have an inner step with an identifier. Then the conversion succeeds and has a definition under the name of each
  tool, with the identifiers, dependencies, conditions and default results of its steps, in order; the engine's
  \<open>ValidateWorkflow\<close> accepts the definition and \<open>buildExecutionLevels\<close> finds a plan for it.
\<close>

theorem accepted_config_runs:
  assumes "distinct (map ctc_Name tools)"
    and "\<forall>tool \<in> set tools. ValidateCompositeToolConfig env p tool = Return () \<and> list_all convertible (ctc_Steps tool) \<and>
      length (ctc_Steps tool) \<le> maxWorkflowSteps \<and> ValidateOutputConfig (ctc_Output tool) = None"
  shows "\<exists>defs. ConvertConfigToWorkflowDefinitions tools = Inr defs \<and>
    (\<forall>tool \<in> set tools. \<exists>d. map_of defs (ctc_Name tool) = Some d \<and> list_all2 converted (ctc_Steps tool) (wd_Steps d) \<and>
      ValidateWorkflow (\<lambda>out. ValidateOutputConfig (Some out)) (Some d) = None \<and>
      (\<exists>levels. buildExecutionLevels (wd_Steps d) = Inr levels))"
proof -
  let ?P = "\<lambda>tool d. list_all2 converted (ctc_Steps tool) (wd_Steps d) \<and> runnable d"
  have "ctc_Name tool \<noteq> '''' \<and> (\<exists>steps. convertSteps (ctc_Steps tool) = Inr steps \<and> ?P tool (convert_tool tool steps))"
    if "tool \<in> set tools" for tool
  proof -
    have ok: "ValidateCompositeToolConfig env p tool = Return ()" using assms(2) that by blast
    then show ?thesis using accepted_tool(1) [OF ok] convert_tool_runnable [OF ok] assms(2) that
      by (simp add: convert_tool_def)
  qed
  then obtain defs where "convert_tools tools [] = Inr defs" "\<forall>tool \<in> set tools. \<exists>d. map_of defs (ctc_Name tool) = Some d \<and> ?P tool d"
    using convert_tools_all [of tools ?P "[]"] assms(1) by auto
  then show ?thesis by (auto simp: ConvertConfigToWorkflowDefinitions_def runnable_def)
qed

theorem accepted_config_runs_witness:
  "\<exists>defs d. ConvertConfigToWorkflowDefinitions [example_tool ''{{.steps.a.output.text}}'' [(''text'', JNull)]] = Inr defs \<and>
     map_of defs ''report'' = Some d \<and> (\<exists>levels. buildExecutionLevels (wd_Steps d) = Inr levels)"
proof -
  define tool where "tool = example_tool ''{{.steps.a.output.text}}'' [(''text'', JNull)]"
  have "ValidateCompositeToolConfig example_env ''t'' tool = Return ()" unfolding tool_def by code_simp
  moreover have "list_all convertible (ctc_Steps tool)"
    by (simp add: tool_def example_tool_def config_tool_step_def convertible_def step_type_def)
  moreover have "length (ctc_Steps tool) \<le> maxWorkflowSteps" "ValidateOutputConfig (ctc_Output tool) = None"
    by (simp_all add: tool_def example_tool_def maxWorkflowSteps_def ValidateOutputConfig_def)
  moreover have name: "ctc_Name tool = ''report''" by (simp add: tool_def example_tool_def)
  ultimately obtain defs d where "ConvertConfigToWorkflowDefinitions [tool] = Inr defs" "map_of defs (ctc_Name tool) = Some d"
      "\<exists>levels. buildExecutionLevels (wd_Steps d) = Inr levels"
    using accepted_config_runs [of "[tool]" example_env "''t''"] by auto
  then show ?thesis using name unfolding tool_def by auto
qed

section \<open>When the conversion succeeds\<close>

text \<open>Whatever the configuration, a step that is converted keeps what decides whether it may be skipped and what it shows then.\<close>

lemma convertSingleStep_Inr:
  assumes "convertSingleStep i cs = Inr ws"
  shows "convertible cs" "wsc_ID cs \<noteq> ''''" "ws_ID ws = wsc_ID cs" "ws_Condition ws = wsc_Condition cs"
    "ws_OnError ws = convertErrorHandler (wsc_OnError cs)" "ws_DefaultResults ws = wsc_DefaultResults cs"
proof -
  have inner: "wsc_ID c \<noteq> ''''" if "convertSingleStep 0 c = Inr w" for c w
    using that by (subst (asm) convertSingleStep.simps) (auto simp: validateStepBasics_def split: if_splits)
  note run = assms [unfolded convertSingleStep.simps [of i cs] validateStepBasics_def parseStepType_def convertElicitation_def]
  show "convertible cs" using run inner
    by (auto simp: convertible_def step_type_def split: if_splits option.splits sum.splits)
  show "wsc_ID cs \<noteq> ''''" "ws_ID ws = wsc_ID cs" "ws_Condition ws = wsc_Condition cs"
    "ws_OnError ws = convertErrorHandler (wsc_OnError cs)" "ws_DefaultResults ws = wsc_DefaultResults cs"
    using run by (auto simp: base_step_def with_forEach_def split: if_splits option.splits sum.splits)
qed

lemma convert_each_Inr:
  "convert_each i css = Inr steps \<Longrightarrow> list_all2 (\<lambda>cs ws. \<exists>j. convertSingleStep j cs = Inr ws) css steps"
proof (induction css arbitrary: i steps)
  case (Cons cs css)
  then show ?case by (auto split: sum.splits)
qed simp

lemma convertSteps_Inr:
  "convertSteps css = Inr steps \<Longrightarrow> list_all2 (\<lambda>cs ws. \<exists>j. convertSingleStep j cs = Inr ws) css steps"
  by (auto simp: convertSteps_def convert_each_Inr split: if_splits)

lemma convertSteps_convertible:
  assumes "convertSteps css = Inr steps" "cs \<in> set css"
  shows "convertible cs"
proof -
  obtain k where k: "k < length css" "cs = css ! k" using assms(2) by (metis in_set_conv_nth)
  obtain j where "convertSingleStep j cs = Inr (steps ! k)"
    using list_all2_nthD [OF convertSteps_Inr [OF assms(1)] k(1)] k(2) by blast
  then show ?thesis by (rule convertSingleStep_Inr(1))
qed

lemma convert_tools_Inr:
  "convert_tools tools defs = Inr defs' \<Longrightarrow> tool \<in> set tools \<Longrightarrow> \<exists>steps. convertSteps (ctc_Steps tool) = Inr steps"
proof (induction tools arbitrary: defs)
  case (Cons t tools)
  then show ?case by (auto split: if_splits sum.splits)
qed simp

text \<open>
  Claim C39: what the conversion asks for beyond the validation, exactly. For composite tools with different names that
  \<open>ValidateCompositeToolConfig\<close> accepts, \<open>ConvertConfigToWorkflowDefinitions\<close> succeeds if and only if every elicitation step has a
  schema that is not empty and the inner step of every forEach step has an identifier; otherwise it returns an error. The
  validation asks for neither.
\<close>

theorem conversion_succeeds_iff:
  assumes "distinct (map ctc_Name tools)" "\<forall>tool \<in> set tools. ValidateCompositeToolConfig env p tool = Return ()"
  shows "(\<exists>defs. ConvertConfigToWorkflowDefinitions tools = Inr defs) \<longleftrightarrow>
    (\<forall>tool \<in> set tools. \<forall>cs \<in> set (ctc_Steps tool). (step_type cs = ''elicitation'' \<longrightarrow> map_value (wsc_Schema cs) \<noteq> []) \<and>
       (step_type cs = ''forEach'' \<longrightarrow> (\<forall>inner. wsc_InnerStep cs = Some inner \<longrightarrow> wsc_ID inner \<noteq> '''')))"
proof -
  have conv: "(step_type cs = ''elicitation'' \<longrightarrow> map_value (wsc_Schema cs) \<noteq> []) \<and>
       (step_type cs = ''forEach'' \<longrightarrow> (\<forall>inner. wsc_InnerStep cs = Some inner \<longrightarrow> wsc_ID inner \<noteq> '''')) \<longleftrightarrow> convertible cs" for cs
    by (auto simp: convertible_def split: option.splits)
  show ?thesis unfolding conv
  proof
    assume "\<exists>defs. ConvertConfigToWorkflowDefinitions tools = Inr defs"
    then obtain defs where "convert_tools tools [] = Inr defs" by (auto simp: ConvertConfigToWorkflowDefinitions_def split: if_splits)
    then show "\<forall>tool \<in> set tools. \<forall>cs \<in> set (ctc_Steps tool). convertible cs"
      using convert_tools_Inr convertSteps_convertible by blast
  next
    assume all: "\<forall>tool \<in> set tools. \<forall>cs \<in> set (ctc_Steps tool). convertible cs"
    have "ctc_Name tool \<noteq> '''' \<and> (\<exists>steps. convertSteps (ctc_Steps tool) = Inr steps \<and> True)" if tool: "tool \<in> set tools" for tool
    proof -
      have ok: "ValidateCompositeToolConfig env p tool = Return ()" using assms(2) tool by blast
      then show ?thesis using accepted_tool(1) [OF ok] accepted_steps_convert [OF ok] all tool by (auto simp: list_all_iff)
    qed
    then obtain defs where "convert_tools tools [] = Inr defs"
      using convert_tools_all [of tools "\<lambda>_ _. True" "[]"] assms(1) by auto
    then show "\<exists>defs. ConvertConfigToWorkflowDefinitions tools = Inr defs" by (simp add: ConvertConfigToWorkflowDefinitions_def)
  qed
qed

section \<open>Configurations that are accepted and then fail\<close>

definition single_step_tool :: "WorkflowStepConfig list \<Rightarrow> CompositeToolConfig" where
  "single_step_tool steps = \<lparr>ctc_Name = ''report'', ctc_Description = ''d'', ctc_Parameters = None, ctc_Timeout = 0,
     ctc_Steps = steps, ctc_Output = None, ctc_Annotations = None\<rparr>"

definition forEach_step :: "string \<Rightarrow> string list \<Rightarrow> string \<Rightarrow> WorkflowStepConfig" where
  "forEach_step i deps innerID = WorkflowStepConfig i ''forEach'' '''' None '''' deps None '''' None 0 None None None
     ''{{.steps.a.output.items}}'' '''' 0 0 (Some (config_tool_step innerID ''git.read'' '''' [] [] []))"

definition elicitation_step :: WorkflowStepConfig where
  "elicitation_step = WorkflowStepConfig ''ask'' ''elicitation'' '''' None '''' [] None ''Continue?'' None 0 None None None '''' '''' 0 0 None"

text \<open>
  The validation of a configuration accepts what the conversion then refuses. A forEach step whose inner step has no identifier and
  an elicitation step without a schema both pass \<open>ValidateCompositeToolConfig\<close>, and \<open>ConvertConfigToWorkflowDefinitions\<close> returns an
  error for each, although both steps are otherwise complete.
\<close>

lemma accepted_config_not_convertible:
  "ValidateCompositeToolConfig example_env ''t'' (single_step_tool [forEach_step ''loop'' [] []]) = Return () \<and>
   isl (ConvertConfigToWorkflowDefinitions [single_step_tool [forEach_step ''loop'' [] []]]) \<and>
   ValidateCompositeToolConfig example_env ''t'' (single_step_tool [elicitation_step]) = Return () \<and>
   isl (ConvertConfigToWorkflowDefinitions [single_step_tool [elicitation_step]])"
  by (intro conjI) code_simp+

theorem conversion_succeeds_iff_witness:
  "(\<exists>defs. ConvertConfigToWorkflowDefinitions [single_step_tool [forEach_step ''loop'' [] ''call'']] = Inr defs) \<and>
   \<not> (\<exists>defs. ConvertConfigToWorkflowDefinitions [single_step_tool [forEach_step ''loop'' [] []]] = Inr defs)"
proof -
  have iff: "(\<exists>defs. ConvertConfigToWorkflowDefinitions [single_step_tool [forEach_step ''loop'' [] i]] = Inr defs) \<longleftrightarrow> i \<noteq> []"
    if "ValidateCompositeToolConfig example_env ''t'' (single_step_tool [forEach_step ''loop'' [] i]) = Return ()" for i
    using conversion_succeeds_iff [of "[single_step_tool [forEach_step ''loop'' [] i]]" example_env "''t''"] that
    by (simp add: single_step_tool_def forEach_step_def config_tool_step_def step_type_def)
  have ok: "ValidateCompositeToolConfig example_env ''t'' (single_step_tool [forEach_step ''loop'' [] []]) = Return ()"
    "ValidateCompositeToolConfig example_env ''t'' (single_step_tool [forEach_step ''loop'' [] ''call'']) = Return ()"
    by code_simp+
  show ?thesis unfolding iff [OF ok(1)] iff [OF ok(2)] by simp
qed

text \<open>
  The collection of a forEach step is not among the templates whose references are looked at: a loop over the output of a step that may be
  skipped and has no defaults is accepted.
\<close>

lemma forEach_collection_unchecked:
  "ValidateCompositeToolConfig example_env ''t''
     (single_step_tool [config_tool_step ''a'' ''git.read'' ''true'' [] [] [], forEach_step ''loop'' [''a''] ''call'']) = Return ()"
  by code_simp

end
