(* ===== verification/Workflow_State.thy ===== *)
theory Workflow_State
  imports Workflow_Types
begin

text \<open>
  The state of running workflows in \<open>pkg/vmcp/composer\<close>: the step results kept in the workflow context
  (\<open>workflow_context.go\<close>), the two stores of workflow status (\<open>state_store.go\<close>, \<open>workflow_state_store.go\<close>) and the
  operations of the engine on them, and the content of tool results (\<open>pkg/vmcp/conversion\<close>). Where the code reads the
  clock the time is an argument.
\<close>

section \<open>Content of tool results\<close>

datatype ContentType = ContentTypeText | ContentTypeImage | ContentTypeAudio | ContentTypeResource | ContentTypeLink
  | ContentTypeOther string

record ContentAnnotations =
  ca_Audience :: "string list"
  ca_Priority :: "string option"
  ca_LastModified :: string

record Content =
  ct_Type :: ContentType
  ct_Text :: string
  ct_Data :: string
  ct_MimeType :: string
  ct_URI :: string
  ct_Name :: string
  ct_Description :: string
  ct_Annotations :: "ContentAnnotations option"

record ToolCallResult =
  tr_Content :: "Content list"
  tr_StructuredContent :: "json_object option"
  tr_IsError :: bool
  tr_Meta :: json_object
  tr_BackendID :: string

record content_state =
  cs_result :: json_object
  cs_textIndex :: nat
  cs_imageIndex :: nat
  cs_resourceIndex :: nat

text \<open>The body of the loop of \<open>ContentArrayToMap\<close>.\<close>

definition content_item :: "Content \<Rightarrow> content_state \<Rightarrow> content_state" where
  "content_item item st = (case ct_Type item of
     ContentTypeText \<Rightarrow>
       let key = (if cs_textIndex st > 0 then ''text_'' @ show_nat (cs_textIndex st) else ''text'')
       in st\<lparr>cs_result := AList.update key (JString (ct_Text item)) (cs_result st), cs_textIndex := cs_textIndex st + 1\<rparr>
   | ContentTypeImage \<Rightarrow>
       st\<lparr>cs_result := AList.update (''image_'' @ show_nat (cs_imageIndex st)) (JString (ct_Data item)) (cs_result st),
          cs_imageIndex := cs_imageIndex st + 1\<rparr>
   | ContentTypeResource \<Rightarrow>
       let key = (if cs_resourceIndex st > 0 then ''resource_'' @ show_nat (cs_resourceIndex st) else ''resource'');
           value = (if ct_Text item = '''' then ct_Data item else ct_Text item)
       in st\<lparr>cs_result := AList.update key (JString value) (cs_result st), cs_resourceIndex := cs_resourceIndex st + 1\<rparr>
   | _ \<Rightarrow> st)"

definition ContentArrayToMap :: "Content list \<Rightarrow> json_object" where
  "ContentArrayToMap content = cs_result (fold content_item content
     \<lparr>cs_result = [], cs_textIndex = 0, cs_imageIndex = 0, cs_resourceIndex = 0\<rparr>)"

section \<open>The workflow context\<close>

record StepResult =
  sr_StepID :: string
  sr_Status :: StepStatusType
  sr_Output :: "json_object option"
  sr_Content :: "Content list option"
  sr_Error :: "goerror option"
  sr_StartTime :: gotime
  sr_EndTime :: gotime
  sr_Duration :: duration
  sr_RetryCount :: int

record WorkflowMetadata =
  wm_ID :: string
  wm_StartTime :: gotime
  wm_StepCount :: nat
  wm_Status :: WorkflowStatusType
  wm_DurationMs :: int

record WorkflowContext =
  wc_WorkflowID :: string
  wc_Params :: "json_object option"
  wc_Steps :: "(string, StepResult) gomap"
  wc_Variables :: "json_object option"
  wc_Workflow :: "WorkflowMetadata option"

text \<open>The zero value of \<open>time.Time\<close>, before every time the clock shows.\<close>

definition zero_time :: gotime where
  "zero_time = 0"

type_synonym workflowContextManager = "(string, WorkflowContext) gomap"

definition newWorkflowContextManager :: workflowContextManager where
  "newWorkflowContextManager = []"

text \<open>The fresh identifier of \<open>uuid.New\<close> is the argument \<open>workflowID\<close>.\<close>

definition CreateContext :: "string \<Rightarrow> gotime \<Rightarrow> json_object option \<Rightarrow> workflowContextManager \<Rightarrow> WorkflowContext \<times> workflowContextManager" where
  "CreateContext workflowID startTime params m =
     (let ctx = \<lparr>wc_WorkflowID = workflowID, wc_Params = params, wc_Steps = [], wc_Variables = Some [],
        wc_Workflow = Some \<lparr>wm_ID = workflowID, wm_StartTime = startTime, wm_StepCount = 0,
          wm_Status = WorkflowStatusPending, wm_DurationMs = 0\<rparr>\<rparr>
      in (ctx, AList.update workflowID ctx m))"

definition GetContext :: "string \<Rightarrow> workflowContextManager \<Rightarrow> goerror + WorkflowContext" where
  "GetContext workflowID m = (case map_of m workflowID of
     None \<Rightarrow> Inl (new_error (''workflow context not found: '' @ workflowID)) | Some ctx \<Rightarrow> Inr ctx)"

definition DeleteContext :: "string \<Rightarrow> workflowContextManager \<Rightarrow> workflowContextManager" where
  "DeleteContext workflowID m = AList.delete workflowID m"

definition new_step_result :: "string \<Rightarrow> StepStatusType \<Rightarrow> gotime \<Rightarrow> StepResult" where
  "new_step_result stepID status now = \<lparr>sr_StepID = stepID, sr_Status = status, sr_Output = None, sr_Content = None,
     sr_Error = None, sr_StartTime = now, sr_EndTime = zero_time, sr_Duration = 0, sr_RetryCount = 0\<rparr>"

definition RecordStepStart :: "string \<Rightarrow> gotime \<Rightarrow> WorkflowContext \<Rightarrow> WorkflowContext" where
  "RecordStepStart stepID now ctx = ctx\<lparr>wc_Steps := AList.update stepID (new_step_result stepID StepStatusRunning now) (wc_Steps ctx)\<rparr>"

text \<open>A change through the pointer that the map holds for the step, when there is one.\<close>

definition change_result :: "string \<Rightarrow> (StepResult \<Rightarrow> StepResult) \<Rightarrow> WorkflowContext \<Rightarrow> WorkflowContext" where
  "change_result stepID f ctx = (case map_of (wc_Steps ctx) stepID of None \<Rightarrow> ctx
     | Some result \<Rightarrow> ctx\<lparr>wc_Steps := AList.update stepID (f result) (wc_Steps ctx)\<rparr>)"

definition RecordStepSuccess :: "string \<Rightarrow> json_object option \<Rightarrow> Content list option \<Rightarrow> gotime \<Rightarrow> WorkflowContext \<Rightarrow> WorkflowContext" where
  "RecordStepSuccess stepID output content now = change_result stepID (\<lambda>result.
     result\<lparr>sr_Status := StepStatusCompleted, sr_Output := output, sr_Content := content, sr_EndTime := now,
       sr_Duration := now - sr_StartTime result\<rparr>)"

definition RecordStepFailure :: "string \<Rightarrow> goerror \<Rightarrow> gotime \<Rightarrow> WorkflowContext \<Rightarrow> WorkflowContext" where
  "RecordStepFailure stepID err now = change_result stepID (\<lambda>result.
     result\<lparr>sr_Status := StepStatusFailed, sr_Error := Some err, sr_EndTime := now, sr_Duration := now - sr_StartTime result\<rparr>)"

definition RecordStepSkipped :: "string \<Rightarrow> json_object option \<Rightarrow> gotime \<Rightarrow> gotime \<Rightarrow> WorkflowContext \<Rightarrow> WorkflowContext" where
  "RecordStepSkipped stepID defaultResults now now' ctx = ctx\<lparr>wc_Steps := AList.update stepID
     ((new_step_result stepID StepStatusSkipped now)\<lparr>sr_Output := defaultResults, sr_EndTime := now'\<rparr>) (wc_Steps ctx)\<rparr>"

definition GetStepResult :: "string \<Rightarrow> WorkflowContext \<Rightarrow> StepResult option" where
  "GetStepResult stepID ctx = map_of (wc_Steps ctx) stepID"

definition HasStepCompleted :: "string \<Rightarrow> WorkflowContext \<Rightarrow> bool" where
  "HasStepCompleted stepID ctx = (case map_of (wc_Steps ctx) stepID of None \<Rightarrow> False | Some r \<Rightarrow> sr_Status r = StepStatusCompleted)"

definition HasStepFailed :: "string \<Rightarrow> WorkflowContext \<Rightarrow> bool" where
  "HasStepFailed stepID ctx = (case map_of (wc_Steps ctx) stepID of None \<Rightarrow> False | Some r \<Rightarrow> sr_Status r = StepStatusFailed)"

definition last_output :: "StepResult \<Rightarrow> gotime \<times> json_object option \<Rightarrow> gotime \<times> json_object option" where
  "last_output result = (\<lambda>(lastTime, lastOutput).
     if sr_Status result = StepStatusCompleted \<and> sr_EndTime result > lastTime
     then (sr_EndTime result, sr_Output result) else (lastTime, lastOutput))"

definition GetLastStepOutput :: "WorkflowContext \<Rightarrow> json_object option" where
  "GetLastStepOutput ctx = snd (fold last_output (map snd (wc_Steps ctx)) (zero_time, None))"

definition cloneMap :: "(string, 'v) gomap option \<Rightarrow> (string, 'v) gomap option" where
  "cloneMap m = (case m of None \<Rightarrow> None | Some kvs \<Rightarrow> Some (fold (\<lambda>(k, v). AList.update k v) kvs []))"

definition clone_result :: "StepResult \<Rightarrow> StepResult" where
  "clone_result r = \<lparr>sr_StepID = sr_StepID r, sr_Status = sr_Status r, sr_Output = cloneMap (sr_Output r),
     sr_Content = sr_Content r, sr_Error = sr_Error r, sr_StartTime = sr_StartTime r, sr_EndTime = sr_EndTime r,
     sr_Duration = sr_Duration r, sr_RetryCount = sr_RetryCount r\<rparr>"

definition Clone :: "WorkflowContext \<Rightarrow> WorkflowContext" where
  "Clone ctx = \<lparr>wc_WorkflowID = wc_WorkflowID ctx, wc_Params = cloneMap (wc_Params ctx),
     wc_Steps = fold (\<lambda>(stepID, r). AList.update stepID (clone_result r)) (wc_Steps ctx) [],
     wc_Variables = cloneMap (wc_Variables ctx), wc_Workflow = wc_Workflow ctx\<rparr>"

section \<open>The status of a workflow\<close>

record PendingElicitation =
  pe_StepID :: string
  pe_Message :: string
  pe_Schema :: "json_object option"
  pe_ExpiresAt :: gotime

record WorkflowStatus =
  wst_WorkflowID :: string
  wst_Status :: WorkflowStatusType
  wst_CurrentStep :: string
  wst_CompletedSteps :: "string list"
  wst_PendingElicitations :: "PendingElicitation list"
  wst_StartTime :: gotime
  wst_LastUpdateTime :: gotime

definition buildWorkflowStatus :: "WorkflowContext \<Rightarrow> WorkflowStatusType \<Rightarrow> gotime \<Rightarrow> WorkflowStatus" where
  "buildWorkflowStatus ctx status now = \<lparr>wst_WorkflowID = wc_WorkflowID ctx, wst_Status = status, wst_CurrentStep = '''',
     wst_CompletedSteps = map fst (filter (\<lambda>(stepID, r). sr_Status r = StepStatusCompleted) (wc_Steps ctx)),
     wst_PendingElicitations = [], wst_StartTime = now, wst_LastUpdateTime = now\<rparr>"

text \<open>\<open>Duration.Milliseconds\<close>: the quotient, rounded toward zero.\<close>

definition milliseconds :: "duration \<Rightarrow> int" where
  "milliseconds d = (if d \<ge> 0 then d div 1000000 else - ((- d) div 1000000))"

definition updateWorkflowMetadata :: "gotime \<Rightarrow> WorkflowStatusType \<Rightarrow> gotime \<Rightarrow> WorkflowContext \<Rightarrow> WorkflowContext" where
  "updateWorkflowMetadata startTime status now ctx = (case wc_Workflow ctx of None \<Rightarrow> ctx
     | Some w \<Rightarrow> ctx\<lparr>wc_Workflow := Some (w\<lparr>
         wm_StepCount := length (filter (\<lambda>(stepID, r). sr_Status r = StepStatusCompleted) (wc_Steps ctx)),
         wm_Status := status, wm_DurationMs := milliseconds (now - startTime)\<rparr>)\<rparr>)"

section \<open>The stores\<close>

definition terminal_status :: "WorkflowStatusType \<Rightarrow> bool" where
  "terminal_status s \<longleftrightarrow> s = WorkflowStatusCompleted \<or> s = WorkflowStatusFailed \<or> s = WorkflowStatusCancelled \<or> s = WorkflowStatusTimedOut"

definition workflow_not_found :: "string \<Rightarrow> goerror" where
  "workflow_not_found t = \<lparr>err_chain = [ErrWorkflowNotFound], err_text = ''workflow not found: '' @ t\<rparr>"

record inMemoryStateStore =
  ims_states :: "(string, WorkflowStatus) gomap"
  ims_cleanupInterval :: duration
  ims_maxAge :: duration

definition NewInMemoryStateStore :: "duration \<Rightarrow> duration \<Rightarrow> inMemoryStateStore" where
  "NewInMemoryStateStore cleanupInterval maxAge = \<lparr>ims_states = [],
     ims_cleanupInterval = (if cleanupInterval \<le> 0 then 5 * 60 * 1000000000 else cleanupInterval),
     ims_maxAge = (if maxAge \<le> 0 then 60 * 60 * 1000000000 else maxAge)\<rparr>"

text \<open>The copies the store takes and hands out are equal to what they copy.\<close>

definition ims_SaveState :: "gotime \<Rightarrow> string \<Rightarrow> WorkflowStatus option \<Rightarrow> inMemoryStateStore \<Rightarrow> goerror option \<times> inMemoryStateStore" where
  "ims_SaveState now workflowID state s =
     (if workflowID = '''' then (Some (new_error ''workflow ID is required''), s)
      else case state of None \<Rightarrow> (Some (new_error ''state is required''), s)
       | Some st \<Rightarrow> (None, s\<lparr>ims_states := AList.update workflowID (st\<lparr>wst_LastUpdateTime := now\<rparr>) (ims_states s)\<rparr>))"

definition ims_LoadState :: "string \<Rightarrow> inMemoryStateStore \<Rightarrow> goerror + WorkflowStatus" where
  "ims_LoadState workflowID s =
     (if workflowID = '''' then Inl (new_error ''workflow ID is required'')
      else case map_of (ims_states s) workflowID of None \<Rightarrow> Inl (workflow_not_found (''workflow '' @ workflowID))
       | Some st \<Rightarrow> Inr st)"

definition ims_DeleteState :: "string \<Rightarrow> inMemoryStateStore \<Rightarrow> goerror option \<times> inMemoryStateStore" where
  "ims_DeleteState workflowID s =
     (if workflowID = '''' then (Some (new_error ''workflow ID is required''), s)
      else case map_of (ims_states s) workflowID of
        None \<Rightarrow> (Some (workflow_not_found (''workflow '' @ workflowID)), s)
      | Some _ \<Rightarrow> (None, s\<lparr>ims_states := AList.delete workflowID (ims_states s)\<rparr>))"

definition ims_ListActiveWorkflows :: "inMemoryStateStore \<Rightarrow> string list" where
  "ims_ListActiveWorkflows s = map fst (filter (\<lambda>(workflowID, st). wst_Status st = WorkflowStatusRunning \<or>
     wst_Status st = WorkflowStatusWaitingForElicitation \<or> wst_Status st = WorkflowStatusPending) (ims_states s))"

definition ims_cleanup :: "gotime \<Rightarrow> inMemoryStateStore \<Rightarrow> inMemoryStateStore" where
  "ims_cleanup now s = s\<lparr>ims_states := filter (\<lambda>(workflowID, st).
     \<not> (terminal_status (wst_Status st) \<and> now - wst_LastUpdateTime st > ims_maxAge s)) (ims_states s)\<rparr>"

definition status_key :: "WorkflowStatusType \<Rightarrow> string" where
  "status_key s = (case s of WorkflowStatusPending \<Rightarrow> ''pending'' | WorkflowStatusRunning \<Rightarrow> ''running''
     | WorkflowStatusWaitingForElicitation \<Rightarrow> ''waiting_for_elicit'' | WorkflowStatusCompleted \<Rightarrow> ''completed''
     | WorkflowStatusFailed \<Rightarrow> ''failed'' | WorkflowStatusCancelled \<Rightarrow> ''cancelled'' | WorkflowStatusTimedOut \<Rightarrow> ''timed_out'')"

definition bump :: "string \<Rightarrow> (string, nat) gomap \<Rightarrow> (string, nat) gomap" where
  "bump k stats = AList.update k ((case map_of stats k of None \<Rightarrow> 0 | Some n \<Rightarrow> n) + 1) stats"

definition GetStats :: "inMemoryStateStore \<Rightarrow> (string, nat) gomap" where
  "GetStats s = fold (\<lambda>(workflowID, st) stats. bump (status_key (wst_Status st)) (bump ''total'' stats)) (ims_states s)
     (map (\<lambda>k. (k, 0)) [''total'', ''pending'', ''running'', ''waiting_for_elicit'', ''completed'', ''failed'', ''cancelled'', ''timed_out''])"

text \<open>The second store keeps every status until it is deleted.\<close>

type_synonym InMemoryWorkflowStateStore = "(string, WorkflowStatus) gomap"

definition NewInMemoryWorkflowStateStore :: InMemoryWorkflowStateStore where
  "NewInMemoryWorkflowStateStore = []"

definition clonePendingElicitation :: "PendingElicitation \<Rightarrow> PendingElicitation" where
  "clonePendingElicitation pe = \<lparr>pe_StepID = pe_StepID pe, pe_Message = pe_Message pe, pe_Schema = cloneMap (pe_Schema pe),
     pe_ExpiresAt = pe_ExpiresAt pe\<rparr>"

definition cloneWorkflowStatus :: "WorkflowStatus \<Rightarrow> WorkflowStatus" where
  "cloneWorkflowStatus state = \<lparr>wst_WorkflowID = wst_WorkflowID state, wst_Status = wst_Status state,
     wst_CurrentStep = wst_CurrentStep state, wst_CompletedSteps = wst_CompletedSteps state,
     wst_PendingElicitations = map clonePendingElicitation (wst_PendingElicitations state),
     wst_StartTime = wst_StartTime state, wst_LastUpdateTime = wst_LastUpdateTime state\<rparr>"

text \<open>The clock is an argument of both stores; this one does not read it.\<close>

definition imw_SaveState :: "gotime \<Rightarrow> string \<Rightarrow> WorkflowStatus option \<Rightarrow> InMemoryWorkflowStateStore \<Rightarrow> goerror option \<times> InMemoryWorkflowStateStore" where
  "imw_SaveState now workflowID state s =
     (if workflowID = '''' then (Some (new_error ''workflow ID cannot be empty''), s)
      else case state of None \<Rightarrow> (Some (new_error ''workflow state cannot be nil''), s)
       | Some st \<Rightarrow> (None, AList.update workflowID (cloneWorkflowStatus st) s))"

definition imw_LoadState :: "string \<Rightarrow> InMemoryWorkflowStateStore \<Rightarrow> goerror + WorkflowStatus" where
  "imw_LoadState workflowID s =
     (if workflowID = '''' then Inl (new_error ''workflow ID cannot be empty'')
      else case map_of s workflowID of None \<Rightarrow> Inl (workflow_not_found workflowID) | Some st \<Rightarrow> Inr (cloneWorkflowStatus st))"

definition imw_DeleteState :: "string \<Rightarrow> InMemoryWorkflowStateStore \<Rightarrow> goerror option \<times> InMemoryWorkflowStateStore" where
  "imw_DeleteState workflowID s =
     (if workflowID = '''' then (Some (new_error ''workflow ID cannot be empty''), s)
      else (None, AList.delete workflowID s))"

definition imw_ListActiveWorkflows :: "InMemoryWorkflowStateStore \<Rightarrow> string list" where
  "imw_ListActiveWorkflows s = map fst s"

section \<open>Status and cancellation\<close>

text \<open>The operations of the store are arguments; the store itself is absent when none is configured.\<close>

definition status_text :: "WorkflowStatusType \<Rightarrow> string" where
  "status_text s = (case s of WorkflowStatusPending \<Rightarrow> ''pending'' | WorkflowStatusRunning \<Rightarrow> ''running''
     | WorkflowStatusWaitingForElicitation \<Rightarrow> ''waiting_for_elicitation'' | WorkflowStatusCompleted \<Rightarrow> ''completed''
     | WorkflowStatusFailed \<Rightarrow> ''failed'' | WorkflowStatusCancelled \<Rightarrow> ''cancelled'' | WorkflowStatusTimedOut \<Rightarrow> ''timed_out'')"

definition GetWorkflowStatus :: "(string \<Rightarrow> 's \<Rightarrow> goerror + WorkflowStatus) \<Rightarrow> string \<Rightarrow> 's option \<Rightarrow> goerror + WorkflowStatus" where
  "GetWorkflowStatus load workflowID store = (case store of
     None \<Rightarrow> Inl (new_error ''workflow status tracking not available: state store not configured'')
   | Some s \<Rightarrow> if workflowID = '''' then Inl (new_error ''workflow ID is required'')
       else case load workflowID s of Inl e \<Rightarrow> Inl (wrap_error ''failed to load workflow status: '' e) | Inr st \<Rightarrow> Inr st)"

text \<open>
  The engine holds no lock between loading the status and saving it: \<open>interfere\<close> is what the other users of the store do to
  it in between.
\<close>

definition CancelWorkflow :: "(string \<Rightarrow> 's \<Rightarrow> goerror + WorkflowStatus) \<Rightarrow>
    (gotime \<Rightarrow> string \<Rightarrow> WorkflowStatus option \<Rightarrow> 's \<Rightarrow> goerror option \<times> 's) \<Rightarrow> ('s \<Rightarrow> 's) \<Rightarrow> gotime \<Rightarrow> string \<Rightarrow> 's option \<Rightarrow>
    goerror option \<times> 's option" where
  "CancelWorkflow load save interfere now workflowID store = (case store of
     None \<Rightarrow> (Some (new_error ''workflow cancellation not available: state store not configured''), None)
   | Some s \<Rightarrow> if workflowID = '''' then (Some (new_error ''workflow ID is required''), Some s)
       else case load workflowID s of
         Inl e \<Rightarrow> (Some (wrap_error ''failed to load workflow status: '' e), Some s)
       | Inr status \<Rightarrow>
           if terminal_status (wst_Status status)
           then (Some (new_error (''workflow '' @ workflowID @ '' is already in terminal state: '' @ status_text (wst_Status status))), Some s)
           else case save now workflowID (Some (status\<lparr>wst_Status := WorkflowStatusCancelled, wst_LastUpdateTime := now\<rparr>)) (interfere s) of
               (Some e, s') \<Rightarrow> (Some (wrap_error ''failed to save cancelled state: '' e), Some s')
             | (None, s') \<Rightarrow> (None, Some s'))"

section \<open>What a store promises\<close>

lemma fold_update_distinct:
  "distinct (map fst (m @ kvs)) \<Longrightarrow> fold (\<lambda>(k, v). AList.update k (f v)) kvs m = m @ map (\<lambda>(k, v). (k, f v)) kvs"
proof (induction kvs arbitrary: m)
  case (Cons kv kvs)
  then have "fst kv \<notin> fst ` set m" by auto
  then have "AList.update (fst kv) (f (snd kv)) m = m @ [(fst kv, f (snd kv))]" by (rule update_new)
  then show ?case using Cons by (simp add: case_prod_beta)
qed simp

lemma cloneMap_same: "(\<forall>kvs. m = Some kvs \<longrightarrow> gomap_ok kvs) \<Longrightarrow> cloneMap m = m"
  using fold_update_distinct [of "[]" "the m" id] by (cases m) (auto simp: cloneMap_def gomap_ok_def)

definition status_ok :: "WorkflowStatus \<Rightarrow> bool" where
  "status_ok st \<longleftrightarrow> (\<forall>pe \<in> set (wst_PendingElicitations st). \<forall>kvs. pe_Schema pe = Some kvs \<longrightarrow> gomap_ok kvs)"

lemma cloneWorkflowStatus_same: "status_ok st \<Longrightarrow> cloneWorkflowStatus st = st"
proof -
  assume "status_ok st"
  then have "map clonePendingElicitation (wst_PendingElicitations st) = wst_PendingElicitations st"
    by (intro map_idI) (simp add: status_ok_def clonePendingElicitation_def cloneMap_same)
  then show ?thesis by (simp add: cloneWorkflowStatus_def)
qed

text \<open>
  The contract of the interface \<open>WorkflowStateStore\<close>: what is saved is loaded, up to the time of the last update that a
  store may set, and no operation disturbs another workflow.
\<close>

locale state_store =
  fixes save :: "gotime \<Rightarrow> string \<Rightarrow> WorkflowStatus option \<Rightarrow> 's \<Rightarrow> goerror option \<times> 's"
    and load :: "string \<Rightarrow> 's \<Rightarrow> goerror + WorkflowStatus"
    and delete :: "string \<Rightarrow> 's \<Rightarrow> goerror option \<times> 's"
    and sane :: "'s \<Rightarrow> bool"
  assumes load_save: "i \<noteq> '''' \<Longrightarrow> status_ok st \<Longrightarrow> wst_LastUpdateTime st = now \<Longrightarrow> save now i (Some st) s = (e, s') \<Longrightarrow>
      e = None \<and> load i s' = Inr st"
    and save_other: "save now i os s = (e, s') \<Longrightarrow> i \<noteq> j \<Longrightarrow> load j s' = load j s"
    and save_rejected: "i = '''' \<or> os = None \<Longrightarrow> save now i os s = (e, s') \<Longrightarrow> e \<noteq> None \<and> s' = s"
    and load_deleted: "i \<noteq> '''' \<Longrightarrow> \<exists>e. load i (snd (delete i s)) = Inl e \<and> errors_Is e ErrWorkflowNotFound"
    and delete_other: "i \<noteq> j \<Longrightarrow> load j (snd (delete i s)) = load j s"
    and load_ok: "sane s \<Longrightarrow> load i s = Inr st \<Longrightarrow> status_ok st \<and> i \<noteq> ''''"
begin

lemma cancel_running:
  assumes "sane s" "load i s = Inr st" "\<not> terminal_status (wst_Status st)"
  shows "\<exists>s'. CancelWorkflow load save interfere now i (Some s) = (None, Some s') \<and>
    load i s' = Inr (st\<lparr>wst_Status := WorkflowStatusCancelled, wst_LastUpdateTime := now\<rparr>) \<and>
    (\<forall>j. j \<noteq> i \<longrightarrow> load j s' = load j (interfere s))"
proof -
  let ?st = "st\<lparr>wst_Status := WorkflowStatusCancelled, wst_LastUpdateTime := now\<rparr>"
  have i: "i \<noteq> ''''" "status_ok ?st" using load_ok [OF assms(1,2)] by (simp_all add: status_ok_def)
  obtain e s' where save: "save now i (Some ?st) (interfere s) = (e, s')" by fastforce
  then have "e = None" "load i s' = Inr ?st" using load_save [OF i, of now "interfere s" e s'] by simp_all
  then show ?thesis using assms(2,3) i(1) save save_other [OF save] by (auto simp: CancelWorkflow_def)
qed

lemma cancel_terminal:
  assumes "load i s = Inr st" "terminal_status (wst_Status st)"
  shows "\<exists>e. CancelWorkflow load save interfere now i (Some s) = (Some e, Some s)"
  using assms by (simp add: CancelWorkflow_def)

lemma cancel_missing:
  assumes "load i s = Inl e"
  shows "\<exists>e'. CancelWorkflow load save interfere now i (Some s) = (Some e', Some s)"
  using assms by (simp add: CancelWorkflow_def)

end

definition ims_sane :: "inMemoryStateStore \<Rightarrow> bool" where
  "ims_sane s \<longleftrightarrow> (\<forall>i st. map_of (ims_states s) i = Some st \<longrightarrow> status_ok st)"

definition imw_sane :: "InMemoryWorkflowStateStore \<Rightarrow> bool" where
  "imw_sane s \<longleftrightarrow> (\<forall>i st. map_of s i = Some st \<longrightarrow> status_ok st)"

lemmas ims_defs = ims_SaveState_def ims_LoadState_def ims_DeleteState_def
lemmas imw_defs = imw_SaveState_def imw_LoadState_def imw_DeleteState_def

interpretation ims: state_store ims_SaveState ims_LoadState ims_DeleteState ims_sane
proof unfold_locales
  fix i st now s e s'
  assume "i \<noteq> ''''" "wst_LastUpdateTime st = now" "ims_SaveState now i (Some st) s = (e, s')"
  moreover from this(2) have "st\<lparr>wst_LastUpdateTime := now\<rparr> = st" by simp
  ultimately show "e = None \<and> ims_LoadState i s' = Inr st" by (auto simp: ims_defs)
qed (auto simp: ims_defs ims_sane_def workflow_not_found_def errors_Is_def split: if_splits option.splits)

interpretation imw: state_store imw_SaveState imw_LoadState imw_DeleteState imw_sane
  by unfold_locales (auto simp: imw_defs imw_sane_def workflow_not_found_def errors_Is_def cloneWorkflowStatus_same
      split: if_splits option.splits)

section \<open>Properties of stores and cancellation\<close>

definition running_status :: WorkflowStatus where
  "running_status = \<lparr>wst_WorkflowID = ''w1'', wst_Status = WorkflowStatusRunning, wst_CurrentStep = '''', wst_CompletedSteps = [],
     wst_PendingElicitations = [], wst_StartTime = 7, wst_LastUpdateTime = 7\<rparr>"

text \<open>
  What happens to a store: calls of its clients, failing ones among them, and the ticks of the cleanup goroutine, which only the
  first store has.
\<close>

datatype store_op = OpSave gotime string "WorkflowStatus option" | OpDelete string | OpCleanup gotime

fun ims_op :: "store_op \<Rightarrow> inMemoryStateStore \<Rightarrow> inMemoryStateStore" where
  "ims_op (OpSave now i st) s = snd (ims_SaveState now i st s)"
| "ims_op (OpDelete i) s = snd (ims_DeleteState i s)"
| "ims_op (OpCleanup now) s = ims_cleanup now s"

fun imw_op :: "store_op \<Rightarrow> InMemoryWorkflowStateStore \<Rightarrow> InMemoryWorkflowStateStore" where
  "imw_op (OpSave now i st) s = snd (imw_SaveState now i st s)"
| "imw_op (OpDelete i) s = snd (imw_DeleteState i s)"
| "imw_op (OpCleanup now) s = s"

fun op_ok :: "store_op \<Rightarrow> bool" where
  "op_ok (OpSave now i st) = (case st of None \<Rightarrow> True | Some x \<Rightarrow> status_ok x)"
| "op_ok (OpDelete i) = True"
| "op_ok (OpCleanup now) = True"

fun saves :: "string \<Rightarrow> store_op \<Rightarrow> bool" where
  "saves i (OpSave now j st) \<longleftrightarrow> j = i \<and> st \<noteq> None"
| "saves i (OpDelete j) \<longleftrightarrow> False"
| "saves i (OpCleanup now) \<longleftrightarrow> False"

definition ims_inv :: "inMemoryStateStore \<Rightarrow> bool" where
  "ims_inv s \<longleftrightarrow> gomap_ok (ims_states s) \<and> ims_sane s"

lemma ims_op_maxAge [simp]: "ims_maxAge (ims_op op s) = ims_maxAge s"
  by (cases op) (simp_all add: ims_defs ims_cleanup_def split: option.split)

lemma ims_ops_maxAge [simp]: "ims_maxAge (fold ims_op ops s) = ims_maxAge s"
  by (induction ops arbitrary: s) simp_all

lemma ims_op_inv: "ims_inv s \<Longrightarrow> op_ok op \<Longrightarrow> ims_inv (ims_op op s)"
  by (cases op) (auto simp: ims_inv_def ims_sane_def ims_defs ims_cleanup_def map_of_filter_ok status_ok_def
      split: option.splits if_splits)

lemma ims_ops_ok: "gomap_ok (ims_states s) \<Longrightarrow> gomap_ok (ims_states (fold ims_op ops s))"
proof (induction ops arbitrary: s)
  case (Cons op ops)
  have "gomap_ok (ims_states (ims_op op s))"
    using Cons.prems by (cases op) (simp_all add: ims_defs ims_cleanup_def split: option.split)
  then show ?case using Cons.IH by simp
qed simp

lemma ims_ops_inv: "\<forall>op \<in> set ops. op_ok op \<Longrightarrow> ims_inv (fold ims_op ops (NewInMemoryStateStore interval maxAge))"
  by (induction ops rule: rev_induct) (auto simp: ims_op_inv, simp add: ims_inv_def ims_sane_def NewInMemoryStateStore_def)

lemma ims_op_lookup:
  assumes "gomap_ok (ims_states s)" "\<not> saves i op"
  shows "map_of (ims_states (ims_op op s)) i = (case map_of (ims_states s) i of None \<Rightarrow> None
    | Some st \<Rightarrow> if op = OpDelete i \<and> i \<noteq> '''' \<or>
        (\<exists>now. op = OpCleanup now \<and> terminal_status (wst_Status st) \<and> now - wst_LastUpdateTime st > ims_maxAge s) then None else Some st)"
  using assms by (cases op) (auto simp: ims_defs ims_cleanup_def map_of_filter_ok split: option.splits)

lemma kept_until_saved:
  assumes "gomap_ok (ims_states s)" "map_of (ims_states s) i = Some st" "\<forall>op \<in> set ops. \<not> saves i op"
  shows "gomap_ok (ims_states (fold ims_op ops s)) \<and> (map_of (ims_states (fold ims_op ops s)) i = Some st \<or>
    map_of (ims_states (fold ims_op ops s)) i = None \<and>
      (OpDelete i \<in> set ops \<or> (\<exists>now. OpCleanup now \<in> set ops \<and> terminal_status (wst_Status st) \<and> now - wst_LastUpdateTime st > ims_maxAge s)))"
  using assms(3)
proof (induction ops rule: rev_induct)
  case (snoc op ops)
  let ?s = "fold ims_op ops s"
  have IH: "gomap_ok (ims_states ?s)" "map_of (ims_states ?s) i = Some st \<or> map_of (ims_states ?s) i = None \<and>
      (OpDelete i \<in> set ops \<or> (\<exists>now. OpCleanup now \<in> set ops \<and> terminal_status (wst_Status st) \<and> now - wst_LastUpdateTime st > ims_maxAge s))"
    using snoc by auto
  have ok: "gomap_ok (ims_states (ims_op op ?s))" using ims_ops_ok [OF IH(1), of "[op]"] by simp
  have "\<not> saves i op" using snoc.prems by simp
  note step = ims_op_lookup [OF IH(1) this]
  show ?case using IH(2)
  proof
    assume "map_of (ims_states ?s) i = Some st"
    then show ?thesis using ok step by auto
  next
    assume none: "map_of (ims_states ?s) i = None \<and>
      (OpDelete i \<in> set ops \<or> (\<exists>now. OpCleanup now \<in> set ops \<and> terminal_status (wst_Status st) \<and> now - wst_LastUpdateTime st > ims_maxAge s))"
    then have "map_of (ims_states (ims_op op ?s)) i = None" using step by simp
    then show ?thesis using ok none by auto
  qed
qed (use assms(1,2) in simp)

text \<open>
  Claim C25: cancelling marks one workflow, and the mark lasts until the next save. On the in-memory store, whatever other saves,
  deletions and cleanups come between its load and its save, cancelling a workflow that was running, pending or waiting succeeds:
  the workflow is cancelled, with the status it had when it was loaded otherwise unchanged but for the time of the update, and
  the other workflows are as the calls in between left them. As long as no status of the workflow is saved it stays cancelled,
  and a second cancellation is refused, or it is gone because it was deleted or had been cancelled for longer than the maximal
  age at a cleanup. A later save, like a checkpoint of an execution still under way, replaces the mark. A workflow in a terminal
  state or an unknown one gives an error and leaves the store as it is.
\<close>

theorem cancel_lasts_until_saved:
  assumes "\<forall>op \<in> set before. op_ok op" "s = fold ims_op before (NewInMemoryStateStore interval maxAge)"
  shows "case ims_LoadState i s of
     Inl _ \<Rightarrow> \<exists>e. CancelWorkflow ims_LoadState ims_SaveState (fold ims_op between) now i (Some s) = (Some e, Some s)
   | Inr st \<Rightarrow> if terminal_status (wst_Status st)
       then \<exists>e. CancelWorkflow ims_LoadState ims_SaveState (fold ims_op between) now i (Some s) = (Some e, Some s)
       else \<exists>s'. CancelWorkflow ims_LoadState ims_SaveState (fold ims_op between) now i (Some s) = (None, Some s') \<and>
         ims_LoadState i s' = Inr (st\<lparr>wst_Status := WorkflowStatusCancelled, wst_LastUpdateTime := now\<rparr>) \<and>
         (\<forall>j. j \<noteq> i \<longrightarrow> ims_LoadState j s' = ims_LoadState j (fold ims_op between s)) \<and>
         (\<forall>later. (\<forall>op \<in> set later. \<not> saves i op) \<longrightarrow>
            (ims_LoadState i (fold ims_op later s') = Inr (st\<lparr>wst_Status := WorkflowStatusCancelled, wst_LastUpdateTime := now\<rparr>) \<and>
             (\<forall>interfere now'. \<exists>e. CancelWorkflow ims_LoadState ims_SaveState interfere now' i (Some (fold ims_op later s')) =
                (Some e, Some (fold ims_op later s')))) \<or>
            ((\<exists>e. ims_LoadState i (fold ims_op later s') = Inl e) \<and>
             (OpDelete i \<in> set later \<or> (\<exists>t. OpCleanup t \<in> set later \<and> t - now > ims_maxAge s)))) \<and>
         (\<forall>later t x. ims_LoadState i (ims_op (OpSave t i (Some x)) (fold ims_op later s')) = Inr (x\<lparr>wst_LastUpdateTime := t\<rparr>))"
proof (cases "ims_LoadState i s")
  case (Inl e)
  then show ?thesis using ims.cancel_missing by simp
next
  case (Inr st)
  show ?thesis
  proof (cases "terminal_status (wst_Status st)")
    case True
    then show ?thesis using Inr ims.cancel_terminal [OF Inr True] by simp
  next
    case False
    let ?c = "st\<lparr>wst_Status := WorkflowStatusCancelled, wst_LastUpdateTime := now\<rparr>"
    have inv: "ims_inv s" using ims_ops_inv [OF assms(1)] by (simp add: assms(2))
    then obtain s' where s': "CancelWorkflow ims_LoadState ims_SaveState (fold ims_op between) now i (Some s) = (None, Some s')"
        "ims_LoadState i s' = Inr ?c" "\<forall>j. j \<noteq> i \<longrightarrow> ims_LoadState j s' = ims_LoadState j (fold ims_op between s)"
      using ims.cancel_running [OF _ Inr False, of "fold ims_op between" now] unfolding ims_inv_def by blast
    have i: "i \<noteq> ''''" using Inr by (auto simp: ims_LoadState_def)
    have "s' = snd (ims_SaveState now i (Some ?c) (fold ims_op between s))"
      using s'(1) Inr False i by (simp add: CancelWorkflow_def ims_SaveState_def)
    then have s'_inv: "gomap_ok (ims_states s')" "ims_maxAge s' = ims_maxAge s" "map_of (ims_states s') i = Some ?c"
      using i ims_ops_ok [OF inv [unfolded ims_inv_def, THEN conjunct1], of between] by (simp_all add: ims_SaveState_def)
    have later: "(ims_LoadState i (fold ims_op later s') = Inr ?c \<and>
         (\<forall>interfere now'. \<exists>e. CancelWorkflow ims_LoadState ims_SaveState interfere now' i (Some (fold ims_op later s')) =
            (Some e, Some (fold ims_op later s')))) \<or>
        ((\<exists>e. ims_LoadState i (fold ims_op later s') = Inl e) \<and>
         (OpDelete i \<in> set later \<or> (\<exists>t. OpCleanup t \<in> set later \<and> t - now > ims_maxAge s)))"
      if "\<forall>op \<in> set later. \<not> saves i op" for later
      using kept_until_saved [OF s'_inv(1,3) that] i s'_inv(2)
      by (auto simp: ims_LoadState_def CancelWorkflow_def terminal_status_def)
    have "ims_LoadState i (ims_op (OpSave t i (Some x)) u) = Inr (x\<lparr>wst_LastUpdateTime := t\<rparr>)" for t x u
      using i by (simp add: ims_defs)
    then show ?thesis using Inr False s' later by auto
  qed
qed

theorem cancel_lasts_until_saved_witness:
  "\<exists>s'. CancelWorkflow ims_LoadState ims_SaveState (fold ims_op [OpCleanup 8, OpDelete ''w2'']) 9 ''w1''
      (Some (fold ims_op [OpSave 7 ''w1'' (Some running_status)] (NewInMemoryStateStore 0 0))) = (None, Some s') \<and>
    ims_LoadState ''w1'' s' = Inr (running_status\<lparr>wst_Status := WorkflowStatusCancelled, wst_LastUpdateTime := 9\<rparr>)"
proof -
  let ?s = "fold ims_op [OpSave 7 ''w1'' (Some running_status)] (NewInMemoryStateStore 0 0)"
  have "ims_LoadState ''w1'' ?s = Inr running_status"
    by (simp add: ims_defs NewInMemoryStateStore_def running_status_def)
  moreover have "\<forall>op \<in> set [OpSave 7 ''w1'' (Some running_status)]. op_ok op" by (simp add: running_status_def status_ok_def)
  moreover have "\<not> terminal_status (wst_Status running_status)" by (simp add: terminal_status_def running_status_def)
  ultimately show ?thesis
    using cancel_lasts_until_saved [OF _ refl, where before = "[OpSave 7 ''w1'' (Some running_status)]" and i = "''w1''" and interval = 0 and maxAge = 0
        and between = "[OpCleanup 8, OpDelete ''w2'']" and now = 9]
    by auto
qed

text \<open>
  A loaded status up to the time of the last update, or whether the failure says that the workflow is not known.
\<close>

definition view_load :: "goerror + WorkflowStatus \<Rightarrow> bool + WorkflowStatus" where
  "view_load r = (case r of Inl e \<Rightarrow> Inl (errors_Is e ErrWorkflowNotFound) | Inr st \<Rightarrow> Inr (st\<lparr>wst_LastUpdateTime := 0\<rparr>))"

text \<open>The last save of a workflow in a history, and whether a cleanup after it came late enough to remove the workflow.\<close>

definition last_saved :: "store_op list \<Rightarrow> string \<Rightarrow> gotime \<Rightarrow> bool" where
  "last_saved ops i t \<longleftrightarrow> (\<exists>pre x mid. ops = pre @ OpSave t i (Some x) # mid \<and> (\<forall>op \<in> set mid. \<not> saves i op))"

definition aged_out :: "store_op list \<Rightarrow> string \<Rightarrow> duration \<Rightarrow> bool" where
  "aged_out ops i age \<longleftrightarrow> (\<exists>pre t x mid now post. ops = pre @ OpSave t i (Some x) # mid @ OpCleanup now # post \<and>
     (\<forall>op \<in> set (mid @ post). \<not> saves i op) \<and> now - t > age)"

lemma last_saved_more: "last_saved ops i t \<Longrightarrow> \<not> saves i op \<Longrightarrow> last_saved (ops @ [op]) i t"
  unfolding last_saved_def by (elim exE conjE) (intro exI conjI, simp, auto)

lemma last_saved_here: "last_saved (ops @ [OpSave t i (Some x)]) i t"
  unfolding last_saved_def by (rule exI [of _ ops], rule exI [of _ x], rule exI [of _ "[]"]) simp

lemma aged_out_more: "aged_out ops i age \<Longrightarrow> \<not> saves i op \<Longrightarrow> aged_out (ops @ [op]) i age"
  unfolding aged_out_def by (elim exE conjE) (intro exI conjI, simp, auto)

lemma aged_out_here: "last_saved ops i t \<Longrightarrow> now - t > age \<Longrightarrow> aged_out (ops @ [OpCleanup now]) i age"
  unfolding last_saved_def aged_out_def by (elim exE conjE) (intro exI conjI, simp, auto)

definition stores_match :: "store_op list \<Rightarrow> inMemoryStateStore \<Rightarrow> InMemoryWorkflowStateStore \<Rightarrow> bool" where
  "stores_match ops s w \<longleftrightarrow> (\<forall>i. i \<noteq> '''' \<longrightarrow> (case map_of (ims_states s) i of
     Some st \<Rightarrow> (\<exists>y. map_of w i = Some y \<and> y\<lparr>wst_LastUpdateTime := 0\<rparr> = st\<lparr>wst_LastUpdateTime := 0\<rparr>) \<and> last_saved ops i (wst_LastUpdateTime st)
   | None \<Rightarrow> map_of w i = None \<or> (\<exists>y. map_of w i = Some y \<and> terminal_status (wst_Status y) \<and> aged_out ops i (ims_maxAge s))))"

lemma imw_op_lookup:
  "\<not> saves i op \<Longrightarrow> map_of (imw_op op w) i = (if op = OpDelete i \<and> i \<noteq> '''' then None else map_of w i)"
  by (cases op) (auto simp: imw_defs split: option.splits)

lemma stores_match_op:
  assumes "stores_match ops s w" "gomap_ok (ims_states s)" "op_ok op"
  shows "stores_match (ops @ [op]) (ims_op op s) (imw_op op w)"
  unfolding stores_match_def
proof (intro allI impI)
  fix i :: string
  assume i: "i \<noteq> ''''"
  show "case map_of (ims_states (ims_op op s)) i of
     Some st \<Rightarrow> (\<exists>y. map_of (imw_op op w) i = Some y \<and> y\<lparr>wst_LastUpdateTime := 0\<rparr> = st\<lparr>wst_LastUpdateTime := 0\<rparr>) \<and>
       last_saved (ops @ [op]) i (wst_LastUpdateTime st)
   | None \<Rightarrow> map_of (imw_op op w) i = None \<or>
       (\<exists>y. map_of (imw_op op w) i = Some y \<and> terminal_status (wst_Status y) \<and> aged_out (ops @ [op]) i (ims_maxAge (ims_op op s)))"
  proof (cases "saves i op")
    case True
    then obtain t x where op: "op = OpSave t i (Some x)" by (cases op) auto
    then have "cloneWorkflowStatus x = x" using assms(3) by (simp add: cloneWorkflowStatus_same)
    then show ?thesis using i op last_saved_here by (simp add: ims_defs imw_defs)
  next
    case False
    note step = ims_op_lookup [OF assms(2) False] imw_op_lookup [OF False, of w]
    note old = assms(1) [unfolded stores_match_def, rule_format, OF i]
    show ?thesis
    proof (cases "map_of (ims_states s) i")
      case None
      then show ?thesis using old step aged_out_more [OF _ False] by auto
    next
      case (Some st)
      then obtain y where y: "map_of w i = Some y" "y\<lparr>wst_LastUpdateTime := 0\<rparr> = st\<lparr>wst_LastUpdateTime := 0\<rparr>"
        "last_saved ops i (wst_LastUpdateTime st)" using old by auto
      have "wst_Status y = wst_Status st" using arg_cong [OF y(2), of wst_Status] by simp
      then show ?thesis using Some y step i last_saved_more [OF y(3) False] aged_out_here [OF y(3)] by auto
    qed
  qed
qed

text \<open>
  Claim C26: the two state stores give the same answers, but for workflows the first has forgotten. After the same saves and
  deletions, in any order and with failing calls and ticks of the cleanup among them, both return the same status for every
  workflow up to the time of the last update, or both report that they do not know it; the only other case is a workflow that the
  second store still has in a terminal state and the first does not know, because a cleanup found its last save longer ago than
  the maximal age. This is about \<open>LoadState\<close>: the results of \<open>DeleteState\<close> for an unknown workflow differ, and so do the
  workflows that \<open>ListActiveWorkflows\<close> lists.
\<close>

theorem state_stores_agree:
  assumes "\<forall>op \<in> set ops. op_ok op"
    and "s = fold ims_op ops (NewInMemoryStateStore interval maxAge)" "w = fold imw_op ops NewInMemoryWorkflowStateStore"
  shows "view_load (ims_LoadState i s) = view_load (imw_LoadState i w) \<or>
    (\<exists>st e. imw_LoadState i w = Inr st \<and> terminal_status (wst_Status st) \<and>
       ims_LoadState i s = Inl e \<and> errors_Is e ErrWorkflowNotFound \<and> aged_out ops i (if maxAge \<le> 0 then 3600000000000 else maxAge))"
proof -
  have match: "stores_match ops s w \<and> imw_sane w" unfolding assms(2,3) using assms(1)
  proof (induction ops rule: rev_induct)
    case (snoc op ops)
    let ?s = "fold ims_op ops (NewInMemoryStateStore interval maxAge)" and ?w = "fold imw_op ops NewInMemoryWorkflowStateStore"
    have ok: "\<forall>op \<in> set ops. op_ok op" "op_ok op" using snoc.prems by simp_all
    have "gomap_ok (ims_states ?s)" using ims_ops_inv [OF ok(1)] by (simp add: ims_inv_def)
    then have "stores_match (ops @ [op]) (ims_op op ?s) (imw_op op ?w)" using stores_match_op [OF _ _ ok(2)] snoc.IH [OF ok(1)] by blast
    moreover have "imw_sane (imw_op op ?w)" using snoc.IH [OF ok(1)] ok(2)
      by (cases op) (auto simp: imw_sane_def imw_defs cloneWorkflowStatus_same split: option.splits)
    ultimately show ?case by simp
  qed (simp add: stores_match_def imw_sane_def NewInMemoryStateStore_def NewInMemoryWorkflowStateStore_def)
  have age: "ims_maxAge s = (if maxAge \<le> 0 then 3600000000000 else maxAge)"
    by (simp add: assms(2)) (simp add: NewInMemoryStateStore_def)
  have clone: "cloneWorkflowStatus st = st" if "map_of w i = Some st" for st
    using match that cloneWorkflowStatus_same by (simp add: imw_sane_def)
  show ?thesis
  proof (cases "i = ''''")
    case False
    have "case map_of (ims_states s) i of
       Some st \<Rightarrow> (\<exists>y. map_of w i = Some y \<and> y\<lparr>wst_LastUpdateTime := 0\<rparr> = st\<lparr>wst_LastUpdateTime := 0\<rparr>)
     | None \<Rightarrow> map_of w i = None \<or> (\<exists>y. map_of w i = Some y \<and> terminal_status (wst_Status y) \<and> aged_out ops i (ims_maxAge s))"
      using match [THEN conjunct1, unfolded stores_match_def, rule_format, OF False] by (cases "map_of (ims_states s) i") auto
    then show ?thesis using False clone age
      by (auto simp: view_load_def ims_defs imw_defs workflow_not_found_def errors_Is_def split: option.splits)
  qed (simp add: view_load_def ims_defs imw_defs new_error_def errors_Is_def)
qed

theorem state_stores_agree_witness:
  "let ops = [OpSave 7 ''w1'' (Some (running_status\<lparr>wst_Status := WorkflowStatusCompleted\<rparr>)), OpSave 8 ''w2'' (Some running_status),
       OpDelete ''w3'', OpCleanup 99];
       s = fold ims_op ops (NewInMemoryStateStore 0 60); w = fold imw_op ops NewInMemoryWorkflowStateStore in
   view_load (ims_LoadState ''w2'' s) = view_load (imw_LoadState ''w2'' w) \<and> aged_out ops ''w1'' 60"
proof -
  let ?ops = "[OpSave 7 ''w1'' (Some (running_status\<lparr>wst_Status := WorkflowStatusCompleted\<rparr>)), OpSave 8 ''w2'' (Some running_status),
       OpDelete ''w3'', OpCleanup 99]"
  let ?s = "fold ims_op ?ops (NewInMemoryStateStore 0 60)" and ?w = "fold imw_op ?ops NewInMemoryWorkflowStateStore"
  have "\<forall>op \<in> set ?ops. op_ok op" by (simp add: status_ok_def running_status_def)
  note agree = state_stores_agree [OF this refl refl, of _ 0 60]
  have "\<not> isl (ims_LoadState ''w2'' ?s)" by code_simp
  then have "view_load (ims_LoadState ''w2'' ?s) = view_load (imw_LoadState ''w2'' ?w)"
    using agree [of "''w2''"] by (auto simp del: fold_simps)
  moreover have "view_load (ims_LoadState ''w1'' ?s) \<noteq> view_load (imw_LoadState ''w1'' ?w)" by code_simp
  then have "aged_out ?ops ''w1'' 60" using agree [of "''w1''"] by force
  ultimately show ?thesis unfolding Let_def by (rule conjI)
qed

text \<open>
  The cleanup forgets exactly the stale workflows. It removes the workflows that are in a terminal state and were last
  updated longer ago than the maximal age, one hour by default; it keeps every other one, in particular all that
  \<open>ListActiveWorkflows\<close> lists.
\<close>

theorem cleanup_removes_stale_only:
  assumes "gomap_ok (ims_states s)" "ims_maxAge s = ims_maxAge (NewInMemoryStateStore interval maxAge)" "i \<noteq> ''''"
  shows "(case ims_LoadState i s of
      Inr st \<Rightarrow> if terminal_status (wst_Status st) \<and> now - wst_LastUpdateTime st > (if maxAge \<le> 0 then 3600000000000 else maxAge)
        then \<exists>e. ims_LoadState i (ims_cleanup now s) = Inl e \<and> errors_Is e ErrWorkflowNotFound
        else ims_LoadState i (ims_cleanup now s) = Inr st
    | Inl e \<Rightarrow> ims_LoadState i (ims_cleanup now s) = Inl e) \<and>
    ims_ListActiveWorkflows (ims_cleanup now s) = ims_ListActiveWorkflows s"
proof -
  have "ims_ListActiveWorkflows (ims_cleanup now s) = ims_ListActiveWorkflows s"
    unfolding ims_ListActiveWorkflows_def ims_cleanup_def
    by (auto simp: terminal_status_def intro!: arg_cong [where f = "map fst"] filter_cong)
  moreover have "ims_maxAge s = (if maxAge \<le> 0 then 3600000000000 else maxAge)"
    using assms(2) by (simp add: NewInMemoryStateStore_def)
  ultimately show ?thesis using assms(1,3)
    by (auto simp: ims_LoadState_def ims_cleanup_def map_of_filter_ok workflow_not_found_def errors_Is_def split: option.splits)
qed

theorem cleanup_removes_stale_only_witness:
  "ims_LoadState ''w1'' (ims_cleanup 99999999999999 (snd (ims_SaveState 7 ''w1'' (Some running_status) (NewInMemoryStateStore 0 0)))) =
   Inr running_status"
proof -
  let ?s = "snd (ims_SaveState 7 ''w1'' (Some running_status) (NewInMemoryStateStore 0 0))"
  have "ims_LoadState ''w1'' ?s = Inr running_status" by (simp add: ims_defs NewInMemoryStateStore_def running_status_def)
  moreover have "gomap_ok (ims_states ?s)" "ims_maxAge ?s = ims_maxAge (NewInMemoryStateStore 0 0)"
    by (simp_all add: ims_defs NewInMemoryStateStore_def gomap_ok_def)
  ultimately show ?thesis using cleanup_removes_stale_only [of ?s 0 0 "''w1''" 99999999999999]
    by (simp add: terminal_status_def running_status_def)
qed

section \<open>Outputs of steps\<close>

definition templated :: "Content \<Rightarrow> bool" where
  "templated c \<longleftrightarrow> ct_Type c = ContentTypeText \<or> ct_Type c = ContentTypeImage \<or> ct_Type c = ContentTypeResource"

definition content_value :: "Content \<Rightarrow> string" where
  "content_value c = (case ct_Type c of ContentTypeImage \<Rightarrow> ct_Data c
     | ContentTypeResource \<Rightarrow> if ct_Text c = '''' then ct_Data c else ct_Text c | _ \<Rightarrow> ct_Text c)"

text \<open>The keys that the counters have handed out so far.\<close>

definition text_key :: "nat \<Rightarrow> string" where
  "text_key n = (if n > 0 then ''text_'' @ show_nat n else ''text'')"

definition resource_key :: "nat \<Rightarrow> string" where
  "resource_key n = (if n > 0 then ''resource_'' @ show_nat n else ''resource'')"

definition image_key :: "nat \<Rightarrow> string" where
  "image_key n = ''image_'' @ show_nat n"

definition content_keys_ok :: "content_state \<Rightarrow> bool" where
  "content_keys_ok st \<longleftrightarrow> gomap_ok (cs_result st) \<and>
     fst ` set (cs_result st) = text_key ` {..<cs_textIndex st} \<union> image_key ` {..<cs_imageIndex st} \<union>
       resource_key ` {..<cs_resourceIndex st}"

lemma content_key_inj [simp]:
  "text_key n = text_key m \<longleftrightarrow> n = m" "resource_key n = resource_key m \<longleftrightarrow> n = m" "image_key n = image_key m \<longleftrightarrow> n = m"
  "text_key n \<noteq> resource_key m" "text_key n \<noteq> image_key m" "resource_key n \<noteq> image_key m"
  "resource_key m \<noteq> text_key n" "image_key m \<noteq> text_key n" "image_key m \<noteq> resource_key n"
  using show_nat_inj [of n m] by (auto simp: text_key_def resource_key_def image_key_def)

lemma content_item_values:
  assumes "content_keys_ok st"
  shows "content_keys_ok (content_item c st) \<and>
    map snd (cs_result (content_item c st)) = map snd (cs_result st) @ (if templated c then [JString (content_value c)] else [])"
proof -
  have new: "map snd (AList.update k v (cs_result st)) = map snd (cs_result st) @ [v]"
    "fst ` set (AList.update k v (cs_result st)) = insert k (fst ` set (cs_result st))"
    if "k \<notin> fst ` set (cs_result st)" for k v using update_new [OF that] by simp_all
  have keys: "fst ` set (cs_result st) = text_key ` {..<cs_textIndex st} \<union> image_key ` {..<cs_imageIndex st} \<union>
       resource_key ` {..<cs_resourceIndex st}" "gomap_ok (cs_result st)" using assms by (simp_all add: content_keys_ok_def)
  have fresh: "text_key (cs_textIndex st) \<notin> fst ` set (cs_result st)" "resource_key (cs_resourceIndex st) \<notin> fst ` set (cs_result st)"
    "image_key (cs_imageIndex st) \<notin> fst ` set (cs_result st)" unfolding keys by auto
  note upd = new [OF fresh(1)] new [OF fresh(2)] new [OF fresh(3)]
  show ?thesis
    unfolding content_item_def text_key_def [symmetric] resource_key_def [symmetric] image_key_def [symmetric] Let_def
    by (cases "ct_Type c") (auto simp: content_keys_ok_def templated_def content_value_def upd keys lessThan_Suc)
qed

text \<open>
  Converting content to a map loses nothing it means to keep. Every text, image and embedded resource of a tool result
  gets a key of its own, so no item overwrites another; the values are those of the items, in their order, with the blob of a
  resource that has no text; audio, links and unknown types are left out.
\<close>

theorem content_map_lossless:
  "gomap_ok (ContentArrayToMap content) \<and>
   map snd (ContentArrayToMap content) = map (\<lambda>c. JString (content_value c)) (filter templated content)"
proof -
  have "content_keys_ok (fold content_item cs st) \<and> map snd (cs_result (fold content_item cs st)) =
      map snd (cs_result st) @ map (\<lambda>c. JString (content_value c)) (filter templated cs)" if "content_keys_ok st" for cs st
    using that
  proof (induction cs arbitrary: st)
    case (Cons c cs)
    note item = content_item_values [OF Cons.prems, of c]
    show ?case using Cons.IH [OF conjunct1 [OF item]] item by simp
  qed simp
  from this [of "\<lparr>cs_result = [], cs_textIndex = 0, cs_imageIndex = 0, cs_resourceIndex = 0\<rparr>" content]
  show ?thesis by (simp add: ContentArrayToMap_def content_keys_ok_def)
qed

text \<open>The latest completed step of a list of results.\<close>

lemma last_output_invariant:
  assumes "fold last_output rs (t0, o0) = (t, out)"
  shows "t0 \<le> t \<and> (\<forall>r \<in> set rs. sr_Status r = StepStatusCompleted \<longrightarrow> sr_EndTime r \<le> t) \<and>
    ((t, out) = (t0, o0) \<or> (\<exists>r \<in> set rs. sr_Status r = StepStatusCompleted \<and> sr_EndTime r = t \<and> sr_Output r = out))"
  using assms
proof (induction rs arbitrary: t0 o0)
  case (Cons r rs)
  obtain t1 o1 where step: "last_output r (t0, o0) = (t1, o1)" by fastforce
  have "fold last_output rs (t1, o1) = (t, out)" using Cons.prems step by simp
  from Cons.IH [OF this] step show ?case by (auto simp: last_output_def split: if_splits)
qed simp

text \<open>
  A workflow without an output configuration returns the output of the step that completed last. When the completion
  times of the completed steps differ, \<open>GetLastStepOutput\<close> is the output of the one with the greatest time, whatever
  order the map of the steps is traversed in.
\<close>

theorem last_step_output_latest:
  assumes "same_gomap (wc_Steps ctx) (wc_Steps ctx')" "map_of (wc_Steps ctx) i = Some r" "sr_Status r = StepStatusCompleted"
    and "zero_time < sr_EndTime r"
    and "\<And>j q. map_of (wc_Steps ctx) j = Some q \<Longrightarrow> sr_Status q = StepStatusCompleted \<Longrightarrow> j \<noteq> i \<Longrightarrow> sr_EndTime q < sr_EndTime r"
  shows "GetLastStepOutput ctx' = sr_Output r"
proof -
  let ?rs = "map snd (wc_Steps ctx')"
  obtain t out where fold: "fold last_output ?rs (zero_time, None) = (t, out)" by fastforce
  have maps: "gomap_ok (wc_Steps ctx')" "map_of (wc_Steps ctx') = map_of (wc_Steps ctx)"
    using assms(1) same_gomap_map_of by (auto simp: same_gomap_def)
  have r: "r \<in> set ?rs" using assms(2) maps(2) by (metis image_eqI list.set_map map_of_SomeD snd_conv)
  note inv = last_output_invariant [OF fold]
  have "sr_EndTime r \<le> t" using inv r assms(3) by blast
  then obtain q where q: "q \<in> set ?rs" "sr_Status q = StepStatusCompleted" "sr_EndTime q = t" "sr_Output q = out"
    using inv assms(4) by auto
  then obtain j where j: "map_of (wc_Steps ctx) j = Some q" using maps by (auto simp: gomap_ok_lookup)
  have "j = i" using assms(5) [OF j q(2)] \<open>sr_EndTime r \<le> t\<close> q(3) by fastforce
  then show ?thesis using j assms(2) q(4) fold by (simp add: GetLastStepOutput_def)
qed

definition example_context :: WorkflowContext where
  "example_context = RecordStepSuccess ''b'' (Some [(''v'', JString ''late'')]) None 9 (RecordStepStart ''b'' 5
     (RecordStepSuccess ''a'' (Some [(''v'', JString ''early'')]) None 4 (RecordStepStart ''a'' 3
       (fst (CreateContext ''w'' 1 None newWorkflowContextManager)))))"

theorem last_step_output_latest_witness:
  "GetLastStepOutput example_context = Some [(''v'', JString ''late'')]"
proof -
  let ?r = "(new_step_result ''b'' StepStatusRunning 5)\<lparr>sr_Status := StepStatusCompleted,
    sr_Output := Some [(''v'', JString ''late'')], sr_EndTime := 9, sr_Duration := 4\<rparr>"
  have "map_of (wc_Steps example_context) ''b'' = Some ?r"
    by (simp add: example_context_def RecordStepSuccess_def RecordStepStart_def change_result_def CreateContext_def
        newWorkflowContextManager_def new_step_result_def)
  then have "GetLastStepOutput example_context = sr_Output ?r"
    by (rule last_step_output_latest [rotated])
      (auto simp: example_context_def RecordStepSuccess_def RecordStepStart_def change_result_def CreateContext_def
        newWorkflowContextManager_def new_step_result_def Let_def zero_time_def same_gomap_def gomap_ok_def split: if_splits)
  then show ?thesis by simp
qed

end
