(* ===== verification/Workflow_Exec.thy ===== *)
theory Workflow_Exec
  imports Workflow_Levels
begin

text \<open>
  The execution of a plan (\<open>executeDAG\<close> and \<open>executeLevel\<close> of \<open>dag_executor.go\<close>): levels one after the
  other, and within a level one goroutine per step, in any interleaving, under the semaphore of the executor and
  the first-error rule of the error group.
\<close>

section \<open>The executor\<close>

definition defaultMaxParallelSteps :: int where
  "defaultMaxParallelSteps = 10"

definition failureModeContinue :: string where
  "failureModeContinue = ''continue''"

text \<open>The semaphore is a channel whose capacity is \<open>maxParallel\<close>; the tokens in it are part of the state below.\<close>

record dagExecutor =
  de_maxParallel :: int

definition newDAGExecutor :: "int \<Rightarrow> dagExecutor" where
  "newDAGExecutor maxParallel = \<lparr>de_maxParallel = (if maxParallel \<le> 0 then defaultMaxParallelSteps else maxParallel)\<rparr>"

definition shouldContinueOnError :: "WorkflowStep \<Rightarrow> string \<Rightarrow> bool" where
  "shouldContinueOnError step failureMode =
     (case ws_OnError step of Some h \<Rightarrow> eh_ContinueOnError h \<or> failureMode = failureModeContinue
      | None \<Rightarrow> failureMode = failureModeContinue)"

section \<open>One level\<close>

text \<open>
  A goroutine waits at its \<open>select\<close>, runs \<open>execFunc\<close> while it holds a token, and returns. \<open>lv_others\<close> counts
  the tokens held by other executions of the same executor. \<open>lv_parent\<close> and \<open>lv_done\<close> are the errors of the
  context of the caller and of the group, absent while they are live; \<open>lv_err\<close> is the error the group keeps, the first
  one that a goroutine returned. \<open>lv_shared\<close> is the data the steps work on and \<open>lv_trace\<close> records what happened.
\<close>

datatype level_event = Started WorkflowStep | Finished WorkflowStep "goerror option" | Refused WorkflowStep goerror

record 's level_state =
  lv_waiting :: "WorkflowStep list"
  lv_running :: "WorkflowStep list"
  lv_others :: nat
  lv_parent :: "goerror option"
  lv_done :: "goerror option"
  lv_err :: "goerror option"
  lv_continued :: "goerror list"
  lv_shared :: 's
  lv_trace :: "level_event list"

definition context_canceled :: goerror where
  "context_canceled = \<lparr>err_chain = [context_Canceled], err_text = ''context canceled''\<rparr>"

text \<open>The group remembers the first error returned to it and then cancels its context.\<close>

definition group_return :: "goerror \<Rightarrow> 's level_state \<Rightarrow> 's level_state" where
  "group_return e st = (case lv_err st of Some _ \<Rightarrow> st
     | None \<Rightarrow> st\<lparr>lv_err := Some e, lv_done := (case lv_done st of None \<Rightarrow> Some context_canceled | Some d \<Rightarrow> Some d)\<rparr>)"

definition enter_level :: "WorkflowStep list \<Rightarrow> 's level_state \<Rightarrow> 's level_state" where
  "enter_level level st = st\<lparr>lv_waiting := level, lv_running := [], lv_done := lv_parent st, lv_err := None, lv_continued := []\<rparr>"

definition acquire :: "WorkflowStep \<Rightarrow> 's level_state \<Rightarrow> 's level_state" where
  "acquire step st = st\<lparr>lv_waiting := remove1 step (lv_waiting st), lv_running := step # lv_running st,
     lv_trace := lv_trace st @ [Started step]\<rparr>"

definition refuse :: "WorkflowStep \<Rightarrow> goerror \<Rightarrow> 's level_state \<Rightarrow> 's level_state" where
  "refuse step e st = group_return e
     (st\<lparr>lv_waiting := remove1 step (lv_waiting st), lv_trace := lv_trace st @ [Refused step e]\<rparr>)"

definition finish :: "string \<Rightarrow> WorkflowStep \<Rightarrow> goerror option \<Rightarrow> 's \<Rightarrow> 's level_state \<Rightarrow> 's level_state" where
  "finish failureMode step err shared st =
     (let st' = st\<lparr>lv_running := remove1 step (lv_running st), lv_shared := shared, lv_trace := lv_trace st @ [Finished step err]\<rparr>
      in case err of None \<Rightarrow> st'
       | Some e \<Rightarrow> if shouldContinueOnError step failureMode then st'\<lparr>lv_continued := lv_continued st' @ [e]\<rparr>
           else group_return e st')"

definition tokens_left :: "dagExecutor \<Rightarrow> 's level_state \<Rightarrow> bool" where
  "tokens_left ex st \<longleftrightarrow> int (length (lv_running st) + lv_others st) < de_maxParallel ex"

text \<open>
  \<open>exec d step s (err, s')\<close> says that \<open>execFunc\<close> may return \<open>err\<close> and turn the shared data \<open>s\<close> into \<open>s'\<close> when
  the error of the group's context is \<open>d\<close>. A step's access to the shared data is one transition, at its end. When both
  branches of the \<open>select\<close> are ready either may be taken, so a step can still start after the cancellation.
\<close>

type_synonym 's exec_fun = "goerror option \<Rightarrow> WorkflowStep \<Rightarrow> 's \<Rightarrow> goerror option \<times> 's \<Rightarrow> bool"

inductive own_step :: "dagExecutor \<Rightarrow> 's exec_fun \<Rightarrow> string \<Rightarrow> 's level_state \<Rightarrow> 's level_state \<Rightarrow> bool"
  for ex :: dagExecutor and exec :: "'s exec_fun" and failureMode :: string where
  own_acquire: "step \<in> set (lv_waiting st) \<Longrightarrow> tokens_left ex st \<Longrightarrow> own_step ex exec failureMode st (acquire step st)"
| own_refuse: "step \<in> set (lv_waiting st) \<Longrightarrow> lv_done st = Some e \<Longrightarrow> own_step ex exec failureMode st (refuse step e st)"
| own_finish: "step \<in> set (lv_running st) \<Longrightarrow> exec (lv_done st) step (lv_shared st) (err, s) \<Longrightarrow>
    own_step ex exec failureMode st (finish failureMode step err s st)"

inductive env_step :: "dagExecutor \<Rightarrow> 's level_state \<Rightarrow> 's level_state \<Rightarrow> bool"
  for ex :: dagExecutor where
  env_acquire: "tokens_left ex st \<Longrightarrow> env_step ex st (st\<lparr>lv_others := lv_others st + 1\<rparr>)"
| env_release: "0 < lv_others st \<Longrightarrow> env_step ex st (st\<lparr>lv_others := lv_others st - 1\<rparr>)"
| env_cancel: "lv_parent st = None \<Longrightarrow>
    env_step ex st (st\<lparr>lv_parent := Some e, lv_done := (case lv_done st of None \<Rightarrow> Some e | Some d \<Rightarrow> Some d)\<rparr>)"

inductive executeLevel :: "dagExecutor \<Rightarrow> 's exec_fun \<Rightarrow> string \<Rightarrow> 's level_state \<Rightarrow> 's level_state \<Rightarrow> bool"
  for ex :: dagExecutor and exec :: "'s exec_fun" and failureMode :: string where
  level_refl: "executeLevel ex exec failureMode st st"
| level_own: "executeLevel ex exec failureMode st st' \<Longrightarrow> own_step ex exec failureMode st' st'' \<Longrightarrow>
    executeLevel ex exec failureMode st st''"
| level_env: "executeLevel ex exec failureMode st st' \<Longrightarrow> env_step ex st' st'' \<Longrightarrow>
    executeLevel ex exec failureMode st st''"

text \<open>\<open>g.Wait()\<close> returns once every goroutine has.\<close>

definition level_over :: "'s level_state \<Rightarrow> bool" where
  "level_over st \<longleftrightarrow> lv_waiting st = [] \<and> lv_running st = []"

definition level_result :: "'s level_state \<Rightarrow> goerror option" where
  "level_result st = map_option (wrap_error ''level execution failed: '') (lv_err st)"

section \<open>All levels\<close>

inductive run_levels :: "dagExecutor \<Rightarrow> 's exec_fun \<Rightarrow> string \<Rightarrow> WorkflowStep list list \<Rightarrow> 's level_state \<Rightarrow>
    's level_state \<Rightarrow> goerror option \<Rightarrow> bool"
  for ex :: dagExecutor and exec :: "'s exec_fun" and failureMode :: string where
  levels_end: "run_levels ex exec failureMode [] st st None"
| levels_next: "executeLevel ex exec failureMode (enter_level level st) st1 \<Longrightarrow> level_over st1 \<Longrightarrow> level_result st1 = None \<Longrightarrow>
    run_levels ex exec failureMode levels st1 st2 r \<Longrightarrow> run_levels ex exec failureMode (level # levels) st st2 r"
| levels_fail: "executeLevel ex exec failureMode (enter_level level st) st1 \<Longrightarrow> level_over st1 \<Longrightarrow> level_result st1 = Some e \<Longrightarrow>
    run_levels ex exec failureMode (level # levels) st st1 (Some e)"

inductive executeDAG :: "dagExecutor \<Rightarrow> 's exec_fun \<Rightarrow> string \<Rightarrow> WorkflowStep list \<Rightarrow> 's level_state \<Rightarrow>
    's level_state \<Rightarrow> goerror option \<Rightarrow> bool"
  for ex :: dagExecutor and exec :: "'s exec_fun" and failureMode :: string where
  dag_empty: "executeDAG ex exec failureMode [] st st None"
| dag_no_plan: "steps \<noteq> [] \<Longrightarrow> buildExecutionLevels steps = Inl e \<Longrightarrow>
    executeDAG ex exec failureMode steps st st (Some (wrap_error ''failed to build execution levels: '' e))"
| dag_run: "steps \<noteq> [] \<Longrightarrow> buildExecutionLevels steps = Inr levels \<Longrightarrow> run_levels ex exec failureMode levels st st' r \<Longrightarrow>
    executeDAG ex exec failureMode steps st st' r"

inductive_cases executeDAG_elim: "executeDAG ex exec failureMode steps st st' r"
inductive_cases run_levels_elim: "run_levels ex exec failureMode levels st st' r"
inductive_cases own_step_elim: "own_step ex exec failureMode st st'"
inductive_cases env_step_elim: "env_step ex st st'"

section \<open>What a trace says\<close>

definition started :: "level_event list \<Rightarrow> WorkflowStep list" where
  "started tr = concat (map (\<lambda>e. case e of Started s \<Rightarrow> [s] | _ \<Rightarrow> []) tr)"

definition finished :: "level_event list \<Rightarrow> WorkflowStep list" where
  "finished tr = concat (map (\<lambda>e. case e of Finished s _ \<Rightarrow> [s] | _ \<Rightarrow> []) tr)"

definition refused :: "level_event list \<Rightarrow> WorkflowStep list" where
  "refused tr = concat (map (\<lambda>e. case e of Refused s _ \<Rightarrow> [s] | _ \<Rightarrow> []) tr)"

text \<open>The error an event returns to the group, and the first one of a trace.\<close>

fun event_error :: "string \<Rightarrow> level_event \<Rightarrow> goerror option" where
  "event_error failureMode (Started s) = None"
| "event_error failureMode (Finished s err) = (if shouldContinueOnError s failureMode then None else err)"
| "event_error failureMode (Refused s e) = Some e"

fun group_error :: "string \<Rightarrow> level_event list \<Rightarrow> goerror option" where
  "group_error failureMode [] = None"
| "group_error failureMode (e # tr) = (case event_error failureMode e of Some x \<Rightarrow> Some x | None \<Rightarrow> group_error failureMode tr)"

lemma trace_simps [simp]:
  "started [] = []" "finished [] = []" "refused [] = []"
  "started (tr @ tr') = started tr @ started tr'" "finished (tr @ tr') = finished tr @ finished tr'"
  "refused (tr @ tr') = refused tr @ refused tr'"
  "started (e # tr) = (case e of Started s \<Rightarrow> [s] | _ \<Rightarrow> []) @ started tr"
  "finished (e # tr) = (case e of Finished s _ \<Rightarrow> [s] | _ \<Rightarrow> []) @ finished tr"
  "refused (e # tr) = (case e of Refused s _ \<Rightarrow> [s] | _ \<Rightarrow> []) @ refused tr"
  by (simp_all add: started_def finished_def refused_def)

lemma group_error_append:
  "group_error m (tr @ tr') = (case group_error m tr of Some e \<Rightarrow> Some e | None \<Rightarrow> group_error m tr')"
  by (induction tr) (auto split: option.splits)

lemma group_error_None: "group_error m tr = None \<longleftrightarrow> (\<forall>e \<in> set tr. event_error m e = None)"
  by (induction tr) (auto split: option.splits)

lemma group_ok_none_refused: "group_error m tr = None \<Longrightarrow> refused tr = []"
  by (induction tr) (auto split: level_event.splits option.splits)

lemma in_finished: "s \<in> set (finished tr) \<longleftrightarrow> (\<exists>r. Finished s r \<in> set tr)"
  by (induction tr) (auto split: level_event.splits)

lemma in_started: "s \<in> set (started tr) \<longleftrightarrow> Started s \<in> set tr"
  by (induction tr) (auto split: level_event.splits)

text \<open>At no point of the trace are more steps in flight than there are tokens.\<close>

definition never_overdrawn :: "dagExecutor \<Rightarrow> level_event list \<Rightarrow> bool" where
  "never_overdrawn ex tr \<longleftrightarrow> (\<forall>p q. tr = p @ q \<longrightarrow> int (length (started p)) \<le> int (length (finished p)) + de_maxParallel ex)"

lemma never_overdrawn_snoc:
  "never_overdrawn ex (tr @ [e]) \<longleftrightarrow> never_overdrawn ex tr \<and>
     int (length (started (tr @ [e]))) \<le> int (length (finished (tr @ [e]))) + de_maxParallel ex"
proof -
  have "tr @ [e] = p @ q \<longleftrightarrow> (\<exists>q'. tr = p @ q' \<and> q = q' @ [e]) \<or> (p = tr @ [e] \<and> q = [])" for p q
    by (cases q rule: rev_cases) auto
  then show ?thesis unfolding never_overdrawn_def by blast
qed

text \<open>
  The invariant of a level: every step is waiting, running or over; the running steps are those started and not
  finished; the group holds the first error; and the tokens were never overdrawn.
\<close>

definition level_inv :: "dagExecutor \<Rightarrow> string \<Rightarrow> WorkflowStep list \<Rightarrow> level_event list \<Rightarrow> 's level_state \<Rightarrow> level_event list \<Rightarrow> bool" where
  "level_inv ex failureMode level before st tr \<longleftrightarrow> lv_trace st = before @ tr \<and>
     mset (lv_waiting st) + mset (started tr) + mset (refused tr) = mset level \<and>
     mset (started tr) = mset (lv_running st) + mset (finished tr) \<and>
     lv_err st = group_error failureMode tr \<and>
     int (length (lv_running st) + lv_others st) \<le> de_maxParallel ex \<and> never_overdrawn ex tr"

lemma level_inv_length: "level_inv ex m level before st tr \<Longrightarrow>
  length (started tr) = length (lv_running st) + length (finished tr)"
  unfolding level_inv_def by (metis size_mset size_union)

lemma group_return_simps [simp]:
  "lv_waiting (group_return e st) = lv_waiting st" "lv_running (group_return e st) = lv_running st"
  "lv_others (group_return e st) = lv_others st" "lv_trace (group_return e st) = lv_trace st"
  "lv_parent (group_return e st) = lv_parent st" "lv_shared (group_return e st) = lv_shared st"
  "lv_err (group_return e st) = (case lv_err st of Some x \<Rightarrow> Some x | None \<Rightarrow> Some e)"
  by (simp_all add: group_return_def split: option.splits)

lemma remove1_split: "x \<in> set xs \<Longrightarrow> \<exists>ys zs. xs = ys @ x # zs \<and> remove1 x xs = ys @ zs"
  by (metis remove1_append remove1.simps(2) split_list_first)

lemma level_inv_acquire:
  assumes inv: "level_inv ex m level before st tr" and step: "step \<in> set (lv_waiting st)" and tok: "tokens_left ex st"
  shows "level_inv ex m level before (acquire step st) (tr @ [Started step])"
proof -
  obtain ys zs where w: "lv_waiting st = ys @ step # zs" "remove1 step (lv_waiting st) = ys @ zs"
    using remove1_split [OF step] by blast
  show ?thesis using inv tok w(1) level_inv_length [OF inv] unfolding level_inv_def acquire_def w(2)
    by (auto simp: tokens_left_def group_error_append never_overdrawn_snoc split: option.splits)
qed

lemma level_inv_refuse:
  assumes inv: "level_inv ex m level before st tr" and step: "step \<in> set (lv_waiting st)"
  shows "level_inv ex m level before (refuse step e st) (tr @ [Refused step e])"
proof -
  obtain ys zs where w: "lv_waiting st = ys @ step # zs" "remove1 step (lv_waiting st) = ys @ zs"
    using remove1_split [OF step] by blast
  show ?thesis using inv w(1) level_inv_length [OF inv] unfolding level_inv_def refuse_def w(2)
    by (auto simp: group_error_append never_overdrawn_snoc split: option.splits)
qed

lemma level_inv_finish:
  assumes inv: "level_inv ex m level before st tr" and step: "step \<in> set (lv_running st)"
  shows "level_inv ex m level before (finish m step err s st) (tr @ [Finished step err])"
proof -
  obtain ys zs where r: "lv_running st = ys @ step # zs" "remove1 step (lv_running st) = ys @ zs"
    using remove1_split [OF step] by blast
  show ?thesis using inv r(1) level_inv_length [OF inv] unfolding level_inv_def finish_def r(2) Let_def
    by (auto simp: group_error_append never_overdrawn_snoc split: option.splits)
qed

lemma own_step_inv:
  assumes "own_step ex exec m st st'" "level_inv ex m level before st tr"
  shows "\<exists>tr'. level_inv ex m level before st' tr'"
  using assms by cases (blast intro: level_inv_acquire level_inv_refuse level_inv_finish)+

lemma env_step_inv: "env_step ex st st' \<Longrightarrow> level_inv ex m level before st tr \<Longrightarrow> level_inv ex m level before st' tr"
  by (cases rule: env_step.cases) (auto simp: level_inv_def tokens_left_def)

lemma executeLevel_inv:
  assumes "executeLevel ex exec m (enter_level level st) st'" "int (lv_others st) \<le> de_maxParallel ex"
  shows "\<exists>tr. level_inv ex m level (lv_trace st) st' tr"
  using assms(1)
proof (induction "enter_level level st" st' rule: executeLevel.induct)
  case level_refl
  have "level_inv ex m level (lv_trace st) (enter_level level st) []"
    using assms(2) by (simp add: level_inv_def enter_level_def never_overdrawn_def)
  then show ?case by blast
next
  case (level_own st' st'')
  then show ?case using own_step_inv by blast
next
  case (level_env st' st'')
  then show ?case using env_step_inv by blast
qed

text \<open>The trace of a level that is over: everything was started and finished, or refused.\<close>

definition level_trace :: "dagExecutor \<Rightarrow> string \<Rightarrow> WorkflowStep list \<Rightarrow> level_event list \<Rightarrow> bool" where
  "level_trace ex failureMode level tr \<longleftrightarrow> mset (started tr) + mset (refused tr) = mset level \<and>
     mset (started tr) = mset (finished tr) \<and> never_overdrawn ex tr"

lemma level_over_trace:
  assumes "executeLevel ex exec m (enter_level level st) st'" "int (lv_others st) \<le> de_maxParallel ex" "level_over st'"
  obtains tr where "lv_trace st' = lv_trace st @ tr" "level_trace ex m level tr" "lv_err st' = group_error m tr"
    "int (lv_others st') \<le> de_maxParallel ex"
proof -
  obtain tr where "level_inv ex m level (lv_trace st) st' tr" using executeLevel_inv [OF assms(1,2)] by blast
  then show ?thesis using that assms(3) by (auto simp: level_inv_def level_trace_def level_over_def)
qed

lemma level_trace_finished:
  assumes "level_trace ex m level tr" "group_error m tr = None" "t \<in> set level"
  shows "\<exists>r. Finished t r \<in> set tr \<and> (r = None \<or> shouldContinueOnError t m)"
proof -
  have none: "\<forall>e \<in> set tr. event_error m e = None" using assms(2) by (simp add: group_error_None)
  have "refused tr = []" using assms(2) by (rule group_ok_none_refused)
  then have "set level = set (finished tr)" using assms(1) by (metis add_0_right level_trace_def mset.simps(1) mset_eq_setD)
  then obtain r where "Finished t r \<in> set tr" using assms(3) by (auto simp: in_finished)
  moreover from this have "event_error m (Finished t r) = None" using none by blast
  ultimately show ?thesis by (auto split: if_splits)
qed

lemma run_levels_trace:
  "run_levels ex exec m levels st st' r \<Longrightarrow> int (lv_others st) \<le> de_maxParallel ex \<Longrightarrow>
   \<exists>trs. lv_trace st' = lv_trace st @ concat trs \<and> length trs \<le> length levels \<and>
     (\<forall>k < length trs. level_trace ex m (levels ! k) (trs ! k)) \<and>
     (\<forall>tr \<in> set (butlast trs). group_error m tr = None) \<and>
     (if r = None then length trs = length levels \<and> (\<forall>tr \<in> set trs. group_error m tr = None)
      else trs \<noteq> [] \<and> r = map_option (wrap_error ''level execution failed: '') (group_error m (last trs)))"
proof (induction rule: run_levels.induct)
  case (levels_end st)
  then show ?case by simp
next
  case (levels_next level st st1 levels st2 r)
  obtain tr where tr: "lv_trace st1 = lv_trace st @ tr" "level_trace ex m level tr" "lv_err st1 = group_error m tr"
      "int (lv_others st1) \<le> de_maxParallel ex"
    by (rule level_over_trace [OF levels_next.hyps(1) levels_next.prems levels_next.hyps(2)])
  have ok: "group_error m tr = None" using levels_next.hyps(3) tr(3) by (simp add: level_result_def)
  obtain trs where "lv_trace st2 = lv_trace st1 @ concat trs" "length trs \<le> length levels"
     "\<forall>k < length trs. level_trace ex m (levels ! k) (trs ! k)" "\<forall>tr \<in> set (butlast trs). group_error m tr = None"
     "if r = None then length trs = length levels \<and> (\<forall>tr \<in> set trs. group_error m tr = None)
      else trs \<noteq> [] \<and> r = map_option (wrap_error ''level execution failed: '') (group_error m (last trs))"
    using levels_next.IH [OF tr(4)] by blast
  then show ?case using tr(1,2) ok
    by (intro exI [of _ "tr # trs"]) (auto simp: nth_Cons split: if_splits nat.splits)
next
  case (levels_fail level st st1 e levels)
  obtain tr where tr: "lv_trace st1 = lv_trace st @ tr" "level_trace ex m level tr" "lv_err st1 = group_error m tr"
    by (rule level_over_trace [OF levels_fail.hyps(1) levels_fail.prems levels_fail.hyps(2)])
  then show ?case using levels_fail.hyps(3) by (intro exI [of _ "[tr]"]) (auto simp: level_result_def)
qed

lemma concat_split:
  "concat xss = pre @ x # post \<Longrightarrow> \<exists>k ys. k < length xss \<and> pre = concat (take k xss) @ ys \<and> x \<in> set (xss ! k)"
proof (induction xss arbitrary: pre)
  case (Cons xs xss)
  then have eq: "xs @ concat xss = pre @ x # post" by simp
  then consider (here) us where "xs = pre @ us" "us @ concat xss = x # post"
    | (later) us where "pre = xs @ us" "concat xss = us @ x # post" by (auto simp: append_eq_append_conv2)
  then show ?case
  proof cases
    case later
    then obtain k ys where "k < length xss" "us = concat (take k xss) @ ys" "x \<in> set (xss ! k)" using Cons.IH by blast
    then show ?thesis using later(1) by (intro exI [of _ "Suc k"]) auto
  next
    case here
    show ?thesis
    proof (cases us)
      case Nil
      then obtain k ys where "k < length xss" "[] = concat (take k xss) @ ys" "x \<in> set (xss ! k)"
        using here(2) Cons.IH [of "[]"] by auto
      then show ?thesis using here(1) Nil by (intro exI [of _ "Suc k"]) auto
    next
      case (Cons u us')
      then show ?thesis using here by (intro exI [of _ 0]) auto
    qed
  qed
qed simp

section \<open>What an execution guarantees\<close>

lemma concat_group_error:
  "\<forall>tr \<in> set (butlast trs). group_error m tr = None \<Longrightarrow> trs \<noteq> [] \<Longrightarrow> group_error m (concat trs) = group_error m (last trs)"
  by (induction trs) (auto simp: group_error_append split: option.splits)

lemma executeDAG_traces:
  assumes run: "executeDAG ex exec m steps st st' r" and st: "lv_trace st = []" "int (lv_others st) \<le> de_maxParallel ex"
    and plan: "buildExecutionLevels steps = Inr levels"
  obtains trs where "lv_trace st' = concat trs" "length trs \<le> length levels"
    "\<forall>k < length trs. level_trace ex m (levels ! k) (trs ! k)"
    "\<forall>tr \<in> set (butlast trs). group_error m tr = None" "r = None \<longrightarrow> length trs = length levels"
    "r = map_option (wrap_error ''level execution failed: '') (group_error m (lv_trace st'))"
  using run
proof cases
  case dag_empty
  then have "levels = []"
    using plan plan_level_count [of "[]" levels] by simp
  then show ?thesis using that [of "[]"] dag_empty st by simp
next
  case (dag_no_plan e)
  then show ?thesis using plan by simp
next
  case (dag_run levels')
  then have "run_levels ex exec m levels st st' r" using plan by simp
  from run_levels_trace [OF this st(2)]
  obtain trs where trs: "lv_trace st' = concat trs" "length trs \<le> length levels"
     "\<forall>k < length trs. level_trace ex m (levels ! k) (trs ! k)" "\<forall>tr \<in> set (butlast trs). group_error m tr = None"
     "if r = None then length trs = length levels \<and> (\<forall>tr \<in> set trs. group_error m tr = None)
      else trs \<noteq> [] \<and> r = map_option (wrap_error ''level execution failed: '') (group_error m (last trs))"
    unfolding st(1) append_Nil by blast
  have "r = map_option (wrap_error ''level execution failed: '') (group_error m (concat trs))"
  proof (cases "r = None")
    case True
    then show ?thesis using trs(5) by (simp add: group_error_None)
  next
    case False
    then show ?thesis using trs(4,5) concat_group_error [of trs m] by simp
  qed
  then show ?thesis using that [of trs] trs by (auto split: if_splits)
qed

text \<open>A run of two steps, the second depending on the first, with one token.\<close>

definition example_steps :: "WorkflowStep list" where
  "example_steps = [tool_step ''b'' ''t'' [''a''], tool_step ''a'' ''t'' []]"

definition idle_state :: "unit level_state" where
  "idle_state = \<lparr>lv_waiting = [], lv_running = [], lv_others = 0, lv_parent = None, lv_done = None, lv_err = None,
     lv_continued = [], lv_shared = (), lv_trace = []\<rparr>"

lemma example_plan: "buildExecutionLevels example_steps = Inr [[tool_step ''a'' ''t'' []], [tool_step ''b'' ''t'' [''a'']]]"
  by (simp add: example_steps_def buildExecutionLevels_def build_graph_def init_graph_def add_dependency_def tool_step_def
      build_levels.simps ready_def release_def decrement_def degree_def dependents_of_def level_steps_def stepMap_def)

lemma example_run:
  obtains st where "executeDAG (newDAGExecutor 1) (\<lambda>d s u p. p = (None, u)) ''abort'' example_steps idle_state st None"
    "lv_trace st = [Started (tool_step ''a'' ''t'' []), Finished (tool_step ''a'' ''t'' []) None,
       Started (tool_step ''b'' ''t'' [''a'']), Finished (tool_step ''b'' ''t'' [''a'']) None]"
proof -
  let ?ex = "newDAGExecutor 1" and ?exec = "\<lambda>d s u p. p = (None, u)"
  have level: "executeLevel ?ex ?exec ''abort'' (enter_level [s] st) (finish ''abort'' s None () (acquire s (enter_level [s] st)))"
    if "lv_others st = 0" for s and st :: "unit level_state"
    by (rule level_own [OF level_own [OF level_refl own_acquire] own_finish])
      (use that in \<open>simp_all add: enter_level_def acquire_def tokens_left_def newDAGExecutor_def\<close>)
  define st1 where "st1 = finish ''abort'' (tool_step ''a'' ''t'' []) None ()
    (acquire (tool_step ''a'' ''t'' []) (enter_level [tool_step ''a'' ''t'' []] idle_state))"
  define st2 where "st2 = finish ''abort'' (tool_step ''b'' ''t'' [''a'']) None ()
    (acquire (tool_step ''b'' ''t'' [''a'']) (enter_level [tool_step ''b'' ''t'' [''a'']] st1))"
  note defs = st1_def st2_def finish_def acquire_def enter_level_def idle_state_def
  have "run_levels ?ex ?exec ''abort'' [[tool_step ''a'' ''t'' []], [tool_step ''b'' ''t'' [''a'']]] idle_state st2 None"
  proof (rule levels_next [where ?st1.0 = st1, OF _ _ _ levels_next [where ?st1.0 = st2, OF _ _ _ levels_end]])
    show "executeLevel ?ex ?exec ''abort'' (enter_level [tool_step ''a'' ''t'' []] idle_state) st1"
      unfolding st1_def by (rule level) (simp add: idle_state_def)
    show "executeLevel ?ex ?exec ''abort'' (enter_level [tool_step ''b'' ''t'' [''a'']] st1) st2"
      unfolding st2_def by (rule level) (simp add: defs)
  qed (simp_all add: level_over_def level_result_def defs)
  then have "executeDAG ?ex ?exec ''abort'' example_steps idle_state st2 None"
    by (intro dag_run [OF _ example_plan]) (simp_all add: example_steps_def)
  then show ?thesis by (rule that) (simp add: defs)
qed

text \<open>
  Claim C3: dependencies come first, in every interleaving. Whatever order the scheduler picks, however often other
  workflows take tokens and whenever the context is cancelled, a step starts only after each of its dependencies has
  finished, without an error or with one that the step or the failure mode lets the workflow continue after.
\<close>

theorem dependencies_finish_first:
  assumes "distinct (map ws_ID steps)" "executeDAG ex exec failureMode steps st st' r"
    and "lv_trace st = []" "int (lv_others st) \<le> de_maxParallel ex"
    and "lv_trace st' = pre @ Started s # post" "d \<in> set (ws_DependsOn s)"
  shows "\<exists>t err. t \<in> set steps \<and> ws_ID t = d \<and> Finished t err \<in> set pre \<and> (err = None \<or> shouldContinueOnError t failureMode)"
proof (cases "buildExecutionLevels steps")
  case (Inl e)
  have "lv_trace st' = []" using assms(2) by cases (use Inl assms(3) in auto)
  then show ?thesis using assms(5) by simp
next
  case (Inr levels)
  note layers = plan_layers [OF assms(1) Inr]
  obtain trs where trs: "lv_trace st' = concat trs" "length trs \<le> length levels"
    "\<forall>k < length trs. level_trace ex failureMode (levels ! k) (trs ! k)"
    "\<forall>tr \<in> set (butlast trs). group_error failureMode tr = None"
    by (rule executeDAG_traces [OF assms(2-4) Inr])
  obtain k ys where k: "k < length trs" "pre = concat (take k trs) @ ys" "Started s \<in> set (trs ! k)"
    using concat_split [of trs pre "Started s" post] trs(1) assms(5) by auto
  then have "s \<in># mset (started (trs ! k))" by (simp add: in_started)
  then have "s \<in># mset (levels ! k)" using trs(3) k(1) by (metis level_trace_def union_iff)
  then have "s \<in> set (levels ! k)" "k < length levels" using k(1) trs(2) by simp_all
  then have "\<exists>j < k. d \<in> step_ids (levels ! j)" using layers assms(6) by blast
  then obtain j t where j: "j < k" "t \<in> set (levels ! j)" "ws_ID t = d" by blast
  have "trs ! j = butlast trs ! j" "j < length (butlast trs)" using j(1) k(1) by (simp_all add: nth_butlast)
  then have "group_error failureMode (trs ! j) = None" using trs(4) by simp
  then obtain err where err: "Finished t err \<in> set (trs ! j)" "err = None \<or> shouldContinueOnError t failureMode"
    using level_trace_finished [OF trs(3) [rule_format, of j]] j k(1) by auto
  have "trs ! j \<in> set (take k trs)" using j(1) k(1) by (auto simp: in_set_conv_nth)
  then have "Finished t err \<in> set pre" using err(1) k(2) by auto
  moreover have "t \<in> set (concat levels)" using j k(1) trs(2) unfolding in_concat_nth by (meson less_trans order_less_le_trans)
  then have "t \<in> set steps" using layers by (metis mset_eq_setD)
  ultimately show ?thesis using j(3) err(2) by blast
qed

theorem dependencies_finish_first_witness:
  "\<exists>st :: unit level_state. executeDAG (newDAGExecutor 1) (\<lambda>d s u p. p = (None, u)) ''abort'' example_steps idle_state st None \<and>
     (\<exists>pre post t err. lv_trace st = pre @ Started (tool_step ''b'' ''t'' [''a'']) # post \<and> ws_ID t = ''a'' \<and> Finished t err \<in> set pre)"
proof -
  obtain st where st: "executeDAG (newDAGExecutor 1) (\<lambda>d s u p. p = (None, u)) ''abort'' example_steps idle_state st None"
    "lv_trace st = [Started (tool_step ''a'' ''t'' []), Finished (tool_step ''a'' ''t'' []) None] @
       Started (tool_step ''b'' ''t'' [''a'']) # [Finished (tool_step ''b'' ''t'' [''a'']) None]"
    by (rule example_run) simp
  have "distinct (map ws_ID example_steps)" by (simp add: example_steps_def tool_step_def)
  moreover have "lv_trace idle_state = []" "int (lv_others idle_state) \<le> de_maxParallel (newDAGExecutor 1)"
    "''a'' \<in> set (ws_DependsOn (tool_step ''b'' ''t'' [''a'']))"
    by (simp_all add: idle_state_def newDAGExecutor_def tool_step_def)
  ultimately show ?thesis using dependencies_finish_first [OF _ st(1) _ _ st(2)] st by metis
qed

lemma level_traces_cover:
  "list_all2 (level_trace ex m) ls trs \<Longrightarrow>
   mset (started (concat trs)) + mset (refused (concat trs)) = mset (concat ls) \<and> mset (finished (concat trs)) = mset (started (concat trs))"
  by (induction rule: list_all2_induct) (auto simp: level_trace_def simp flip: union_assoc, simp add: ac_simps)

lemma executeDAG_complete:
  assumes "distinct (map ws_ID steps)" "executeDAG ex exec failureMode steps st st' r" "buildExecutionLevels steps = Inr levels"
    and "lv_trace st = []" "int (lv_others st) \<le> de_maxParallel ex"
  shows "r = map_option (wrap_error ''level execution failed: '') (group_error failureMode (lv_trace st')) \<and>
    (r = None \<longrightarrow> mset (finished (lv_trace st')) = mset steps \<and> mset (started (lv_trace st')) = mset steps \<and> refused (lv_trace st') = []) \<and>
    (r \<noteq> None \<longrightarrow> (\<exists>k pre post. k < length levels \<and> lv_trace st' = pre @ post \<and>
       group_error failureMode pre = None \<and> mset (finished pre) = mset (concat (take k levels)) \<and>
       mset (started pre) = mset (finished pre) \<and> refused pre = [] \<and>
       group_error failureMode post \<noteq> None \<and> mset (started post) + mset (refused post) = mset (levels ! k) \<and>
       mset (finished post) = mset (started post)))"
proof -
  note layers = plan_layers [OF assms(1,3)]
  obtain trs where trs: "lv_trace st' = concat trs" "length trs \<le> length levels"
    "\<forall>k < length trs. level_trace ex failureMode (levels ! k) (trs ! k)"
    "\<forall>tr \<in> set (butlast trs). group_error failureMode tr = None" "r = None \<longrightarrow> length trs = length levels"
    "r = map_option (wrap_error ''level execution failed: '') (group_error failureMode (lv_trace st'))"
    by (rule executeDAG_traces [OF assms(2,4,5,3)])
  have ok: "mset (finished (concat trs)) = mset steps \<and> mset (started (concat trs)) = mset steps \<and> refused (concat trs) = []" if "r = None"
  proof -
    have "list_all2 (level_trace ex failureMode) levels trs" using trs(3,5) that by (simp add: list_all2_conv_all_nth)
    from level_traces_cover [OF this] group_ok_none_refused [of failureMode "concat trs"] show ?thesis
      using that trs(1,6) layers [THEN conjunct1] by simp
  qed
  have failed: "\<exists>k pre post. k < length levels \<and> concat trs = pre @ post \<and>
       group_error failureMode pre = None \<and> mset (finished pre) = mset (concat (take k levels)) \<and>
       mset (started pre) = mset (finished pre) \<and> refused pre = [] \<and>
       group_error failureMode post \<noteq> None \<and> mset (started post) + mset (refused post) = mset (levels ! k) \<and>
       mset (finished post) = mset (started post)" if "r \<noteq> None"
  proof (intro exI conjI)
    let ?k = "length trs - 1"
    have ne: "trs \<noteq> []" using that trs(1,6) by auto
    show k: "?k < length levels" using ne trs(2) by (cases trs) auto
    show "concat trs = concat (butlast trs) @ last trs" using arg_cong [OF append_butlast_last_id [OF ne], of concat] by simp
    show pre: "group_error failureMode (concat (butlast trs)) = None" using trs(4) by (auto simp: group_error_None)
    then show refused: "refused (concat (butlast trs)) = []" by (rule group_ok_none_refused)
    have "list_all2 (level_trace ex failureMode) (take ?k levels) (butlast trs)"
      using trs(2,3) by (auto simp: list_all2_conv_all_nth nth_butlast)
    from level_traces_cover [OF this] show "mset (finished (concat (butlast trs))) = mset (concat (take ?k levels))"
      "mset (started (concat (butlast trs))) = mset (finished (concat (butlast trs)))" using refused by simp_all
    show "group_error failureMode (last trs) \<noteq> None" using concat_group_error [OF trs(4) ne] that trs(1,6) by auto
    have "level_trace ex failureMode (levels ! ?k) (last trs)" using trs(3) ne by (simp add: last_conv_nth)
    then have level: "mset (started (last trs)) + mset (refused (last trs)) = mset (levels ! ?k)"
      "mset (started (last trs)) = mset (finished (last trs))"
      unfolding level_trace_def by blast+
    show "mset (started (last trs)) + mset (refused (last trs)) = mset (levels ! ?k)" by (rule level(1))
    show "mset (finished (last trs)) = mset (started (last trs))" by (rule level(2) [symmetric])
  qed
  show ?thesis using trs(1,6) ok failed by simp
qed

text \<open>
  Claim C15: the result of \<open>executeDAG\<close> is decided by the first error. For a plannable workflow it returns nil exactly when no
  goroutine returned an error to its group, and then every step was run to its end exactly once; otherwise it returns the
  first such error of the whole run, wrapped, and the run ends with the level that had it: every step of the levels before was
  run to its end without an error for the group, each step of that level was run to its end or refused, and no step of a later
  level was started or refused.
\<close>

theorem executeDAG_first_error:
  assumes "distinct (map ws_ID steps)" "executeDAG ex exec failureMode steps st st' r" "buildExecutionLevels steps = Inr levels"
    and "lv_trace st = []" "int (lv_others st) \<le> de_maxParallel ex"
  shows "r = map_option (wrap_error ''level execution failed: '') (group_error failureMode (lv_trace st')) \<and>
    (r = None \<longrightarrow> mset (finished (lv_trace st')) = mset steps \<and> mset (started (lv_trace st')) = mset steps \<and> refused (lv_trace st') = []) \<and>
    (r \<noteq> None \<longrightarrow> (\<exists>k pre post. k < length levels \<and> lv_trace st' = pre @ post \<and>
       group_error failureMode pre = None \<and> mset (finished pre) = mset (concat (take k levels)) \<and>
       mset (started pre) = mset (finished pre) \<and> refused pre = [] \<and>
       group_error failureMode post \<noteq> None \<and> mset (started post) + mset (refused post) = mset (levels ! k) \<and>
       mset (finished post) = mset (started post)))"
  by (rule executeDAG_complete [OF assms])

theorem executeDAG_first_error_witness:
  "\<exists>st :: unit level_state. executeDAG (newDAGExecutor 1) (\<lambda>d s u p. p = (None, u)) ''abort'' example_steps idle_state st None \<and>
     mset (finished (lv_trace st)) = mset example_steps"
proof -
  obtain st where st: "executeDAG (newDAGExecutor 1) (\<lambda>d s u p. p = (None, u)) ''abort'' example_steps idle_state st None"
    by (rule example_run)
  have "distinct (map ws_ID example_steps)" by (simp add: example_steps_def tool_step_def)
  moreover have "lv_trace idle_state = []" "int (lv_others idle_state) \<le> de_maxParallel (newDAGExecutor 1)"
    by (simp_all add: idle_state_def newDAGExecutor_def)
  ultimately show ?thesis using executeDAG_first_error [OF _ st example_plan] st by blast
qed

lemma never_overdrawn_concat:
  "\<forall>tr \<in> set trs. never_overdrawn ex tr \<and> length (started tr) = length (finished tr) \<Longrightarrow> 0 \<le> de_maxParallel ex \<Longrightarrow>
   never_overdrawn ex (concat trs)"
proof (induction trs)
  case (Cons tr trs)
  then have tr: "never_overdrawn ex tr" "length (started tr) = length (finished tr)" "never_overdrawn ex (concat trs)" by auto
  have "int (length (started p)) \<le> int (length (finished p)) + de_maxParallel ex" if "tr @ concat trs = p @ q" for p q
  proof -
    have "(\<exists>u. tr = p @ u) \<or> (\<exists>u. p = tr @ u \<and> concat trs = u @ q)" using that by (auto simp: append_eq_append_conv2)
    then show ?thesis using tr by (auto simp: never_overdrawn_def)
  qed
  then show ?case by (simp add: never_overdrawn_def)
qed (simp add: never_overdrawn_def)

text \<open>
  Claim C14: the semaphore bounds the parallelism. At every moment of an execution at most \<open>maxParallel\<close> steps of the
  workflow are in flight, and \<open>maxParallel\<close> is positive, ten when the executor was created with a number that is not.
\<close>

theorem parallelism_bounded:
  assumes "executeDAG (newDAGExecutor n) exec failureMode steps st st' r" "buildExecutionLevels steps = Inr levels"
    and "lv_trace st = []" "int (lv_others st) \<le> de_maxParallel (newDAGExecutor n)" "lv_trace st' = pre @ post"
  shows "int (length (started pre)) - int (length (finished pre)) \<le> (if n \<le> 0 then 10 else n)"
proof -
  let ?ex = "newDAGExecutor n"
  obtain trs where trs: "lv_trace st' = concat trs" "length trs \<le> length levels"
    "\<forall>k < length trs. level_trace ?ex failureMode (levels ! k) (trs ! k)"
    by (rule executeDAG_traces [OF assms(1,3,4,2)])
  have "never_overdrawn ?ex tr \<and> length (started tr) = length (finished tr)" if "tr \<in> set trs" for tr
    using that trs(3) by (metis in_set_conv_nth level_trace_def size_mset)
  moreover have max: "de_maxParallel ?ex = (if n \<le> 0 then 10 else n)" by (simp add: newDAGExecutor_def defaultMaxParallelSteps_def)
  ultimately have "never_overdrawn ?ex (lv_trace st')" unfolding trs(1) by (intro never_overdrawn_concat) auto
  then show ?thesis using assms(5) max unfolding never_overdrawn_def by fastforce
qed

theorem parallelism_bounded_witness:
  "\<exists>st :: unit level_state. executeDAG (newDAGExecutor 1) (\<lambda>d s u p. p = (None, u)) ''abort'' example_steps idle_state st None \<and>
     int (length (started [Started (tool_step ''a'' ''t'' [])])) - int (length (finished [Started (tool_step ''a'' ''t'' [])])) \<le> 1"
proof -
  obtain st where st: "executeDAG (newDAGExecutor 1) (\<lambda>d s u p. p = (None, u)) ''abort'' example_steps idle_state st None"
    "lv_trace st = [Started (tool_step ''a'' ''t'' [])] @ [Finished (tool_step ''a'' ''t'' []) None,
       Started (tool_step ''b'' ''t'' [''a'']), Finished (tool_step ''b'' ''t'' [''a'']) None]"
    by (rule example_run) simp
  have "lv_trace idle_state = []" "int (lv_others idle_state) \<le> de_maxParallel (newDAGExecutor 1)"
    by (simp_all add: idle_state_def newDAGExecutor_def)
  from parallelism_bounded [OF st(1) example_plan this st(2)] show ?thesis using st(1) by auto
qed

text \<open>The number of transitions the goroutines of a level still have to make.\<close>

definition work_left :: "'s level_state \<Rightarrow> nat" where
  "work_left st = 2 * length (lv_waiting st) + length (lv_running st)"

lemma own_step_work:
  assumes "own_step ex exec m st st'"
  shows "work_left st' < work_left st"
  using assms
proof cases
  case (own_acquire step)
  then obtain ys zs where "lv_waiting st = ys @ step # zs" "remove1 step (lv_waiting st) = ys @ zs" using remove1_split by metis
  then show ?thesis using own_acquire by (simp add: work_left_def acquire_def)
next
  case (own_refuse step e)
  then obtain ys zs where "lv_waiting st = ys @ step # zs" "remove1 step (lv_waiting st) = ys @ zs" using remove1_split by metis
  then show ?thesis using own_refuse by (simp add: work_left_def refuse_def)
next
  case (own_finish step err s)
  then obtain ys zs where "lv_running st = ys @ step # zs" "remove1 step (lv_running st) = ys @ zs" using remove1_split by metis
  then show ?thesis using own_finish by (auto simp: work_left_def finish_def Let_def split: option.splits)
qed

text \<open>
  Claim C16: a level does not get stuck and ends. As long as a level is not over and the steps themselves return, either one of
  its goroutines can move or all tokens are held by other workflows; and each move brings the level closer to its end, so
  it makes at most two moves per step.
\<close>

theorem level_progress:
  assumes "\<not> level_over st" "\<And>d step s. \<exists>err s'. exec d step s (err, s')"
  shows "((\<exists>st'. own_step (newDAGExecutor n) exec failureMode st st') \<or>
      (lv_running st = [] \<and> int (lv_others st) \<ge> de_maxParallel (newDAGExecutor n) \<and> 0 < lv_others st)) \<and>
    (\<forall>st'. own_step (newDAGExecutor n) exec failureMode st st' \<longrightarrow> work_left st' < work_left st)"
proof -
  let ?ex = "newDAGExecutor n"
  have "0 < de_maxParallel ?ex" by (simp add: newDAGExecutor_def defaultMaxParallelSteps_def)
  consider (run) s where "s \<in> set (lv_running st)" | (wait) s where "lv_running st = []" "s \<in> set (lv_waiting st)"
    using assms(1) unfolding level_over_def by (metis list.set_intros(1) neq_Nil_conv)
  then have "(\<exists>st'. own_step ?ex exec failureMode st st') \<or>
      (lv_running st = [] \<and> int (lv_others st) \<ge> de_maxParallel ?ex \<and> 0 < lv_others st)"
  proof cases
    case run
    obtain err s' where "exec (lv_done st) s (lv_shared st) (err, s')" using assms(2) by blast
    then show ?thesis using own_finish [OF run] by blast
  next
    case wait
    then show ?thesis using own_acquire [OF wait(2), of ?ex exec failureMode] \<open>0 < de_maxParallel ?ex\<close>
      by (cases "tokens_left ?ex st") (auto simp: tokens_left_def)
  qed
  then show ?thesis using own_step_work by blast
qed

theorem level_progress_witness:
  "\<exists>st'. own_step (newDAGExecutor 0) (\<lambda>d s u p. p = (None, u)) ''abort'' (enter_level example_steps idle_state) st' \<and>
     work_left st' < work_left (enter_level example_steps idle_state)"
proof -
  let ?exec = "\<lambda>d s u p. p = (None, u)"
  have "\<not> level_over (enter_level example_steps idle_state)" by (simp add: level_over_def enter_level_def example_steps_def)
  moreover have "\<exists>err s'. ?exec d step s (err, s')" for d step s by simp
  moreover have "lv_others (enter_level example_steps idle_state) = 0" by (simp add: enter_level_def idle_state_def)
  ultimately show ?thesis using level_progress [of "enter_level example_steps idle_state" ?exec 0 "''abort''"] by auto
qed

section \<open>Invariants of the shared data\<close>

lemma own_step_invariant:
  assumes "own_step ex exec m st st'" "P (lv_shared st) (lv_trace st)"
    and fin: "\<And>d s sh err sh' tr. P sh tr \<Longrightarrow> exec d s sh (err, sh') \<Longrightarrow> P sh' (tr @ [Finished s err])"
    and other: "\<And>sh tr e. P sh tr \<Longrightarrow> (\<And>s err. e \<noteq> Finished s err) \<Longrightarrow> P sh (tr @ [e])"
  shows "P (lv_shared st') (lv_trace st')"
  using assms(1)
proof cases
  case (own_acquire step)
  then show ?thesis using assms(2) other by (simp add: acquire_def)
next
  case (own_refuse step e)
  then show ?thesis using assms(2) other by (simp add: refuse_def)
next
  case (own_finish step err s)
  have "lv_shared st' = s" "lv_trace st' = lv_trace st @ [Finished step err]"
    using own_finish(1) by (auto simp: finish_def Let_def split: option.splits)
  then show ?thesis using fin [OF assms(2) own_finish(3)] by simp
qed

lemma executeLevel_invariant:
  assumes "executeLevel ex exec m st st'" "P (lv_shared st) (lv_trace st)"
    and fin: "\<And>d s sh err sh' tr. P sh tr \<Longrightarrow> exec d s sh (err, sh') \<Longrightarrow> P sh' (tr @ [Finished s err])"
    and other: "\<And>sh tr e. P sh tr \<Longrightarrow> (\<And>s err. e \<noteq> Finished s err) \<Longrightarrow> P sh (tr @ [e])"
  shows "P (lv_shared st') (lv_trace st')"
  using assms(1,2)
proof (induction rule: executeLevel.induct)
  case (level_own st st' st'')
  then show ?case using own_step_invariant [of ex exec m st' st'' P] fin other by blast
next
  case (level_env st st' st'')
  from level_env.hyps(2) level_env.IH [OF level_env.prems] show ?case by cases auto
qed

lemma run_levels_invariant:
  assumes "run_levels ex exec m levels st st' r" "P (lv_shared st) (lv_trace st)"
    and fin: "\<And>d s sh err sh' tr. P sh tr \<Longrightarrow> exec d s sh (err, sh') \<Longrightarrow> P sh' (tr @ [Finished s err])"
    and other: "\<And>sh tr e. P sh tr \<Longrightarrow> (\<And>s err. e \<noteq> Finished s err) \<Longrightarrow> P sh (tr @ [e])"
  shows "P (lv_shared st') (lv_trace st')"
  using assms(1,2)
proof (induction rule: run_levels.induct)
  case (levels_next level st st1 levels st2 r)
  have "P (lv_shared (enter_level level st)) (lv_trace (enter_level level st))" using levels_next.prems by (simp add: enter_level_def)
  then have "P (lv_shared st1) (lv_trace st1)" using executeLevel_invariant [OF levels_next.hyps(1), of P] fin other by blast
  then show ?case by (rule levels_next.IH)
next
  case (levels_fail level st st1 e levels)
  have "P (lv_shared (enter_level level st)) (lv_trace (enter_level level st))" using levels_fail.prems by (simp add: enter_level_def)
  then show ?case using executeLevel_invariant [OF levels_fail.hyps(1), of P] fin other by blast
qed

lemma executeDAG_invariant:
  assumes "executeDAG ex exec m steps st st' r" "P (lv_shared st) (lv_trace st)"
    and "\<And>d s sh err sh' tr. P sh tr \<Longrightarrow> exec d s sh (err, sh') \<Longrightarrow> P sh' (tr @ [Finished s err])"
    and "\<And>sh tr e. P sh tr \<Longrightarrow> (\<And>s err. e \<noteq> Finished s err) \<Longrightarrow> P sh (tr @ [e])"
  shows "P (lv_shared st') (lv_trace st')"
  using assms(1)
proof cases
  case (dag_run levels)
  then show ?thesis using run_levels_invariant [OF dag_run(3), of P] assms(2-4) by blast
qed (use assms(2) in auto)

section \<open>Workflows of one step\<close>

lemma single_plan: "ws_DependsOn s = [] \<Longrightarrow> buildExecutionLevels [s] = Inr [[s]]"
  by (simp add: buildExecutionLevels_def build_graph_def init_graph_def build_levels.simps ready_def release_def
      dependents_of_def level_steps_def stepMap_def)

lemma single_run:
  assumes "ws_DependsOn s = []" "int (lv_others st) < de_maxParallel ex" "exec (lv_parent st) s (lv_shared st) (err, sh)"
    and "err = None \<or> shouldContinueOnError s m"
  shows "\<exists>st'. executeDAG ex exec m [s] st st' None \<and> lv_trace st' = lv_trace st @ [Started s, Finished s err] \<and>
    lv_shared st' = sh \<and> lv_parent st' = lv_parent st"
proof -
  let ?a = "acquire s (enter_level [s] st)"
  let ?f = "finish m s err sh ?a"
  have "own_step ex exec m (enter_level [s] st) ?a"
    by (rule own_acquire) (use assms(2) in \<open>simp_all add: enter_level_def tokens_left_def\<close>)
  moreover have "own_step ex exec m ?a ?f"
    by (rule own_finish) (use assms(3) in \<open>simp_all add: enter_level_def acquire_def\<close>)
  ultimately have "executeLevel ex exec m (enter_level [s] st) ?f" by (blast intro: executeLevel.intros)
  moreover have "level_over ?f" "level_result ?f = None" "lv_trace ?f = lv_trace st @ [Started s, Finished s err]"
    "lv_shared ?f = sh" "lv_parent ?f = lv_parent st"
    using assms(4) by (auto simp: level_over_def level_result_def finish_def acquire_def enter_level_def Let_def split: option.splits)
  ultimately show ?thesis using levels_next [OF _ _ _ levels_end] dag_run [OF _ single_plan [OF assms(1)]] by blast
qed

end
