(* ===== verification/Workflow_Engine.thy ===== *)
theory Workflow_Engine
  imports Workflow_State Workflow_Exec "HOL-Library.Word"
begin

text \<open>
  The handlers of the workflow engine (\<open>workflow_engine.go\<close> of \<open>pkg/vmcp/composer\<close>): tool steps with retries,
  elicitation steps, loops over collections, and the execution of a whole workflow on top of \<open>executeDAG\<close>. What the
  handlers call outside the engine is a field of \<open>engine_env\<close>; audit and logging are left out.
\<close>

section \<open>The environment\<close>

record ElicitationResponse =
  er_Action :: string
  er_Content :: "json_object option"
  er_ReceivedAt :: gotime

text \<open>
  \<open>en_expand\<close>, \<open>en_condition\<close>, \<open>en_expandString\<close> and \<open>en_expandForEach\<close> are the template expander, \<open>en_unmarshal\<close>
  parses a JSON array, \<open>en_tryCoerce\<close> is the coercion by a schema, \<open>en_paramHeaders\<close> derives the headers of a call,
  \<open>en_resolve\<close> and \<open>en_route\<close> are the router, \<open>en_call\<close> the backend client with the number of the attempt, \<open>en_retry\<close>
  the function \<open>backoff.Retry\<close> of the retry library with the delay and the maximal number of tries, \<open>en_elicit\<close> the handler of
  elicitations. \<open>en_save\<close> is \<open>SaveState\<close> of the configured store. For the iterations of a loop \<open>en_order\<close> is the order
  in which they return and \<open>en_cancelled\<close> says which ones found the context of their group done.
\<close>

record 's engine_env =
  en_expand :: "json_object \<Rightarrow> WorkflowContext \<Rightarrow> goerror + json_object"
  en_condition :: "string \<Rightarrow> WorkflowContext \<Rightarrow> goerror + bool"
  en_expandString :: "string \<Rightarrow> WorkflowContext \<Rightarrow> goerror + string"
  en_expandForEach :: "json_object \<Rightarrow> WorkflowContext \<Rightarrow> json_object \<Rightarrow> goerror + json_object"
  en_unmarshal :: "string \<Rightarrow> json list option"
  en_tryCoerce :: "json_object \<Rightarrow> json_object \<Rightarrow> json"
  en_paramHeaders :: "json_object \<Rightarrow> json_object \<Rightarrow> goerror + (string, string) gomap"
  en_resolve :: "string \<Rightarrow> string"
  en_route :: "string \<Rightarrow> goerror + BackendTarget"
  en_tools :: "Tool list"
  en_call :: "BackendTarget \<Rightarrow> string \<Rightarrow> json_object \<Rightarrow> (string, string) gomap \<Rightarrow> nat \<Rightarrow> goerror + ToolCallResult option"
  en_retry :: "duration \<Rightarrow> 64 word \<Rightarrow> (nat \<Rightarrow> goerror + ToolCallResult) \<Rightarrow> (goerror + ToolCallResult) \<times> nat"
  en_elicit :: "(string \<Rightarrow> string \<Rightarrow> ElicitationConfig \<Rightarrow> goerror + ElicitationResponse) option"
  en_save :: "gotime \<Rightarrow> string \<Rightarrow> WorkflowStatus option \<Rightarrow> 's \<Rightarrow> goerror option \<times> 's"
  en_order :: "string \<Rightarrow> nat list"
  en_cancelled :: "string \<Rightarrow> nat \<Rightarrow> goerror option"

text \<open>What the steps of one workflow share: its context and the store of the engine, if there is one.\<close>

type_synonym 's engine_state = "WorkflowContext \<times> 's option"

definition sentinel_error :: "sentinel \<Rightarrow> string \<Rightarrow> goerror" where
  "sentinel_error s t = \<lparr>err_chain = [s], err_text = t\<rparr>"

definition fail_step :: "WorkflowStep \<Rightarrow> goerror \<Rightarrow> gotime \<Rightarrow> 's engine_state \<Rightarrow> goerror option \<times> 's engine_state" where
  "fail_step step err now = (\<lambda>(ctx, store). (Some err, (RecordStepFailure (ws_ID step) err now ctx, store)))"

definition complete_step :: "WorkflowStep \<Rightarrow> json_object \<Rightarrow> gotime \<Rightarrow> 's engine_state \<Rightarrow> goerror option \<times> 's engine_state" where
  "complete_step step output now = (\<lambda>(ctx, store). (None, (RecordStepSuccess (ws_ID step) (Some output) None now ctx, store)))"

section \<open>Tool steps\<close>

definition getToolInputSchema :: "'s engine_env \<Rightarrow> string \<Rightarrow> json_object" where
  "getToolInputSchema env toolName =
     (case find (\<lambda>t. tool_Name t = en_resolve env toolName) (en_tools env) of None \<Rightarrow> [] | Some t \<Rightarrow> tool_InputSchema t)"

definition coerce_args :: "'s engine_env \<Rightarrow> string \<Rightarrow> json_object \<Rightarrow> json_object" where
  "coerce_args env toolName args = (case en_tryCoerce env (getToolInputSchema env toolName) args of JObject coerced \<Rightarrow> coerced | _ \<Rightarrow> args)"

definition string_field :: "json_object \<Rightarrow> string \<Rightarrow> string" where
  "string_field m k = (case map_of m k of Some (JString s) \<Rightarrow> s | _ \<Rightarrow> '''')"

definition extractErrorMessage :: "ToolCallResult \<Rightarrow> string" where
  "extractErrorMessage result =
     (case find (\<lambda>c. ct_Type c = ContentTypeText \<and> ct_Text c \<noteq> '''') (tr_Content result) of Some c \<Rightarrow> ct_Text c
      | None \<Rightarrow> (case tr_StructuredContent result of None \<Rightarrow> ''tool execution error''
        | Some m \<Rightarrow> (case find (\<lambda>k. string_field m k \<noteq> '''') [''error'', ''message'', ''text''] of Some k \<Rightarrow> string_field m k
          | None \<Rightarrow> ''tool execution error'')))"

definition maxRetryCount :: int where
  "maxRetryCount = 10"

definition getRetryConfig :: "WorkflowStep \<Rightarrow> int \<times> duration" where
  "getRetryConfig step = (case ws_OnError step of
     Some h \<Rightarrow> if eh_Action h = ''retry''
       then (if eh_RetryCount h > maxRetryCount then maxRetryCount else eh_RetryCount h,
             if eh_RetryDelay h > 0 then eh_RetryDelay h else 1000000000)
       else (0, 1000000000)
   | None \<Rightarrow> (0, 1000000000))"

text \<open>The operation that is retried, at its \<open>n\<close>-th attempt.\<close>

definition call_attempt :: "'s engine_env \<Rightarrow> BackendTarget \<Rightarrow> WorkflowStep \<Rightarrow> json_object \<Rightarrow> (string, string) gomap \<Rightarrow> nat \<Rightarrow> goerror + ToolCallResult" where
  "call_attempt env target step args headers n = (case en_call env target (ws_Tool step) args headers n of
     Inl e \<Rightarrow> Inl e
   | Inr None \<Rightarrow> Inl (new_error (''nil tool result for step '' @ ws_ID step))
   | Inr (Some result) \<Rightarrow> if tr_IsError result
       then Inl (sentinel_error ErrToolExecutionFailed (''tool execution failed: '' @ extractErrorMessage result))
       else Inr result)"

definition callToolWithRetry :: "'s engine_env \<Rightarrow> BackendTarget \<Rightarrow> WorkflowStep \<Rightarrow> json_object \<Rightarrow> (goerror + ToolCallResult) \<times> int" where
  "callToolWithRetry env target step args =
     (let (maxRetries, initialDelay) = getRetryConfig step in
      case en_paramHeaders env (getToolInputSchema env (ws_Tool step)) args of
        Inl e \<Rightarrow> (Inl (wrap_error (''deriving parameter headers for step '' @ quoted (ws_ID step) @ '' tool '' @ quoted (ws_Tool step) @ '': '') e), 0)
      | Inr headers \<Rightarrow>
          (let (result, attemptCount) = en_retry env initialDelay (word_of_int (maxRetries + 1)) (call_attempt env target step args headers)
           in (result, int attemptCount - 1)))"

definition set_retries :: "WorkflowStep \<Rightarrow> int \<Rightarrow> WorkflowContext \<Rightarrow> WorkflowContext" where
  "set_retries step n = change_result (ws_ID step) (\<lambda>r. r\<lparr>sr_RetryCount := n\<rparr>)"

definition handleToolStepFailure :: "WorkflowStep \<Rightarrow> int \<Rightarrow> goerror \<Rightarrow> gotime \<Rightarrow> 's engine_state \<Rightarrow> goerror option \<times> 's engine_state" where
  "handleToolStepFailure step retryCount err now = (\<lambda>(ctx, store).
     let finalErr = \<lparr>err_chain = ErrToolCallFailed # err_chain err,
           err_text = ''tool call failed: tool '' @ ws_Tool step @ '' in step '' @ ws_ID step @ '': '' @ err_text err\<rparr>;
         ctx1 = set_retries step retryCount (RecordStepFailure (ws_ID step) finalErr now ctx)
     in case ws_OnError step of
          Some h \<Rightarrow> if eh_ContinueOnError h
            then (None, (case ws_DefaultResults step of None \<Rightarrow> ctx1
                | Some d \<Rightarrow> change_result (ws_ID step) (\<lambda>r. r\<lparr>sr_Output := Some d\<rparr>) ctx1, store))
            else (Some finalErr, (ctx1, store))
        | None \<Rightarrow> (Some finalErr, (ctx1, store)))"

definition checkpointWorkflowState :: "'s engine_env \<Rightarrow> gotime \<Rightarrow> 's engine_state \<Rightarrow> 's engine_state" where
  "checkpointWorkflowState env now = (\<lambda>(ctx, store). (ctx, case store of None \<Rightarrow> None
     | Some s \<Rightarrow> Some (snd (en_save env now (wc_WorkflowID ctx) (Some (buildWorkflowStatus ctx WorkflowStatusRunning now)) s))))"

definition handleToolStepSuccess :: "'s engine_env \<Rightarrow> WorkflowStep \<Rightarrow> json_object \<Rightarrow> Content list \<Rightarrow> int \<Rightarrow> gotime \<Rightarrow> 's engine_state \<Rightarrow> goerror option \<times> 's engine_state" where
  "handleToolStepSuccess env step output content retryCount now = (\<lambda>(ctx, store).
     (None, checkpointWorkflowState env now
        (set_retries step retryCount (RecordStepSuccess (ws_ID step) (Some output) (Some content) now ctx), store)))"

definition result_output :: "ToolCallResult \<Rightarrow> json_object" where
  "result_output result = (case tr_StructuredContent result of None \<Rightarrow> ContentArrayToMap (tr_Content result) | Some m \<Rightarrow> m)"

definition executeToolStep :: "'s engine_env \<Rightarrow> gotime \<Rightarrow> WorkflowStep \<Rightarrow> 's engine_state \<Rightarrow> goerror option \<times> 's engine_state" where
  "executeToolStep env now step st =
     (case en_expand env (ws_Arguments step) (fst st) of
        Inl e \<Rightarrow> fail_step step (sentinel_error ErrTemplateExpansion
          (''template expansion failed: failed to expand arguments for step '' @ ws_ID step @ '': '' @ err_text e)) now st
      | Inr expanded \<Rightarrow>
          (let args = coerce_args env (ws_Tool step) expanded in
           case en_route env (ws_Tool step) of
             Inl e \<Rightarrow> fail_step step (wrap_error (''failed to route tool '' @ ws_Tool step @ '' in step '' @ ws_ID step @ '': '') e) now st
           | Inr target \<Rightarrow> (case callToolWithRetry env target step args of
               (Inl e, retryCount) \<Rightarrow> handleToolStepFailure step retryCount e now st
             | (Inr result, retryCount) \<Rightarrow>
                 handleToolStepSuccess env step (result_output result) (tr_Content result) retryCount now st)))"

section \<open>Elicitation steps\<close>

definition elicitation_declined :: "WorkflowStep \<Rightarrow> goerror" where
  "elicitation_declined step = sentinel_error ErrElicitationDeclined (''elicitation request was declined by user: step '' @ ws_ID step)"

definition elicitation_cancelled :: "WorkflowStep \<Rightarrow> goerror" where
  "elicitation_cancelled step = sentinel_error ErrElicitationCancelled (''elicitation request was cancelled by user: step '' @ ws_ID step)"

definition handleElicitationAction :: "WorkflowStep \<Rightarrow> string \<Rightarrow> string \<Rightarrow> gotime \<Rightarrow> 's engine_state \<Rightarrow> goerror option \<times> 's engine_state" where
  "handleElicitationAction step action reason now st =
     (if action = ''skip_remaining''
      then complete_step step [(''action'', JString reason), (''skipped'', JBool True)] now st
      else if action = ''abort''
      then fail_step step (if reason = ''decline'' then elicitation_declined step else elicitation_cancelled step) now st
      else if action = ''continue'' then complete_step step [(''action'', JString reason)] now st
      else fail_step step (new_error (''invalid elicitation action: '' @ action)) now st)"

definition handleElicitationAccept :: "WorkflowStep \<Rightarrow> ElicitationResponse \<Rightarrow> gotime \<Rightarrow> 's engine_state \<Rightarrow> goerror option \<times> 's engine_state" where
  "handleElicitationAccept step response now st = complete_step step [(''action'', JString (er_Action response)),
     (''content'', case er_Content response of None \<Rightarrow> JNull | Some c \<Rightarrow> JObject c)] now st"

definition handleElicitationDecline :: "WorkflowStep \<Rightarrow> gotime \<Rightarrow> 's engine_state \<Rightarrow> goerror option \<times> 's engine_state" where
  "handleElicitationDecline step now st = (case Option.bind (ws_Elicitation step) ec_OnDecline of
     Some h \<Rightarrow> handleElicitationAction step (elh_Action h) ''decline'' now st
   | None \<Rightarrow> fail_step step (elicitation_declined step) now st)"

definition handleElicitationCancel :: "WorkflowStep \<Rightarrow> gotime \<Rightarrow> 's engine_state \<Rightarrow> goerror option \<times> 's engine_state" where
  "handleElicitationCancel step now st = (case Option.bind (ws_Elicitation step) ec_OnCancel of
     Some h \<Rightarrow> handleElicitationAction step (elh_Action h) ''cancel'' now st
   | None \<Rightarrow> fail_step step (elicitation_cancelled step) now st)"

definition handleElicitationTimeout :: "WorkflowStep \<Rightarrow> gotime \<Rightarrow> 's engine_state \<Rightarrow> goerror option \<times> 's engine_state" where
  "handleElicitationTimeout step now st = (case Option.bind (ws_Elicitation step) ec_OnCancel of
     Some h \<Rightarrow> handleElicitationAction step (elh_Action h) ''timeout'' now st
   | None \<Rightarrow> fail_step step (sentinel_error ErrElicitationTimeout (''elicitation request timed out: step '' @ ws_ID step)) now st)"

definition expand_message :: "'s engine_env \<Rightarrow> ElicitationConfig \<Rightarrow> WorkflowContext \<Rightarrow> goerror + ElicitationConfig" where
  "expand_message env cfg ctx = (if ec_Message cfg = '''' then Inr cfg
     else case en_expand env [(''message'', JString (ec_Message cfg))] ctx of Inl e \<Rightarrow> Inl e
       | Inr expanded \<Rightarrow> (case map_of expanded ''message'' of Some (JString msg) \<Rightarrow> Inr (cfg\<lparr>ec_Message := msg\<rparr>) | _ \<Rightarrow> Inr cfg))"

definition executeElicitationStep :: "'s engine_env \<Rightarrow> gotime \<Rightarrow> WorkflowStep \<Rightarrow> 's engine_state \<Rightarrow> goerror option \<times> 's engine_state" where
  "executeElicitationStep env now step st = (case en_elicit env of
     None \<Rightarrow> fail_step step (new_error (''elicitation handler not configured for step '' @ ws_ID step)) now st
   | Some request \<Rightarrow> (case ws_Elicitation step of
       None \<Rightarrow> fail_step step (new_error (''elicitation config is missing for step '' @ ws_ID step)) now st
     | Some cfg0 \<Rightarrow> (case expand_message env cfg0 (fst st) of
         Inl e \<Rightarrow> fail_step step (sentinel_error ErrTemplateExpansion
           (''template expansion failed: failed to expand elicitation message for step '' @ ws_ID step @ '': '' @ err_text e)) now st
       | Inr cfg \<Rightarrow> (case request (wc_WorkflowID (fst st)) (ws_ID step) cfg of
           Inl e \<Rightarrow> if errors_Is e ErrElicitationTimeout then handleElicitationTimeout step now st
             else fail_step step (wrap_error (''elicitation request failed for step '' @ ws_ID step @ '': '') e) now st
         | Inr response \<Rightarrow>
             if er_Action response = ''accept'' then handleElicitationAccept step response now st
             else if er_Action response = ''decline'' then handleElicitationDecline step now st
             else if er_Action response = ''cancel'' then handleElicitationCancel step now st
             else fail_step step (new_error (''invalid elicitation response action '' @ quoted (er_Action response) @
               '' for step '' @ ws_ID step)) now st))))"

section \<open>Loops\<close>

record iterationResult =
  ir_Index :: nat
  ir_Item :: json
  ir_Status :: string
  ir_Output :: "json_object option"
  ir_Error :: string

definition defaultMaxIterations :: int where
  "defaultMaxIterations = 100"

definition iteration_limit :: "WorkflowStep \<Rightarrow> int" where
  "iteration_limit step = (let maxIter = (if ws_MaxIterations step \<le> 0 then defaultMaxIterations else ws_MaxIterations step)
     in if maxIter > MaxForEachIterations then MaxForEachIterations else maxIter)"

definition validateCollectionSize :: "WorkflowStep \<Rightarrow> nat \<Rightarrow> goerror option" where
  "validateCollectionSize step size' = (if int size' > iteration_limit step
     then Some (new_error (''forEach step '' @ ws_ID step @ '': collection size '' @ show_int (int size') @ '' exceeds maxIterations '' @
       show_int (iteration_limit step))) else None)"

text \<open>\<open>runes\<close> splits UTF-8 text into its characters: a byte of the form 10xxxxxx continues the character before it.\<close>

fun runes :: "string \<Rightarrow> string list" where
  "runes [] = []"
| "runes (c # cs) = (case runes cs of
     (d # r) # rs \<Rightarrow> if of_char d div (64 :: nat) = 2 then (c # d # r) # rs else [c] # (d # r) # rs
   | rs \<Rightarrow> [c] # rs)"

definition truncate :: "string \<Rightarrow> nat \<Rightarrow> string" where
  "truncate s maxRunes = (if length (runes s) \<le> maxRunes then s else concat (take maxRunes (runes s)) @ ''...'')"

definition resolveForEachCollection :: "'s engine_env \<Rightarrow> WorkflowStep \<Rightarrow> WorkflowContext \<Rightarrow> goerror + json list" where
  "resolveForEachCollection env step ctx = (case en_expandString env (ws_Collection step) ctx of
     Inl e \<Rightarrow> Inl (wrap_error (''forEach step '' @ ws_ID step @ '': failed to expand collection template: '') e)
   | Inr expanded \<Rightarrow> (case en_unmarshal env expanded of
       None \<Rightarrow> Inl (new_error (''forEach step '' @ ws_ID step @ '': collection must resolve to a JSON array, got: '' @ truncate expanded 100))
     | Some items \<Rightarrow> Inr items))"

definition prepareForEachCollection :: "'s engine_env \<Rightarrow> WorkflowStep \<Rightarrow> WorkflowContext \<Rightarrow> goerror + json list" where
  "prepareForEachCollection env step ctx = (case ws_InnerStep step of
     None \<Rightarrow> Inl (new_error (''forEach step '' @ ws_ID step @ '': inner step is nil''))
   | Some _ \<Rightarrow> (case resolveForEachCollection env step ctx of Inl e \<Rightarrow> Inl e
     | Inr items \<Rightarrow> (case validateCollectionSize step (length items) of Some e \<Rightarrow> Inl e | None \<Rightarrow> Inr items)))"

definition failed_iteration :: "nat \<Rightarrow> json \<Rightarrow> string \<Rightarrow> iterationResult" where
  "failed_iteration index item err = \<lparr>ir_Index = index, ir_Item = item, ir_Status = ''failed'', ir_Output = None, ir_Error = err\<rparr>"

definition executeForEachIteration :: "'s engine_env \<Rightarrow> WorkflowStep \<Rightarrow> WorkflowContext \<Rightarrow> nat \<Rightarrow> json \<Rightarrow> string \<Rightarrow> iterationResult" where
  "executeForEachIteration env inner ctx index item itemVar =
     (case en_expandForEach env (ws_Arguments inner) ctx (AList.update ''index'' (JNumber (show_nat index)) [(itemVar, item)]) of
        Inl e \<Rightarrow> failed_iteration index item (''template expansion failed: '' @ err_text e)
      | Inr expanded \<Rightarrow>
          (let args = coerce_args env (ws_Tool inner) expanded in
           case en_route env (ws_Tool inner) of
             Inl e \<Rightarrow> failed_iteration index item (''failed to route tool: '' @ err_text e)
           | Inr target \<Rightarrow> (case fst (callToolWithRetry env target inner args) of
               Inl e \<Rightarrow> failed_iteration index item (err_text e)
             | Inr result \<Rightarrow> \<lparr>ir_Index = index, ir_Item = item, ir_Status = ''completed'', ir_Output = Some (result_output result),
                 ir_Error = ''''\<rparr>)))"

definition iteration_object :: "iterationResult \<Rightarrow> json" where
  "iteration_object r = JObject ([(''index'', JNumber (show_nat (ir_Index r))), (''item'', ir_Item r), (''status'', JString (ir_Status r)),
     (''output'', case ir_Output r of None \<Rightarrow> JNull | Some m \<Rightarrow> JObject m)] @
     (if ir_Error r = '''' then [] else [(''error'', JString (ir_Error r))]))"

definition buildForEachOutput :: "iterationResult list \<Rightarrow> nat \<Rightarrow> json_object" where
  "buildForEachOutput results totalCount =
     [(''iterations'', JArray (map iteration_object results)), (''count'', JNumber (show_nat totalCount)),
      (''completed'', JNumber (show_nat (length (filter (\<lambda>r. ir_Status r = ''completed'') results)))),
      (''failed'', JNumber (show_nat (length (filter (\<lambda>r. ir_Status r \<noteq> ''completed'') results))))]"

definition forEach_parallel :: "int \<Rightarrow> WorkflowStep \<Rightarrow> int" where
  "forEach_parallel dagMaxParallel step = (let maxPar = (if ws_MaxParallel step \<le> 0 then dagMaxParallel else ws_MaxParallel step)
     in if maxPar > 50 then 50 else maxPar)"

definition continue_iterations :: "WorkflowStep \<Rightarrow> bool" where
  "continue_iterations step = (case ws_OnError step of None \<Rightarrow> False | Some h \<Rightarrow> eh_Action h = failureModeContinue)"

text \<open>The result and the error of the goroutine of one iteration.\<close>

definition run_iteration :: "'s engine_env \<Rightarrow> WorkflowStep \<Rightarrow> WorkflowStep \<Rightarrow> WorkflowContext \<Rightarrow> nat \<Rightarrow> json \<Rightarrow> iterationResult \<times> goerror option" where
  "run_iteration env step inner ctx i item = (case en_cancelled env (ws_ID step) i of
     Some e \<Rightarrow> (\<lparr>ir_Index = i, ir_Item = item, ir_Status = ''cancelled'', ir_Output = None, ir_Error = err_text e\<rparr>, Some e)
   | None \<Rightarrow> (let r = executeForEachIteration env inner ctx i item (if ws_ItemVar step = '''' then ''item'' else ws_ItemVar step) in
       (r, if ir_Error r \<noteq> '''' \<and> \<not> continue_iterations step
           then Some (new_error (''forEach step '' @ ws_ID step @ '' iteration '' @ show_nat i @ '': '' @ ir_Error r)) else None)))"

fun first_error :: "(nat \<Rightarrow> goerror option) \<Rightarrow> nat list \<Rightarrow> goerror option" where
  "first_error f [] = None"
| "first_error f (i # is) = (case f i of Some e \<Rightarrow> Some e | None \<Rightarrow> first_error f is)"

definition executeForEachStep :: "'s engine_env \<Rightarrow> gotime \<Rightarrow> WorkflowStep \<Rightarrow> 's engine_state \<Rightarrow> goerror option \<times> 's engine_state" where
  "executeForEachStep env now step st = (case prepareForEachCollection env step (fst st) of
     Inl e \<Rightarrow> fail_step step e now st
   | Inr items \<Rightarrow>
       if length items = 0 then complete_step step (buildForEachOutput [] 0) now st
       else (let outcomes = map (\<lambda>(i, item). run_iteration env step (the (ws_InnerStep step)) (fst st) i item) (enumerate 0 items);
                 aggregated = buildForEachOutput (map fst outcomes) (length items);
                 execErr = first_error (\<lambda>i. if i < length outcomes then snd (outcomes ! i) else None) (en_order env (ws_ID step))
             in case execErr of
                  Some e \<Rightarrow> if continue_iterations step then complete_step step aggregated now st
                    else (let (err, (ctx, store)) = fail_step step e now st
                          in (err, (change_result (ws_ID step) (\<lambda>r. r\<lparr>sr_Output := Some aggregated\<rparr>) ctx, store)))
                | None \<Rightarrow> complete_step step aggregated now st))"

section \<open>A step\<close>

text \<open>\<open>t0\<close> is the time when the step starts and \<open>t1\<close> the time when it ends.\<close>

definition dispatch_step :: "'s engine_env \<Rightarrow> gotime \<Rightarrow> WorkflowStep \<Rightarrow> 's engine_state \<Rightarrow> goerror option \<times> 's engine_state" where
  "dispatch_step env t1 step st = (case ws_Type step of
     StepTypeTool \<Rightarrow> executeToolStep env t1 step st
   | StepTypeElicitation \<Rightarrow> executeElicitationStep env t1 step st
   | StepTypeForEach \<Rightarrow> executeForEachStep env t1 step st
   | StepTypeOther t \<Rightarrow> fail_step step (new_error (''unsupported step type: '' @ t)) t1 st)"

definition executeStep :: "'s engine_env \<Rightarrow> gotime \<Rightarrow> gotime \<Rightarrow> WorkflowStep \<Rightarrow> 's engine_state \<Rightarrow> goerror option \<times> 's engine_state" where
  "executeStep env t0 t1 step st =
     (let st1 = (RecordStepStart (ws_ID step) t0 (fst st), snd st) in
      if ws_Condition step \<noteq> ''''
      then case en_condition env (ws_Condition step) (fst st1) of
          Inl e \<Rightarrow> fail_step step (sentinel_error ErrTemplateExpansion
            (''template expansion failed: failed to evaluate condition for step '' @ ws_ID step @ '': '' @ err_text e)) t1 st1
        | Inr shouldExecute \<Rightarrow>
            if \<not> shouldExecute then (None, (RecordStepSkipped (ws_ID step) (ws_DefaultResults step) t1 t1 (fst st1), snd st1))
            else dispatch_step env t1 step st1
      else dispatch_step env t1 step st1)"

section \<open>A workflow\<close>

text \<open>The default that the property schema of a parameter holds.\<close>

definition default_of :: "json \<Rightarrow> json option" where
  "default_of propSchema = (case propSchema of JObject propMap \<Rightarrow> map_of propMap ''default'' | _ \<Rightarrow> None)"

definition apply_default :: "string \<times> json \<Rightarrow> json_object \<Rightarrow> json_object" where
  "apply_default = (\<lambda>(paramName, propSchema) result. case map_of result paramName of
     Some _ \<Rightarrow> result
   | None \<Rightarrow> (case default_of propSchema of None \<Rightarrow> result | Some v \<Rightarrow> AList.update paramName v result))"

definition applyParameterDefaults :: "json_object \<Rightarrow> json_object option \<Rightarrow> json_object" where
  "applyParameterDefaults inputSchema params =
     (let ps = (case params of None \<Rightarrow> [] | Some p \<Rightarrow> p) in
      case map_of inputSchema ''properties'' of Some (JObject properties) \<Rightarrow> fold apply_default properties ps
      | _ \<Rightarrow> ps)"

record WorkflowResult =
  wr_WorkflowID :: string
  wr_Status :: WorkflowStatusType
  wr_Output :: "json_object option"
  wr_Steps :: "(string, StepResult) gomap"
  wr_Error :: "goerror option"
  wr_StartTime :: gotime
  wr_EndTime :: gotime
  wr_Duration :: duration

definition new_result :: "string \<Rightarrow> gotime \<Rightarrow> WorkflowResult" where
  "new_result workflowID startTime = \<lparr>wr_WorkflowID = workflowID, wr_Status = WorkflowStatusRunning, wr_Output = None, wr_Steps = [],
     wr_Error = None, wr_StartTime = startTime, wr_EndTime = zero_time, wr_Duration = 0\<rparr>"

definition save_final :: "'s engine_env \<Rightarrow> WorkflowStatusType \<Rightarrow> gotime \<Rightarrow> gotime \<Rightarrow> 's engine_state \<Rightarrow> 's option" where
  "save_final env status startTime now = (\<lambda>(ctx, store). case store of None \<Rightarrow> None
     | Some s \<Rightarrow> Some (snd (en_save env now (wc_WorkflowID ctx)
         (Some ((buildWorkflowStatus ctx status now)\<lparr>wst_StartTime := startTime\<rparr>)) s)))"

definition finish_result :: "WorkflowStatusType \<Rightarrow> goerror option \<Rightarrow> gotime \<Rightarrow> WorkflowResult \<Rightarrow> WorkflowResult" where
  "finish_result status err now result = result\<lparr>wr_Status := status, wr_Error := err, wr_EndTime := now,
     wr_Duration := now - wr_StartTime result\<rparr>"

definition workflow_timeout :: goerror where
  "workflow_timeout = sentinel_error ErrWorkflowTimeout ''workflow timed out''"

text \<open>
  The end of \<open>ExecuteWorkflow\<close>, after \<open>executeDAG\<close> returned \<open>dagErr\<close>. \<open>execErr\<close> is the error of the execution context at that
  point and \<open>constructOutput\<close> builds the output that a definition configures. The result comes with the returned error and the store.
\<close>

definition conclude_workflow :: "'s engine_env \<Rightarrow> ('o \<Rightarrow> WorkflowContext \<Rightarrow> goerror + json_object) \<Rightarrow> 'o WorkflowDefinition \<Rightarrow> gotime \<Rightarrow>
    WorkflowResult \<Rightarrow> goerror option \<Rightarrow> goerror option \<Rightarrow> 's engine_state \<Rightarrow> WorkflowResult \<times> goerror option \<times> 's option" where
  "conclude_workflow env constructOutput d now result0 dagErr execErr st =
     (let result = result0\<lparr>wr_Steps := wc_Steps (fst st)\<rparr> in
      case dagErr of
        Some e \<Rightarrow>
          if (case execErr of None \<Rightarrow> False | Some x \<Rightarrow> errors_Is x context_DeadlineExceeded)
          then (finish_result WorkflowStatusTimedOut (Some workflow_timeout) now result, Some workflow_timeout,
                save_final env WorkflowStatusTimedOut (wr_StartTime result) now st)
          else (finish_result WorkflowStatusFailed (Some e) now result, Some e,
                save_final env WorkflowStatusFailed (wr_StartTime result) now st)
      | None \<Rightarrow>
          (let ctx = updateWorkflowMetadata (wr_StartTime result) WorkflowStatusCompleted now (fst st) in
           case wd_Output d of
             None \<Rightarrow> (finish_result WorkflowStatusCompleted None now (result\<lparr>wr_Output := GetLastStepOutput ctx\<rparr>), None,
                save_final env WorkflowStatusCompleted (wr_StartTime result) now (ctx, snd st))
           | Some cfg \<Rightarrow> (case constructOutput cfg ctx of
               Inl e \<Rightarrow> (let err = wrap_error ''output construction failed: '' e in
                  (finish_result WorkflowStatusFailed (Some err) now result, Some err,
                   save_final env WorkflowStatusFailed (wr_StartTime result) now (ctx, snd st)))
             | Inr out \<Rightarrow> (finish_result WorkflowStatusCompleted None now (result\<lparr>wr_Output := Some out\<rparr>), None,
                  save_final env WorkflowStatusCompleted (wr_StartTime result) now (ctx, snd st)))))"

text \<open>
  The function the engine hands to \<open>executeDAG\<close>: a step that finds its context done returns the error of the context, any other
  step is executed, at times given by the clock.
\<close>

definition stepExecutor :: "'s engine_env \<Rightarrow> 's engine_state exec_fun" where
  "stepExecutor env d step st r \<longleftrightarrow> (\<exists>e. d = Some e \<and> r = (Some e, st)) \<or> (\<exists>t0 t1. r = executeStep env t0 t1 step st)"

definition initial_state :: "'s engine_env \<Rightarrow> WorkflowContext \<Rightarrow> gotime \<Rightarrow> 's option \<Rightarrow> 's engine_state" where
  "initial_state env ctx startTime store = (ctx, case store of None \<Rightarrow> None
     | Some s \<Rightarrow> Some (snd (en_save env startTime (wc_WorkflowID ctx) (Some \<lparr>wst_WorkflowID = wc_WorkflowID ctx,
         wst_Status = WorkflowStatusRunning, wst_CurrentStep = '''', wst_CompletedSteps = [], wst_PendingElicitations = [],
         wst_StartTime = startTime, wst_LastUpdateTime = startTime\<rparr>) s)))"

definition start_state :: "nat \<Rightarrow> goerror option \<Rightarrow> 's engine_state \<Rightarrow> 's engine_state level_state" where
  "start_state others parent st = \<lparr>lv_waiting = [], lv_running = [], lv_others = others, lv_parent = parent, lv_done = parent,
     lv_err = None, lv_continued = [], lv_shared = st, lv_trace = []\<rparr>"

text \<open>
  \<open>ExecuteWorkflow\<close> with the identifier \<open>workflowID\<close>, begun at \<open>startTime\<close> and over at \<open>endTime\<close>: any run of \<open>executeDAG\<close>
  from the initial state, and then the conclusion. The context may have expired between the two.
\<close>

inductive ExecuteWorkflow :: "'s engine_env \<Rightarrow> ('o \<Rightarrow> WorkflowContext \<Rightarrow> goerror + json_object) \<Rightarrow> dagExecutor \<Rightarrow> 'o WorkflowDefinition \<Rightarrow>
    json_object option \<Rightarrow> string \<Rightarrow> 's option \<Rightarrow> WorkflowResult \<times> goerror option \<times> 's option \<Rightarrow> level_event list \<Rightarrow> bool"
  for env :: "'s engine_env" and constructOutput :: "'o \<Rightarrow> WorkflowContext \<Rightarrow> goerror + json_object" and ex :: dagExecutor
    and d :: "'o WorkflowDefinition" where
  execute_workflow:
    "ctx = fst (CreateContext workflowID createTime (Some (applyParameterDefaults (wd_Parameters d) params)) newWorkflowContextManager) \<Longrightarrow>
     int others \<le> de_maxParallel ex \<Longrightarrow>
     executeDAG ex (stepExecutor env) (wd_FailureMode d) (wd_Steps d) (start_state others parent (initial_state env ctx startTime store)) st dagErr \<Longrightarrow>
     (\<forall>e. lv_parent st = Some e \<longrightarrow> execErr = Some e) \<Longrightarrow>
     ExecuteWorkflow env constructOutput ex d params workflowID store
       (conclude_workflow env constructOutput d endTime (new_result workflowID startTime) dagErr execErr (lv_shared st)) (lv_trace st)"

section \<open>What a step leaves behind\<close>

definition step_recorded :: "WorkflowStep \<Rightarrow> goerror option \<Rightarrow> WorkflowContext \<Rightarrow> bool" where
  "step_recorded step err ctx = (case map_of (wc_Steps ctx) (ws_ID step) of None \<Rightarrow> False
     | Some r \<Rightarrow> (case err of
         Some e \<Rightarrow> sr_Status r = StepStatusFailed \<and> sr_Error r = Some e
       | None \<Rightarrow> (sr_Status r = StepStatusCompleted \<or> sr_Status r = StepStatusSkipped) \<and> sr_Error r = None \<or>
           sr_Status r = StepStatusFailed \<and> (\<exists>h. ws_OnError step = Some h \<and> eh_ContinueOnError h)))"

definition same_elsewhere :: "string \<Rightarrow> WorkflowContext \<Rightarrow> WorkflowContext \<Rightarrow> bool" where
  "same_elsewhere i ctx ctx' \<longleftrightarrow> (map_of (wc_Steps ctx'))(i := None) = (map_of (wc_Steps ctx))(i := None) \<and>
     ctx'\<lparr>wc_Steps := []\<rparr> = ctx\<lparr>wc_Steps := []\<rparr>"

text \<open>The step has been started and nothing has been recorded for it since.\<close>

definition step_running :: "WorkflowStep \<Rightarrow> WorkflowContext \<Rightarrow> bool" where
  "step_running step ctx \<longleftrightarrow> (\<exists>r. map_of (wc_Steps ctx) (ws_ID step) = Some r \<and> sr_Error r = None)"

definition outcome_ok :: "WorkflowStep \<Rightarrow> 's engine_state \<Rightarrow> goerror option \<times> 's engine_state \<Rightarrow> bool" where
  "outcome_ok step st out \<longleftrightarrow> step_recorded step (fst out) (fst (snd out)) \<and> same_elsewhere (ws_ID step) (fst st) (fst (snd out)) \<and>
     (snd (snd out) = None \<longleftrightarrow> snd st = None)"

lemma same_elsewhere_trans: "same_elsewhere i a b \<Longrightarrow> same_elsewhere i b c \<Longrightarrow> same_elsewhere i a c"
  by (simp add: same_elsewhere_def)

lemma fail_step_ok: "step_running step (fst st) \<Longrightarrow> outcome_ok step st (fail_step step err now st)"
  by (cases st) (auto simp: outcome_ok_def fail_step_def RecordStepFailure_def same_elsewhere_def step_recorded_def
      change_result_def step_running_def)

lemma complete_step_ok: "step_running step (fst st) \<Longrightarrow> outcome_ok step st (complete_step step output now st)"
  by (cases st) (auto simp: outcome_ok_def complete_step_def RecordStepSuccess_def same_elsewhere_def step_recorded_def
      change_result_def step_running_def)

lemma handleToolStepFailure_ok:
  "step_running step (fst st) \<Longrightarrow> outcome_ok step st (handleToolStepFailure step n e now st)"
  by (cases st) (auto simp: outcome_ok_def handleToolStepFailure_def RecordStepFailure_def set_retries_def step_recorded_def
      change_result_def step_running_def same_elsewhere_def Let_def split: option.splits)

lemma handleToolStepSuccess_ok:
  "step_running step (fst st) \<Longrightarrow> outcome_ok step st (handleToolStepSuccess env step output content n now st)"
  by (cases st) (auto simp: outcome_ok_def handleToolStepSuccess_def RecordStepSuccess_def set_retries_def step_recorded_def
      change_result_def step_running_def same_elsewhere_def checkpointWorkflowState_def split: option.splits)

lemmas basic_ok = fail_step_ok complete_step_ok handleToolStepFailure_ok handleToolStepSuccess_ok

lemma executeToolStep_ok: "step_running step (fst st) \<Longrightarrow> outcome_ok step st (executeToolStep env now step st)"
  by (auto simp: executeToolStep_def Let_def basic_ok split: sum.splits prod.splits)

lemma handleElicitationAction_ok:
  "step_running step (fst st) \<Longrightarrow> outcome_ok step st (handleElicitationAction step action reason now st)"
  by (simp add: handleElicitationAction_def basic_ok)

lemma executeElicitationStep_ok: "step_running step (fst st) \<Longrightarrow> outcome_ok step st (executeElicitationStep env now step st)"
  by (auto simp: executeElicitationStep_def handleElicitationTimeout_def handleElicitationAccept_def handleElicitationDecline_def
      handleElicitationCancel_def basic_ok handleElicitationAction_ok split: option.splits sum.splits)

lemma executeForEachStep_ok:
  assumes "step_running step (fst st)"
  shows "outcome_ok step st (executeForEachStep env now step st)"
proof -
  have fail: "outcome_ok step st (case fail_step step e now st of (err, ctx, store) \<Rightarrow>
     (err, change_result (ws_ID step) (\<lambda>r. r\<lparr>sr_Output := Some out\<rparr>) ctx, store))" for e out
    using assms by (cases st) (auto simp: outcome_ok_def fail_step_def RecordStepFailure_def step_recorded_def change_result_def
        step_running_def same_elsewhere_def)
  show ?thesis
  proof (cases "prepareForEachCollection env step (fst st)")
    case (Inl e)
    then show ?thesis using assms by (simp add: executeForEachStep_def basic_ok)
  next
    case (Inr items)
    show ?thesis unfolding executeForEachStep_def Inr sum.case Let_def
      using assms by (simp only: basic_ok fail split: if_split option.split) simp
  qed
qed

lemma executeStep_ok: "outcome_ok step st (executeStep env t0 t1 step st)"
proof -
  define st1 where "st1 = (RecordStepStart (ws_ID step) t0 (fst st), snd st)"
  have run: "step_running step (fst st1)" by (simp add: st1_def step_running_def RecordStepStart_def new_step_result_def)
  have same: "same_elsewhere (ws_ID step) (fst st) (fst st1)" by (simp add: st1_def same_elsewhere_def RecordStepStart_def)
  have skip: "outcome_ok step st1 (None, (RecordStepSkipped (ws_ID step) d t1 t1 (fst st1), snd st1))" for d
    by (simp add: outcome_ok_def step_recorded_def same_elsewhere_def RecordStepSkipped_def new_step_result_def st1_def)
  have "outcome_ok step st1 (dispatch_step env t1 step st1)"
    using run by (simp add: dispatch_step_def executeToolStep_ok executeElicitationStep_ok executeForEachStep_ok fail_step_ok
        split: StepType.splits)
  then have "outcome_ok step st1 (executeStep env t0 t1 step st)"
    using run skip by (auto simp: executeStep_def Let_def fail_step_ok simp flip: st1_def split: sum.splits)
  then show ?thesis using same_elsewhere_trans [OF same] by (simp add: outcome_ok_def st1_def)
qed

text \<open>
  Claim C12: every executed step is accounted for, whatever path its handler takes. After \<open>executeStep\<close> the context holds a
  result for the step: failed with exactly the returned error; or, when no error is returned, completed or skipped without an
  error, or failed for a step that continues on error. The results of all other steps and the rest of the context
  are as before.
\<close>

theorem executeStep_accounted:
  "case executeStep env t0 t1 step (ctx, store) of (err, (ctx', store')) \<Rightarrow>
     step_recorded step err ctx' \<and> same_elsewhere (ws_ID step) ctx ctx'"
  using executeStep_ok [of step "(ctx, store)" env t0 t1]
  by (cases "executeStep env t0 t1 step (ctx, store)") (auto simp: outcome_ok_def)

text \<open>
  A step for which the executor gets no error and which is not recorded as completed shows its default results as its output, and
  it has a condition or continues on error.
\<close>

definition defaults_shown :: "WorkflowStep \<Rightarrow> goerror option \<times> 's engine_state \<Rightarrow> bool" where
  "defaults_shown step out \<longleftrightarrow> (fst out = None \<longrightarrow> (\<forall>r. map_of (wc_Steps (fst (snd out))) (ws_ID step) = Some r \<longrightarrow>
     sr_Status r = StepStatusCompleted \<or> sr_Output r = ws_DefaultResults step \<and>
       (ws_Condition step \<noteq> '''' \<or> (\<exists>h. ws_OnError step = Some h \<and> eh_ContinueOnError h))))"

lemma fail_step_shown: "defaults_shown step (fail_step step err now st)"
  by (cases st) (simp add: defaults_shown_def fail_step_def)

lemma complete_step_shown: "defaults_shown step (complete_step step output now st)"
  by (cases st) (auto simp: defaults_shown_def complete_step_def RecordStepSuccess_def change_result_def split: option.splits)

lemma handleToolStepSuccess_shown: "defaults_shown step (handleToolStepSuccess env step output content n now st)"
  by (cases st) (auto simp: defaults_shown_def handleToolStepSuccess_def RecordStepSuccess_def set_retries_def change_result_def
      checkpointWorkflowState_def split: option.splits)

lemma handleToolStepFailure_shown:
  "\<exists>r. map_of (wc_Steps (fst st)) (ws_ID step) = Some r \<and> sr_Output r = None \<Longrightarrow>
   defaults_shown step (handleToolStepFailure step n e now st)"
  by (cases st) (auto simp: defaults_shown_def handleToolStepFailure_def RecordStepFailure_def set_retries_def change_result_def
      Let_def split: option.splits)

lemmas basic_shown = fail_step_shown complete_step_shown handleToolStepSuccess_shown handleToolStepFailure_shown

lemma dispatch_step_shown:
  assumes "\<exists>r. map_of (wc_Steps (fst st)) (ws_ID step) = Some r \<and> sr_Output r = None"
  shows "defaults_shown step (dispatch_step env t1 step st)"
proof -
  have tool: "defaults_shown step (executeToolStep env t1 step st)"
    using assms by (auto simp: executeToolStep_def Let_def basic_shown split: sum.splits prod.splits)
  have "defaults_shown step (handleElicitationAction step action reason t1 st)" for action reason
    by (simp add: handleElicitationAction_def basic_shown)
  then have elicitation: "defaults_shown step (executeElicitationStep env t1 step st)"
    by (auto simp: executeElicitationStep_def handleElicitationTimeout_def handleElicitationAccept_def handleElicitationDecline_def
        handleElicitationCancel_def basic_shown split: option.splits sum.splits)
  have fail: "defaults_shown step (case fail_step step e t1 st of (err, ctx, store) \<Rightarrow>
     (err, change_result (ws_ID step) (\<lambda>r. r\<lparr>sr_Output := Some out\<rparr>) ctx, store))" for e out
    by (cases st) (simp add: defaults_shown_def fail_step_def)
  have forEach: "defaults_shown step (executeForEachStep env t1 step st)"
  proof (cases "prepareForEachCollection env step (fst st)")
    case (Inr items)
    show ?thesis unfolding executeForEachStep_def Inr sum.case Let_def
      by (simp only: basic_shown fail split: if_split option.split) simp
  qed (simp add: executeForEachStep_def basic_shown)
  show ?thesis using tool elicitation forEach by (simp add: dispatch_step_def fail_step_shown split: StepType.splits)
qed

lemma executeStep_shown: "defaults_shown step (executeStep env t0 t1 step st)"
proof -
  have "\<exists>r. map_of (wc_Steps (RecordStepStart (ws_ID step) t0 (fst st))) (ws_ID step) = Some r \<and> sr_Output r = None"
    by (simp add: RecordStepStart_def new_step_result_def)
  then have "defaults_shown step (dispatch_step env t1 step (RecordStepStart (ws_ID step) t0 (fst st), snd st))"
    by (intro dispatch_step_shown) simp
  moreover have "defaults_shown step (None, (RecordStepSkipped (ws_ID step) (ws_DefaultResults step) t1 t1 ctx, store))"
    if "ws_Condition step \<noteq> ''''" for ctx store
    using that by (simp add: defaults_shown_def RecordStepSkipped_def new_step_result_def)
  ultimately show ?thesis by (auto simp: executeStep_def Let_def fail_step_shown split: sum.splits)
qed

section \<open>Retries and loop bounds\<close>









text \<open>
  Loops over collections are bounded. The number of iterations that a step may run lies between one and a thousand, its
  parallelism between one and fifty, whatever the definition configures; and a collection that passes the preparation
  is not longer than the limit.
\<close>

theorem forEach_bounded:
  "1 \<le> iteration_limit step \<and> iteration_limit step \<le> 1000 \<and>
   1 \<le> forEach_parallel (de_maxParallel (newDAGExecutor n)) step \<and> forEach_parallel (de_maxParallel (newDAGExecutor n)) step \<le> 50 \<and>
   (case prepareForEachCollection env step ctx of Inr items \<Rightarrow> int (length items) \<le> iteration_limit step | Inl e \<Rightarrow> True)"
proof -
  have "1 \<le> iteration_limit step" "iteration_limit step \<le> 1000"
    by (simp_all add: iteration_limit_def defaultMaxIterations_def MaxForEachIterations_def Let_def)
  moreover have "1 \<le> forEach_parallel (de_maxParallel (newDAGExecutor n)) step" "forEach_parallel (de_maxParallel (newDAGExecutor n)) step \<le> 50"
    by (simp_all add: forEach_parallel_def newDAGExecutor_def defaultMaxParallelSteps_def Let_def)
  moreover have "int (length items) \<le> iteration_limit step" if "prepareForEachCollection env step ctx = Inr items" for items
    using that by (simp add: prepareForEachCollection_def validateCollectionSize_def split: option.splits sum.splits if_splits)
  ultimately show ?thesis by (simp split: sum.splits)
qed

text \<open>
  Parameters are completed by their defaults and by nothing else. A parameter that the client provided keeps its value; one
  it left out gets the default of its property schema if there is one; no other parameter appears.
\<close>

theorem applyParameterDefaults_spec:
  assumes "map_of inputSchema ''properties'' = Some (JObject properties)" "gomap_ok properties"
  shows "map_of (applyParameterDefaults inputSchema params) k =
    (case map_of (case params of None \<Rightarrow> [] | Some p \<Rightarrow> p) k of Some v \<Rightarrow> Some v
     | None \<Rightarrow> Option.bind (map_of properties k) default_of)"
proof -
  have "map_of (fold apply_default properties ps) k =
      (case map_of ps k of Some v \<Rightarrow> Some v | None \<Rightarrow> Option.bind (map_of properties k) default_of)" for ps
    using assms(2)
  proof (induction properties arbitrary: ps)
    case (Cons p properties)
    obtain n schema where p: "p = (n, schema)" by fastforce
    have "map_of properties n = None" using Cons.prems p by (auto simp: gomap_ok_def map_of_eq_None_iff)
    moreover have "gomap_ok properties" using Cons.prems by (simp add: gomap_ok_def)
    ultimately show ?case using Cons.IH p by (auto simp: apply_default_def split: option.splits)
  qed (simp split: option.splits)
  then show ?thesis using assms(1) by (simp add: applyParameterDefaults_def)
qed

section \<open>An example\<close>

text \<open>A retry function that keeps the contract and an environment whose backend fails twice before it answers.\<close>

fun attempts :: "(nat \<Rightarrow> 'e + 'r) \<Rightarrow> nat \<Rightarrow> nat \<Rightarrow> ('e + 'r) \<times> nat" where
  "attempts op k 0 = (op k, k)"
| "attempts op k (Suc f) = (case op k of Inr v \<Rightarrow> (Inr v, k) | Inl e \<Rightarrow> attempts op (Suc k) f)"

definition plain_retry :: "duration \<Rightarrow> 64 word \<Rightarrow> (nat \<Rightarrow> goerror + ToolCallResult) \<Rightarrow> (goerror + ToolCallResult) \<times> nat" where
  "plain_retry delay tries op = attempts op 1 (unat tries - 1)"



definition example_result :: ToolCallResult where
  "example_result = \<lparr>tr_Content = [], tr_StructuredContent = Some [(''ok'', JBool True)], tr_IsError = False, tr_Meta = [], tr_BackendID = ''''\<rparr>"

definition example_target :: BackendTarget where
  "example_target = zero_BackendTarget\<lparr>t_WorkloadID := ''github''\<rparr>"

definition example_env :: "inMemoryStateStore engine_env" where
  "example_env = \<lparr>en_expand = (\<lambda>m ctx. Inr m), en_condition = (\<lambda>c ctx. Inr True), en_expandString = (\<lambda>s ctx. Inr s),
     en_expandForEach = (\<lambda>m ctx v. Inr m), en_unmarshal = (\<lambda>s. Some []), en_tryCoerce = (\<lambda>schema m. JObject m),
     en_paramHeaders = (\<lambda>schema m. Inr []), en_resolve = (\<lambda>n. n), en_route = (\<lambda>n. Inr example_target), en_tools = [],
     en_call = (\<lambda>target tool args headers n. if n < 3 then Inl (new_error ''unavailable'') else Inr (Some example_result)),
     en_retry = plain_retry, en_elicit = None, en_save = ims_SaveState, en_order = (\<lambda>i. []), en_cancelled = (\<lambda>i k. None)\<rparr>"

definition retrying_step :: WorkflowStep where
  "retrying_step = WorkflowStep ''fetch'' StepTypeTool ''git.read'' [] '''' []
     (Some \<lparr>eh_Action = ''retry'', eh_RetryCount = 50, eh_RetryDelay = 0, eh_ContinueOnError = False\<rparr>) None 0 [] None '''' '''' 0 0 None"


theorem applyParameterDefaults_spec_witness:
  "map_of (applyParameterDefaults [(''properties'', JObject [(''depth'', JObject [(''default'', JNumber ''3'')]), (''path'', JObject [])])]
     (Some [(''path'', JString ''/'')])) ''depth'' = Some (JNumber ''3'')"
proof -
  let ?props = "[(''depth'', JObject [(''default'', JNumber ''3'')]), (''path'', JObject [])]"
  have "map_of [(''properties'', JObject ?props)] ''properties'' = Some (JObject ?props)" by simp
  moreover have "gomap_ok ?props" by (simp add: gomap_ok_def)
  ultimately show ?thesis
    using applyParameterDefaults_spec [of "[(''properties'', JObject ?props)]" ?props "Some [(''path'', JString ''/'')]" "''depth''"]
    by (simp add: default_of_def)
qed

section \<open>Whole workflows\<close>

lemma same_elsewhere_lookup: "same_elsewhere i ctx ctx' \<Longrightarrow> j \<noteq> i \<Longrightarrow> map_of (wc_Steps ctx') j = map_of (wc_Steps ctx) j"
  unfolding same_elsewhere_def by (metis fun_upd_other)

lemma same_elsewhere_id: "same_elsewhere i ctx ctx' \<Longrightarrow> wc_WorkflowID ctx' = wc_WorkflowID ctx"
  unfolding same_elsewhere_def by (metis WorkflowContext.select_convs(1) WorkflowContext.surjective WorkflowContext.update_convs(3))

text \<open>While no identifier finishes twice, what a successful step recorded stays recorded.\<close>

definition run_recorded :: "string \<Rightarrow> 's engine_state \<Rightarrow> level_event list \<Rightarrow> bool" where
  "run_recorded w sh tr \<longleftrightarrow> wc_WorkflowID (fst sh) = w \<and>
     (distinct (map ws_ID (finished tr)) \<longrightarrow> (\<forall>s. Finished s None \<in> set tr \<longrightarrow> step_recorded s None (fst sh)))"

lemma run_recorded_finish:
  assumes inv: "run_recorded w sh tr" and exec: "stepExecutor env d s sh (err, sh')"
  shows "run_recorded w sh' (tr @ [Finished s err])"
  using exec unfolding stepExecutor_def
proof
  assume "\<exists>e. d = Some e \<and> (err, sh') = (Some e, sh)"
  then show ?thesis using inv by (auto simp: run_recorded_def)
next
  assume "\<exists>t0 t1. (err, sh') = executeStep env t0 t1 s sh"
  then obtain t0 t1 where "(err, sh') = executeStep env t0 t1 s sh" by blast
  then have "outcome_ok s sh (err, sh')" using executeStep_ok [of s sh env t0 t1] by simp
  then have ok: "step_recorded s err (fst sh')" "same_elsewhere (ws_ID s) (fst sh) (fst sh')" by (simp_all add: outcome_ok_def)
  have "step_recorded t None (fst sh')"
    if "distinct (map ws_ID (finished (tr @ [Finished s err])))" "Finished t None \<in> set (tr @ [Finished s err])" for t
  proof (cases "Finished t None \<in> set tr")
    case True
    then have "t \<in> set (finished tr)" by (auto simp: in_finished)
    then have "ws_ID t \<in> ws_ID ` set (finished tr)" by (rule imageI)
    moreover have "ws_ID s \<notin> ws_ID ` set (finished tr)" using that(1) by simp
    ultimately have "ws_ID t \<noteq> ws_ID s" by metis
    moreover have "step_recorded t None (fst sh)" using inv that(1) True by (simp add: run_recorded_def)
    ultimately show ?thesis using same_elsewhere_lookup [OF ok(2)] by (simp add: step_recorded_def)
  next
    case False
    then show ?thesis using that(2) ok(1) by auto
  qed
  then show ?thesis using inv same_elsewhere_id [OF ok(2)] by (simp add: run_recorded_def)
qed

lemma run_recorded_other: "run_recorded w sh tr \<Longrightarrow> (\<And>s err. e \<noteq> Finished s err) \<Longrightarrow> run_recorded w sh (tr @ [e])"
  by (cases e) (auto simp: run_recorded_def)

lemma stepExecutor_late: "stepExecutor env (Some e) step st (Some e, st)"
  by (simp add: stepExecutor_def)

lemma executeDAG_state:
  assumes "executeDAG ex (stepExecutor env) m steps (start_state others parent st0) st r"
  shows "wc_WorkflowID (fst (lv_shared st)) = wc_WorkflowID (fst st0) \<and> (snd (lv_shared st) = None \<longleftrightarrow> snd st0 = None)"
proof (rule executeDAG_invariant [OF assms, where P = "\<lambda>sh tr. wc_WorkflowID (fst sh) = wc_WorkflowID (fst st0) \<and> (snd sh = None \<longleftrightarrow> snd st0 = None)"])
  fix d s sh err sh' and tr :: "level_event list"
  assume inv: "wc_WorkflowID (fst sh) = wc_WorkflowID (fst st0) \<and> (snd sh = None \<longleftrightarrow> snd st0 = None)"
    and "stepExecutor env d s sh (err, sh')"
  then consider "sh' = sh" | t0 t1 where "(err, sh') = executeStep env t0 t1 s sh" unfolding stepExecutor_def by blast
  then show "wc_WorkflowID (fst sh') = wc_WorkflowID (fst st0) \<and> (snd sh' = None \<longleftrightarrow> snd st0 = None)"
  proof cases
    case (2 t0 t1)
    then have "outcome_ok s sh (err, sh')" using executeStep_ok [of s sh env t0 t1] by simp
    then have "same_elsewhere (ws_ID s) (fst sh) (fst sh')" "snd sh' = None \<longleftrightarrow> snd sh = None" by (simp_all add: outcome_ok_def)
    then show ?thesis using inv same_elsewhere_id [of "ws_ID s" "fst sh" "fst sh'"] by simp
  qed (use inv in simp)
qed (simp_all add: start_state_def)

lemma executeDAG_recorded:
  assumes "executeDAG ex (stepExecutor env) m steps (start_state others parent st0) st r" "wc_WorkflowID (fst st0) = w"
  shows "run_recorded w (lv_shared st) (lv_trace st)"
proof (rule executeDAG_invariant [OF assms(1), where P = "run_recorded w"])
  show "run_recorded w (lv_shared (start_state others parent st0)) (lv_trace (start_state others parent st0))"
    using assms(2) by (simp add: run_recorded_def start_state_def)
next
  fix d s sh err sh' tr
  assume "run_recorded w sh tr" "stepExecutor env d s sh (err, sh')"
  then show "run_recorded w sh' (tr @ [Finished s err])" by (rule run_recorded_finish)
next
  fix sh :: "'a engine_state" and tr e
  assume "run_recorded w sh tr" "\<And>s err. e \<noteq> Finished s err"
  then show "run_recorded w sh (tr @ [e])" by (rule run_recorded_other)
qed

text \<open>The result of \<open>ExecuteWorkflow\<close> and the error it returns say the same.\<close>

lemma conclude_cases:
  assumes "conclude_workflow env co d now result0 dagErr execErr st = (res, err, store)"
  shows "wr_Steps res = wc_Steps (fst st) \<and> wr_StartTime res = wr_StartTime result0 \<and> wr_Error res = err \<and> (wr_Status res = WorkflowStatusCompleted \<longleftrightarrow> err = None) \<and>
    (err = None \<longrightarrow> dagErr = None) \<and> wr_Status res \<in> {WorkflowStatusCompleted, WorkflowStatusFailed, WorkflowStatusTimedOut} \<and>
    (\<exists>ctx. wc_WorkflowID ctx = wc_WorkflowID (fst st) \<and> wc_Steps ctx = wc_Steps (fst st) \<and>
      store = save_final env (wr_Status res) (wr_StartTime result0) now (ctx, snd st))"
proof -
  have meta: "wc_Steps (updateWorkflowMetadata t s n ctx) = wc_Steps ctx"
    "wc_WorkflowID (updateWorkflowMetadata t s n ctx) = wc_WorkflowID ctx" for t s n ctx
    by (auto simp: updateWorkflowMetadata_def split: option.splits)
  show ?thesis
  proof (cases dagErr)
    case (Some e)
    then show ?thesis using assms
      by (auto simp: conclude_workflow_def Let_def finish_result_def split: if_splits intro!: exI [of _ "fst st"])
  next
    case None
    then show ?thesis using assms
      by (auto simp: conclude_workflow_def Let_def finish_result_def meta split: option.splits sum.splits
          intro!: exI [of _ "updateWorkflowMetadata (wr_StartTime result0) WorkflowStatusCompleted now (fst st)"])
  qed
qed

text \<open>
  Claim C2: a workflow that is reported as completed has run completely. Take a definition whose steps have different identifiers and
  that aborts on errors. When \<open>ExecuteWorkflow\<close> reports the status completed, it returns no error, and every step of the
  definition has a result that is completed or skipped, in every interleaving of the steps.
\<close>

theorem completed_workflow_ran_all:
  assumes "ExecuteWorkflow env constructOutput ex d params workflowID store (res, err, store') tr" "wr_Status res = WorkflowStatusCompleted"
    and "distinct (map ws_ID (wd_Steps d))" "wd_FailureMode d \<noteq> ''continue''"
    and "\<forall>s \<in> set (wd_Steps d). \<forall>h. ws_OnError s = Some h \<longrightarrow> \<not> eh_ContinueOnError h"
  shows "err = None \<and> (\<forall>s \<in> set (wd_Steps d). \<exists>r. map_of (wr_Steps res) (ws_ID s) = Some r \<and> sr_Error r = None \<and>
    sr_Status r \<in> {StepStatusCompleted, StepStatusSkipped})"
  using assms(1)
proof cases
  case (execute_workflow ctx createTime others parent startTime st dagErr execErr endTime)
  note concl = conclude_cases [OF execute_workflow(1) [symmetric]]
  then have none: "err = None" "dagErr = None" using assms(2) by auto
  let ?st0 = "start_state others parent (initial_state env ctx startTime store)"
  have strict: "\<not> shouldContinueOnError s (wd_FailureMode d)" if "s \<in> set (wd_Steps d)" for s
    using assms(4,5) that by (auto simp: shouldContinueOnError_def failureModeContinue_def split: option.splits)
  have rec: "run_recorded workflowID (lv_shared st) (lv_trace st)"
    by (rule executeDAG_recorded [OF execute_workflow(5)]) (simp add: execute_workflow(3) initial_state_def CreateContext_def Let_def)
  have "step_recorded s None (fst (lv_shared st))" if s: "s \<in> set (wd_Steps d)" for s
  proof -
    obtain levels where plan: "buildExecutionLevels (wd_Steps d) = Inr levels"
      using execute_workflow(5) none(2) s by (auto elim!: executeDAG_elim)
    have st0: "lv_trace ?st0 = []" "int (lv_others ?st0) \<le> de_maxParallel ex" using execute_workflow(4) by (simp_all add: start_state_def)
    note complete = executeDAG_complete [OF assms(3) execute_workflow(5) [unfolded none(2)] plan st0]
    have "group_error (wd_FailureMode d) (lv_trace st) = None" using conjunct1 [OF complete] by simp
    then have events: "\<forall>e \<in> set (lv_trace st). event_error (wd_FailureMode d) e = None" by (rule group_error_None [THEN iffD1])
    have all: "mset (finished (lv_trace st)) = mset (wd_Steps d)" using complete by blast
    then have "distinct (map ws_ID (finished (lv_trace st)))" using assms(3) by (metis mset_eq_imp_distinct_iff mset_map)
    moreover obtain r where "Finished s r \<in> set (lv_trace st)" using s all by (metis in_finished mset_eq_setD)
    moreover from this have "r = None" using events strict [OF s] by fastforce
    ultimately show ?thesis using rec by (simp add: run_recorded_def)
  qed
  moreover have "wr_Steps res = wc_Steps (fst (lv_shared st))" using concl by simp
  ultimately show ?thesis using none(1) assms(5) by (fastforce simp: step_recorded_def split: option.splits)
qed

definition example_definition :: "string \<Rightarrow> unit WorkflowDefinition" where
  "example_definition mode = \<lparr>wd_Name = ''report'', wd_Description = [], wd_Parameters = [], wd_Steps = [retrying_step],
     wd_Timeout = 0, wd_FailureMode = mode, wd_Output = None, wd_Annotations = None, wd_Metadata = []\<rparr>"

lemma example_execution:
  assumes "stepExecutor example_env parent retrying_step
      (initial_state example_env (fst (CreateContext ''w'' 1 (Some []) newWorkflowContextManager)) 2 store) (err, sh)"
    and "err = None \<or> shouldContinueOnError retrying_step mode"
  shows "ExecuteWorkflow example_env co (newDAGExecutor 0) (example_definition mode) None ''w'' store
      (conclude_workflow example_env co (example_definition mode) 9 (new_result ''w'' 2) None parent sh)
      [Started retrying_step, Finished retrying_step err]"
proof -
  define ctx where "ctx = fst (CreateContext ''w'' 1 (Some (applyParameterDefaults (wd_Parameters (example_definition mode)) None))
    newWorkflowContextManager)"
  have ctx: "ctx = fst (CreateContext ''w'' 1 (Some []) newWorkflowContextManager)"
    by (simp add: ctx_def example_definition_def applyParameterDefaults_def)
  let ?st = "start_state 0 parent (initial_state example_env ctx 2 store)"
  have "\<exists>st'. executeDAG (newDAGExecutor 0) (stepExecutor example_env) mode [retrying_step] ?st st' None \<and>
      lv_trace st' = lv_trace ?st @ [Started retrying_step, Finished retrying_step err] \<and> lv_shared st' = sh \<and> lv_parent st' = lv_parent ?st"
    by (rule single_run) (use assms ctx in \<open>simp_all add: retrying_step_def start_state_def newDAGExecutor_def defaultMaxParallelSteps_def\<close>)
  then obtain st' where st': "executeDAG (newDAGExecutor 0) (stepExecutor example_env) mode [retrying_step] ?st st' None"
      "lv_trace st' = [Started retrying_step, Finished retrying_step err]" "lv_shared st' = sh" "lv_parent st' = parent"
    by (auto simp: start_state_def)
  have "ExecuteWorkflow example_env co (newDAGExecutor 0) (example_definition mode) None ''w'' store
      (conclude_workflow example_env co (example_definition mode) 9 (new_result ''w'' 2) None parent (lv_shared st')) (lv_trace st')"
    by (rule execute_workflow [OF ctx_def]) (use st' in \<open>simp_all add: example_definition_def newDAGExecutor_def defaultMaxParallelSteps_def\<close>)
  then show ?thesis using st' by simp
qed

theorem completed_workflow_ran_all_witness:
  "\<exists>res store' tr. ExecuteWorkflow example_env (\<lambda>o' ctx. Inr []) (newDAGExecutor 0) (example_definition ''abort'') None ''w'' None
      (res, None, store') tr \<and> wr_Status res = WorkflowStatusCompleted \<and>
    (\<exists>r. map_of (wr_Steps res) ''fetch'' = Some r \<and> sr_Status r \<in> {StepStatusCompleted, StepStatusSkipped})"
proof -
  let ?d = "example_definition ''abort''"
  obtain sh where exec: "stepExecutor example_env None retrying_step
      (initial_state example_env (fst (CreateContext ''w'' 1 (Some []) newWorkflowContextManager)) 2 None) (None, sh)"
  proof -
    have call: "callToolWithRetry example_env example_target retrying_step [] = (Inr example_result, 2)" by code_simp
    have "fst (executeStep example_env 3 4 retrying_step st) = None" for st
      using call by (cases st) (simp add: executeStep_def dispatch_step_def executeToolStep_def retrying_step_def example_env_def
          coerce_args_def handleToolStepSuccess_def Let_def)
    then show ?thesis using that unfolding stepExecutor_def by (metis prod.collapse)
  qed
  obtain res err store' where c: "conclude_workflow example_env (\<lambda>o' ctx. Inr []) ?d 9 (new_result ''w'' 2) None None sh = (res, err, store')"
    using prod_cases3 by blast
  have err: "err = None" "wr_Status res = WorkflowStatusCompleted"
    using c by (auto simp: conclude_workflow_def example_definition_def Let_def finish_result_def)
  note run = example_execution [OF exec, of "''abort''" "\<lambda>o' ctx. Inr []", unfolded c err(1)]
  have run': "ExecuteWorkflow example_env (\<lambda>o' ctx. Inr []) (newDAGExecutor 0) ?d None ''w'' None (res, None, store')
      [Started retrying_step, Finished retrying_step None]" using run by simp
  have "distinct (map ws_ID (wd_Steps ?d))" "wd_FailureMode ?d \<noteq> ''continue''"
    "\<forall>s \<in> set (wd_Steps ?d). \<forall>h. ws_OnError s = Some h \<longrightarrow> \<not> eh_ContinueOnError h"
    by (simp_all add: example_definition_def retrying_step_def)
  note all = completed_workflow_ran_all [OF run' err(2) this]
  have "retrying_step \<in> set (wd_Steps ?d)" "ws_ID retrying_step = ''fetch''" by (simp_all add: example_definition_def retrying_step_def)
  then have "\<exists>r. map_of (wr_Steps res) ''fetch'' = Some r \<and> sr_Status r \<in> {StepStatusCompleted, StepStatusSkipped}" using all by fastforce
  then show ?thesis using run' err(2) by blast
qed

text \<open>
  Claim C37: in the failure mode continue, a workflow whose deadline has passed can be reported as completed although it ran nothing.
  A step that starts after the deadline returns the error of the context; the executor takes it for an error to continue after, so
  \<open>executeDAG\<close> returns nil and the check for the deadline is never reached.
\<close>

theorem late_workflow_reported_completed:
  "\<exists>res store' e. ExecuteWorkflow example_env (\<lambda>o' ctx. Inr []) (newDAGExecutor 0) (example_definition ''continue'') None ''w'' None
      (res, None, store') [Started retrying_step, Finished retrying_step (Some e)] \<and>
    errors_Is e context_DeadlineExceeded \<and> wr_Status res = WorkflowStatusCompleted \<and> wr_Steps res = []"
proof -
  let ?e = "\<lparr>err_chain = [context_DeadlineExceeded], err_text = ''context deadline exceeded''\<rparr>"
  let ?sh = "initial_state example_env (fst (CreateContext ''w'' 1 (Some []) newWorkflowContextManager)) 2 None"
  have "stepExecutor example_env (Some ?e) retrying_step ?sh (Some ?e, ?sh)" by (rule stepExecutor_late)
  then have run: "ExecuteWorkflow example_env (\<lambda>o' ctx. Inr []) (newDAGExecutor 0) (example_definition ''continue'') None ''w'' None
      (conclude_workflow example_env (\<lambda>o' ctx. Inr []) (example_definition ''continue'') 9 (new_result ''w'' 2) None (Some ?e) ?sh)
      [Started retrying_step, Finished retrying_step (Some ?e)]"
    by (rule example_execution) (simp add: shouldContinueOnError_def failureModeContinue_def retrying_step_def)
  obtain res err store' where c: "conclude_workflow example_env (\<lambda>o' ctx. Inr []) (example_definition ''continue'') 9 (new_result ''w'' 2)
      None (Some ?e) ?sh = (res, err, store')" using prod_cases3 by blast
  then have "err = None" "wr_Status res = WorkflowStatusCompleted" "wr_Steps res = []"
    by (auto simp: conclude_workflow_def example_definition_def Let_def finish_result_def initial_state_def CreateContext_def)
  moreover have "errors_Is ?e context_DeadlineExceeded" by (simp add: errors_Is_def)
  ultimately show ?thesis using run [unfolded c] by blast
qed

lemma ims_load_saved:
  "i \<noteq> '''' \<Longrightarrow> ims_LoadState i (snd (ims_SaveState now i (Some st) s)) = Inr (st\<lparr>wst_LastUpdateTime := now\<rparr>)"
  by (simp add: ims_defs)

text \<open>
  The status store agrees with the result. When \<open>ExecuteWorkflow\<close> returns, the in-memory store holds, under the identifier of the
  workflow, the status of the result, which is a terminal one, its start time, and the identifiers of exactly the steps that completed; the
  returned error is the one of the result, and it is nil exactly when the status is completed.
\<close>

theorem final_status_saved:
  assumes "ExecuteWorkflow env constructOutput ex d params workflowID (Some s) (res, err, store') tr" "en_save env = ims_SaveState" "workflowID \<noteq> ''''"
  shows "wr_Error res = err \<and> (err = None \<longleftrightarrow> wr_Status res = WorkflowStatusCompleted) \<and> terminal_status (wr_Status res) \<and>
    (\<exists>s' fin. store' = Some s' \<and> ims_LoadState workflowID s' = Inr fin \<and> wst_Status fin = wr_Status res \<and>
       wst_StartTime fin = wr_StartTime res \<and> set (wst_CompletedSteps fin) = {i. \<exists>r. (i, r) \<in> set (wr_Steps res) \<and> sr_Status r = StepStatusCompleted})"
  using assms(1)
proof cases
  case (execute_workflow ctx createTime others parent startTime st dagErr execErr endTime)
  note concl = conclude_cases [OF execute_workflow(1) [symmetric]]
  have "wc_WorkflowID (fst (lv_shared st)) = workflowID" "snd (lv_shared st) \<noteq> None"
    using executeDAG_state [OF execute_workflow(5)] by (simp_all add: execute_workflow(3) initial_state_def CreateContext_def Let_def)
  then obtain c s1 where sh: "lv_shared st = (c, Some s1)" "wc_WorkflowID c = workflowID" by (metis prod.collapse option.exhaust)
  obtain ctx' where ctx': "wc_WorkflowID ctx' = workflowID" "wc_Steps ctx' = wr_Steps res"
      "store' = save_final env (wr_Status res) (wr_StartTime res) endTime (ctx', Some s1)"
    using concl sh by auto
  then have "store' = Some (snd (ims_SaveState endTime workflowID
      (Some ((buildWorkflowStatus ctx' (wr_Status res) endTime)\<lparr>wst_StartTime := wr_StartTime res\<rparr>)) s1))"
    using assms(2) by (simp add: save_final_def)
  moreover have "terminal_status (wr_Status res)" using concl by (auto simp: terminal_status_def)
  moreover have "set (wst_CompletedSteps (buildWorkflowStatus ctx' (wr_Status res) endTime)) =
      {i. \<exists>r. (i, r) \<in> set (wr_Steps res) \<and> sr_Status r = StepStatusCompleted}"
    using ctx'(2) by (force simp: buildWorkflowStatus_def)
  ultimately show ?thesis using concl ims_load_saved [OF assms(3)] by (auto simp: buildWorkflowStatus_def)
qed

theorem final_status_saved_witness:
  "\<exists>res err s' tr fin. ExecuteWorkflow example_env (\<lambda>o' ctx. Inr []) (newDAGExecutor 0) (example_definition ''continue'') None ''w''
      (Some (NewInMemoryStateStore 0 0)) (res, err, Some s') tr \<and> ims_LoadState ''w'' s' = Inr fin \<and> wst_Status fin = wr_Status res"
proof -
  let ?d = "example_definition ''continue''" and ?s = "NewInMemoryStateStore 0 0"
  let ?sh = "initial_state example_env (fst (CreateContext ''w'' 1 (Some []) newWorkflowContextManager)) 2 (Some ?s)"
  have "stepExecutor example_env (Some context_canceled) retrying_step ?sh (Some context_canceled, ?sh)" by (rule stepExecutor_late)
  then have run: "ExecuteWorkflow example_env (\<lambda>o' ctx. Inr []) (newDAGExecutor 0) ?d None ''w'' (Some ?s)
      (conclude_workflow example_env (\<lambda>o' ctx. Inr []) ?d 9 (new_result ''w'' 2) None (Some context_canceled) ?sh)
      [Started retrying_step, Finished retrying_step (Some context_canceled)]"
    by (rule example_execution) (simp add: shouldContinueOnError_def failureModeContinue_def retrying_step_def)
  obtain res err store' where c: "conclude_workflow example_env (\<lambda>o' ctx. Inr []) ?d 9 (new_result ''w'' 2)
      None (Some context_canceled) ?sh = (res, err, store')" using prod_cases3 by blast
  have "en_save example_env = ims_SaveState" "''w'' \<noteq> ''''" by (simp_all add: example_env_def)
  from final_status_saved [OF run [unfolded c] this] run [unfolded c] show ?thesis by blast
qed

end
