(* ===== verification/Auth_Types.thy ===== *)
theory Auth_Types
  imports Go_Prelude
begin

text \<open>
  The data of the authorization server's storage (\<open>pkg/authserver/storage/types.go\<close> and \<open>config.go\<close>): the
  sentinel errors, the lifetimes, the stored records, the canonical keys and the validation every
  backend applies.

  Values of fosite's interfaces \<open>Client\<close>, \<open>Requester\<close> and \<open>Session\<close> are records of what the storage asks of
  them: the identifier of a client and whether its concrete type carries the marker of this server's
  registration package, the identifier of a request, and the expiry per kind of token of a session. SHA-256
  is the argument \<open>sha256\<close>, the hexadecimal digest of the bytes written.
\<close>

section \<open>Errors\<close>

datatype storage_sentinel = Storage_ErrNotFound | Storage_ErrExpired | Storage_ErrAlreadyExists | Storage_ErrInvalidBinding
  | Storage_ErrClientCapacity | Fosite_ErrNotFound | Fosite_ErrInvalidRequest | Fosite_ErrJTIKnown
  | Fosite_ErrInvalidatedAuthorizeCode

record storage_error =
  se_chain :: "storage_sentinel list"
  se_hint :: string

definition storage_error_Is :: "storage_error \<Rightarrow> storage_sentinel \<Rightarrow> bool" where
  "storage_error_Is e s \<longleftrightarrow> s \<in> set (se_chain e)"

definition invalid_request :: "string \<Rightarrow> storage_error" where
  "invalid_request hint = \<lparr>se_chain = [Fosite_ErrInvalidRequest], se_hint = hint\<rparr>"

definition storage_not_found :: "string \<Rightarrow> storage_error" where
  "storage_not_found hint = \<lparr>se_chain = [Storage_ErrNotFound, Fosite_ErrNotFound], se_hint = hint\<rparr>"

section \<open>Lifetimes\<close>

definition minute :: duration where
  "minute = 60 * 1000000000"

definition hour :: duration where
  "hour = 60 * minute"

definition DefaultCleanupInterval :: duration where
  "DefaultCleanupInterval = 5 * minute"

definition DefaultAccessTokenTTL :: duration where
  "DefaultAccessTokenTTL = 1 * hour"

definition DefaultRefreshTokenTTL :: duration where
  "DefaultRefreshTokenTTL = 30 * 24 * hour"

definition DefaultAuthCodeTTL :: duration where
  "DefaultAuthCodeTTL = 10 * minute"

definition DefaultInvalidatedCodeTTL :: duration where
  "DefaultInvalidatedCodeTTL = 30 * minute"

definition DefaultPKCETTL :: duration where
  "DefaultPKCETTL = 10 * minute"

definition DefaultPendingAuthorizationTTL :: duration where
  "DefaultPendingAuthorizationTTL = 10 * minute"

definition IsZero :: "gotime \<Rightarrow> bool" where
  "IsZero t \<longleftrightarrow> t = 0"

section \<open>Stored values\<close>

record Client =
  cli_GetID :: string
  cli_dcrIssued :: bool

definition DCRIssued :: "Client \<Rightarrow> bool" where
  "DCRIssued c = cli_dcrIssued c"

datatype TokenType = AccessToken | RefreshToken | AuthorizeCode

instantiation TokenType :: enum
begin

definition enum_TokenType :: "TokenType list" where
  "enum_TokenType = [AccessToken, RefreshToken, AuthorizeCode]"

definition enum_all_TokenType :: "(TokenType \<Rightarrow> bool) \<Rightarrow> bool" where
  "enum_all_TokenType P \<longleftrightarrow> P AccessToken \<and> P RefreshToken \<and> P AuthorizeCode"

definition enum_ex_TokenType :: "(TokenType \<Rightarrow> bool) \<Rightarrow> bool" where
  "enum_ex_TokenType P \<longleftrightarrow> P AccessToken \<or> P RefreshToken \<or> P AuthorizeCode"

instance
proof
  have split: "UNIV = {AccessToken, RefreshToken, AuthorizeCode}" by (auto intro: TokenType.exhaust)
  then show "UNIV = set (enum_class.enum :: TokenType list)" by (simp add: enum_TokenType_def)
  show "distinct (enum_class.enum :: TokenType list)" by (simp add: enum_TokenType_def)
  show "enum_class.enum_all P \<longleftrightarrow> Ball UNIV P" for P :: "TokenType \<Rightarrow> bool" by (simp add: enum_all_TokenType_def split)
  show "enum_class.enum_ex P \<longleftrightarrow> Bex UNIV P" for P :: "TokenType \<Rightarrow> bool" by (simp add: enum_ex_TokenType_def split)
qed

end

type_synonym Session = "TokenType \<Rightarrow> gotime"

record Requester =
  rq_GetID :: string
  rq_GetSession :: "Session option"

record UpstreamTokens =
  ut_ProviderID :: string
  ut_AccessToken :: string
  ut_RefreshToken :: string
  ut_IDToken :: string
  ut_ExpiresAt :: gotime
  ut_SessionExpiresAt :: gotime
  ut_UserID :: string
  ut_UpstreamSubject :: string
  ut_ClientID :: string

definition UpstreamTokens_IsExpired :: "UpstreamTokens option \<Rightarrow> gotime \<Rightarrow> bool" where
  "UpstreamTokens_IsExpired t now = (case t of None \<Rightarrow> True | Some t \<Rightarrow> \<not> IsZero (ut_ExpiresAt t) \<and> now > ut_ExpiresAt t)"

record DCRKey =
  dk_Issuer :: string
  dk_UpstreamID :: string
  dk_RedirectURI :: string
  dk_ScopesHash :: string

record DCRCredentials =
  dc_Key :: DCRKey
  dc_ProviderName :: string
  dc_ClientID :: string
  dc_ClientSecret :: string
  dc_TokenEndpointAuthMethod :: string
  dc_RegistrationAccessToken :: string
  dc_RegistrationClientURI :: string
  dc_AuthorizationEndpoint :: string
  dc_TokenEndpoint :: string
  dc_CreatedAt :: gotime
  dc_ClientSecretExpiresAt :: gotime

record User =
  user_ID :: string
  user_CreatedAt :: gotime
  user_UpdatedAt :: gotime

record ProviderIdentity =
  pi_UserID :: string
  pi_ProviderID :: string
  pi_ProviderSubject :: string
  pi_LinkedAt :: gotime
  pi_LastUsedAt :: gotime

record PendingAuthorization =
  pa_ClientID :: string
  pa_RedirectURI :: string
  pa_State :: string
  pa_PKCEChallenge :: string
  pa_PKCEMethod :: string
  pa_Scopes :: "string list"
  pa_InternalState :: string
  pa_UpstreamPKCEVerifier :: string
  pa_UpstreamNonce :: string
  pa_UpstreamProviderName :: string
  pa_SessionID :: string
  pa_ResolvedUserID :: string
  pa_ResolvedUserName :: string
  pa_ResolvedUserEmail :: string
  pa_SingleLeg :: bool
  pa_ChainUpstreams :: "string list"
  pa_CreatedAt :: gotime

section \<open>Canonical keys\<close>

fun write_lines :: "string list \<Rightarrow> string" where
  "write_lines [] = []"
| "write_lines [s] = s"
| "write_lines (s # ss) = s @ CHR 0x0A # write_lines ss"

definition ScopesHash :: "(string \<Rightarrow> string) \<Rightarrow> string list \<Rightarrow> string" where
  "ScopesHash sha256 scopes = sha256 (write_lines (remdups_adj (sort scopes)))"

definition row_bytes :: "string list \<Rightarrow> string" where
  "row_bytes components = concat (map (\<lambda>c. show_nat (length c) @ CHR '':'' # c) components)"

definition upstreamTokenRowID :: "(string \<Rightarrow> string) \<Rightarrow> string list \<Rightarrow> string" where
  "upstreamTokenRowID sha256 components = sha256 (row_bytes components)"

definition providerIdentityKey :: "string \<Rightarrow> string \<Rightarrow> string" where
  "providerIdentityKey providerID providerSubject =
     show_nat (length providerID) @ CHR '':'' # providerID @ CHR '':'' # providerSubject"

definition validateDCRCredentialsForStore :: "DCRCredentials option \<Rightarrow> storage_error option" where
  "validateDCRCredentialsForStore creds = (case creds of
     None \<Rightarrow> Some (invalid_request ''dcr credentials cannot be nil'')
   | Some c \<Rightarrow>
       if dk_Issuer (dc_Key c) = '''' then Some (invalid_request ''dcr credentials key issuer cannot be empty'')
       else if dk_UpstreamID (dc_Key c) = '''' then Some (invalid_request ''dcr credentials key upstream_id cannot be empty'')
       else if dk_RedirectURI (dc_Key c) = '''' then Some (invalid_request ''dcr credentials key redirect_uri cannot be empty'')
       else if dk_ScopesHash (dc_Key c) = '''' then Some (invalid_request ''dcr credentials key scopes_hash cannot be empty'')
       else if dc_ClientID c = '''' then Some (invalid_request ''dcr credentials client_id cannot be empty'')
       else if dc_AuthorizationEndpoint c = '''' then Some (invalid_request ''dcr credentials authorization_endpoint cannot be empty'')
       else if dc_TokenEndpoint c = '''' then Some (invalid_request ''dcr credentials token_endpoint cannot be empty'')
       else None)"

section \<open>The keys are unambiguous\<close>

lemma colon_not_digit: "CHR '':'' \<notin> set (show_nat n)"
proof (induction n rule: less_induct)
  case (less n)
  have digit: "CHR '':'' \<noteq> (char_of (48 + k) :: char)" if "k < 10" for k :: nat
  proof
    assume "CHR '':'' = (char_of (48 + k) :: char)"
    then have "(of_char (CHR '':'') :: nat) = of_char (char_of (48 + k) :: char)" by (rule arg_cong)
    then show False using that by (simp add: of_char_of del: char_of_eq_iff)
  qed
  show ?case using less.IH [of "n div 10"] digit [of n] digit [of "n mod 10"]
    by (cases "n < 10") (simp_all add: show_nat.simps [of n])
qed

lemma length_prefix_unique:
  assumes "show_nat (length a) @ CHR '':'' # a @ r = show_nat (length b) @ CHR '':'' # b @ r'"
  shows "a = b \<and> r = r'"
proof -
  have "show_nat (length a) = show_nat (length b) \<and> a @ r = b @ r'"
    by (rule separator_unique [OF colon_not_digit colon_not_digit assms])
  then show ?thesis using show_nat_inj by auto
qed

lemma providerIdentityKey_inj:
  "providerIdentityKey p s = providerIdentityKey p' s' \<longleftrightarrow> p = p' \<and> s = s'"
  using length_prefix_unique [of p "CHR '':'' # s" p' "CHR '':'' # s'"] by (auto simp: providerIdentityKey_def)

lemma row_bytes_inj: "row_bytes cs = row_bytes ds \<Longrightarrow> cs = ds"
proof (induction cs arbitrary: ds)
  case Nil
  then show ?case by (cases ds) (auto simp: row_bytes_def)
next
  case (Cons c cs)
  from Cons.prems obtain d ds' where ds: "ds = d # ds'" by (cases ds) (auto simp: row_bytes_def)
  have "show_nat (length c) @ CHR '':'' # c @ row_bytes cs = show_nat (length d) @ CHR '':'' # d @ row_bytes ds'"
    using Cons.prems by (simp add: row_bytes_def ds)
  from length_prefix_unique [OF this] show ?case using Cons.IH ds by simp
qed

lemma write_lines_inj:
  assumes "\<forall>s \<in> set ss \<union> set ts. CHR 0x0A \<notin> set s \<and> s \<noteq> []" "write_lines ss = write_lines ts"
  shows "ss = ts"
  using assms
proof (induction ss arbitrary: ts rule: write_lines.induct)
  case 1
  then show ?case by (cases ts rule: write_lines.cases) auto
next
  case (2 s)
  have "CHR 0x0A \<in> set (write_lines (u # v # us))" for u v us by simp
  then show ?case using 2 by (cases ts rule: write_lines.cases) fastforce+
next
  case (3 s s' ss)
  show ?case
  proof (cases ts rule: write_lines.cases)
    case 1
    then show ?thesis using 3 by simp
  next
    case (2 t)
    then have "CHR 0x0A \<in> set t" using 3(3) by (metis write_lines.simps(2,3) in_set_conv_decomp)
    then show ?thesis using 3(2) 2 by simp
  next
    case (3 t t' us)
    have "s = t \<and> write_lines (s' # ss) = write_lines (t' # us)"
      by (rule separator_unique [of "CHR 0x0A"]) (use 3 "3.prems" in auto)
    then show ?thesis using "3.IH" [of "t' # us"] "3.prems"(1) 3 by simp
  qed
qed

lemma distinct_compact: "sorted xs \<Longrightarrow> distinct (remdups_adj xs)" for xs :: "'a :: linorder list"
  by (induction xs rule: remdups_adj.induct) auto

lemma canonical_scopes:
  fixes xs ys :: "string list"
  shows "remdups_adj (sort xs) = remdups_adj (sort ys) \<longleftrightarrow> set xs = set ys"
proof
  assume "set xs = set ys"
  then have "set (remdups_adj (sort xs)) = set (remdups_adj (sort ys))" by simp
  then show "remdups_adj (sort xs) = remdups_adj (sort ys)"
    by (intro sorted_distinct_set_unique) (simp_all add: sorted_remdups_adj distinct_compact)
next
  assume "remdups_adj (sort xs) = remdups_adj (sort ys)"
  then have "set (remdups_adj (sort xs)) = set (remdups_adj (sort ys))" by simp
  then show "set xs = set ys" by simp
qed

end
