(* ===== verification/Auth_Memory.thy ===== *)
theory Auth_Memory
  imports Auth_Types
begin

text \<open>
  The in-memory storage of the authorization server (\<open>pkg/authserver/storage/memory.go\<close>): every method as a
  function of the storage, and the system of the storage with its cleanup goroutine as a step relation. Each
  method holds the mutex for its whole body, so it is one step; the cleanup reads the expired keys under
  one lock and deletes them under another, so it is two. An operation that reads the clock takes the values it
  reads as arguments.
\<close>

section \<open>State\<close>

record 'a timedEntry =
  te_value :: 'a
  te_createdAt :: gotime
  te_expiresAt :: gotime

type_synonym upstreamKey = "string \<times> string"

record clientOrderEntry =
  co_id :: string
  co_touchedAt :: gotime

record MemoryStorage =
  ms_clients :: "(string, Client) gomap"
  ms_clientOrder :: "clientOrderEntry list"
  ms_maxClients :: int
  ms_minClientAge :: duration
  ms_authCodes :: "(string, Requester timedEntry) gomap"
  ms_accessTokens :: "(string, Requester timedEntry) gomap"
  ms_refreshTokens :: "(string, Requester timedEntry) gomap"
  ms_pkceRequests :: "(string, Requester timedEntry) gomap"
  ms_upstreamTokens :: "(upstreamKey, UpstreamTokens option timedEntry) gomap"
  ms_pendingAuthorizations :: "(string, PendingAuthorization option timedEntry) gomap"
  ms_invalidatedCodes :: "(string, bool timedEntry) gomap"
  ms_clientAssertionJWTs :: "(string, gotime) gomap"
  ms_users :: "(string, User) gomap"
  ms_providerIdentities :: "(string, ProviderIdentity) gomap"
  ms_dcrCredentials :: "(DCRKey, DCRCredentials) gomap"
  ms_cleanupInterval :: duration

datatype MemoryStorageOption = WithCleanupInterval duration | WithMaxClients int | WithMinClientAge duration

definition DefaultMaxClients :: int where
  "DefaultMaxClients = 10000"

definition DefaultMinClientAge :: duration where
  "DefaultMinClientAge = hour"

primrec apply_option :: "MemoryStorageOption \<Rightarrow> MemoryStorage \<Rightarrow> MemoryStorage" where
  "apply_option (WithCleanupInterval interval) s = s\<lparr>ms_cleanupInterval := interval\<rparr>"
| "apply_option (WithMaxClients n) s = s\<lparr>ms_maxClients := n\<rparr>"
| "apply_option (WithMinClientAge d) s = s\<lparr>ms_minClientAge := d\<rparr>"

definition NewMemoryStorage :: "MemoryStorageOption list \<Rightarrow> MemoryStorage" where
  "NewMemoryStorage opts = fold apply_option opts
     \<lparr>ms_clients = [], ms_clientOrder = [], ms_maxClients = DefaultMaxClients, ms_minClientAge = DefaultMinClientAge,
      ms_authCodes = [], ms_accessTokens = [], ms_refreshTokens = [], ms_pkceRequests = [], ms_upstreamTokens = [],
      ms_pendingAuthorizations = [], ms_invalidatedCodes = [], ms_clientAssertionJWTs = [], ms_users = [],
      ms_providerIdentities = [], ms_dcrCredentials = [], ms_cleanupInterval = DefaultCleanupInterval\<rparr>"

definition getExpirationFromRequester :: "Requester option \<Rightarrow> TokenType \<Rightarrow> duration \<Rightarrow> gotime \<Rightarrow> gotime" where
  "getExpirationFromRequester request tokenType defaultTTL now = (case request of None \<Rightarrow> now + defaultTTL
     | Some r \<Rightarrow> (case rq_GetSession r of None \<Rightarrow> now + defaultTTL
        | Some session \<Rightarrow> if IsZero (session tokenType) then now + defaultTTL else session tokenType))"

section \<open>Clients\<close>

fun evictable_from :: "nat \<Rightarrow> clientOrderEntry list \<Rightarrow> gotime \<Rightarrow> MemoryStorage \<Rightarrow> nat option" where
  "evictable_from i [] now s = None"
| "evictable_from i (entry # rest) now s =
     (if now - co_touchedAt entry < ms_minClientAge s then evictable_from (Suc i) rest now s
      else case map_of (ms_clients s) (co_id entry) of
        Some client \<Rightarrow> if DCRIssued client then Some i else evictable_from (Suc i) rest now s
      | None \<Rightarrow> evictable_from (Suc i) rest now s)"

definition oldestEvictableClientIndex :: "gotime \<Rightarrow> MemoryStorage \<Rightarrow> nat option" where
  "oldestEvictableClientIndex now s = evictable_from 0 (ms_clientOrder s) now s"

definition place_client :: "Client \<Rightarrow> gotime \<Rightarrow> MemoryStorage \<Rightarrow> MemoryStorage" where
  "place_client client now s = s\<lparr>ms_clientOrder := ms_clientOrder s @ [\<lparr>co_id = cli_GetID client, co_touchedAt = now\<rparr>],
     ms_clients := AList.update (cli_GetID client) client (ms_clients s)\<rparr>"

definition forget_position :: "string \<Rightarrow> MemoryStorage \<Rightarrow> MemoryStorage" where
  "forget_position i s = s\<lparr>ms_clientOrder := filter (\<lambda>e. co_id e \<noteq> i) (ms_clientOrder s)\<rparr>"

definition evict :: "nat \<Rightarrow> MemoryStorage \<Rightarrow> MemoryStorage" where
  "evict idx s = s\<lparr>ms_clientOrder := take idx (ms_clientOrder s) @ drop (Suc idx) (ms_clientOrder s),
     ms_clients := AList.delete (co_id (ms_clientOrder s ! idx)) (ms_clients s)\<rparr>"

definition client_capacity :: storage_error where
  "client_capacity = \<lparr>se_chain = [Storage_ErrClientCapacity], se_hint = ''no DCR-issued client can be safely evicted''\<rparr>"

definition RegisterClient :: "Client \<Rightarrow> gotime \<Rightarrow> MemoryStorage \<Rightarrow> storage_error option \<times> MemoryStorage" where
  "RegisterClient client now s =
     (if map_of (ms_clients s) (cli_GetID client) \<noteq> None
      then (None, place_client client now (forget_position (cli_GetID client) s))
      else if ms_maxClients s > 0 \<and> int (length (ms_clients s)) \<ge> ms_maxClients s
      then (case oldestEvictableClientIndex now s of
              Some idx \<Rightarrow> (None, place_client client now (evict idx s))
            | None \<Rightarrow> (Some client_capacity, s))
      else (None, place_client client now s))"

definition RenewClientTTL :: "Client option \<Rightarrow> gotime \<Rightarrow> MemoryStorage \<Rightarrow> storage_error option \<times> MemoryStorage" where
  "RenewClientTTL client now s = (case client of None \<Rightarrow> (None, s)
     | Some c \<Rightarrow>
         if \<not> DCRIssued c then (None, s)
         else if map_of (ms_clients s) (cli_GetID c) = None then (None, s)
         else (None, let s1 = forget_position (cli_GetID c) s in
           s1\<lparr>ms_clientOrder := ms_clientOrder s1 @ [\<lparr>co_id = cli_GetID c, co_touchedAt = now\<rparr>]\<rparr>))"

definition GetClient :: "string \<Rightarrow> MemoryStorage \<Rightarrow> storage_error + Client" where
  "GetClient i s = (case map_of (ms_clients s) i of None \<Rightarrow> Inl (storage_not_found ''Client not found'') | Some c \<Rightarrow> Inr c)"

section \<open>Assertions\<close>

definition ClientAssertionJWTValid :: "string \<Rightarrow> gotime \<Rightarrow> MemoryStorage \<Rightarrow> storage_error option" where
  "ClientAssertionJWTValid jti now s = (case map_of (ms_clientAssertionJWTs s) jti of
     Some exp \<Rightarrow> if now < exp then Some \<lparr>se_chain = [Fosite_ErrJTIKnown], se_hint = ''''\<rparr> else None
   | None \<Rightarrow> None)"

definition SetClientAssertionJWT :: "string \<Rightarrow> gotime \<Rightarrow> gotime \<Rightarrow> MemoryStorage \<Rightarrow> storage_error option \<times> MemoryStorage" where
  "SetClientAssertionJWT jti exp now s = (None, s\<lparr>ms_clientAssertionJWTs :=
     AList.update jti exp (filter (\<lambda>(k, v). \<not> now > v) (ms_clientAssertionJWTs s))\<rparr>)"

section \<open>Authorization codes, tokens and PKCE requests\<close>

type_synonym request_map = "(string, Requester timedEntry) gomap"

definition store_request :: "string \<Rightarrow> TokenType \<Rightarrow> duration \<Rightarrow> string \<Rightarrow> Requester option \<Rightarrow> gotime \<Rightarrow> gotime \<Rightarrow>
    request_map \<Rightarrow> storage_error + request_map" where
  "store_request what tokenType ttl key request now now' m =
     (if key = '''' then Inl (invalid_request (what @ '' cannot be empty''))
      else case request of None \<Rightarrow> Inl (invalid_request ''request cannot be nil'')
        | Some r \<Rightarrow> Inr (AList.update key \<lparr>te_value = r, te_createdAt = now,
            te_expiresAt = getExpirationFromRequester request tokenType ttl now'\<rparr> m))"

definition load_request :: "string \<Rightarrow> string \<Rightarrow> request_map \<Rightarrow> storage_error + Requester" where
  "load_request hint key m = (case map_of m key of None \<Rightarrow> Inl (storage_not_found hint) | Some e \<Rightarrow> Inr (te_value e))"

definition delete_request :: "string \<Rightarrow> string \<Rightarrow> request_map \<Rightarrow> storage_error + request_map" where
  "delete_request hint key m = (case map_of m key of None \<Rightarrow> Inl (storage_not_found hint) | Some _ \<Rightarrow> Inr (AList.delete key m))"

definition revoke_requests :: "string \<Rightarrow> request_map \<Rightarrow> request_map" where
  "revoke_requests requestID m = filter (\<lambda>(sig, entry). rq_GetID (te_value entry) \<noteq> requestID) m"

definition CreateAuthorizeCodeSession :: "string \<Rightarrow> Requester option \<Rightarrow> gotime \<Rightarrow> gotime \<Rightarrow> MemoryStorage \<Rightarrow>
    storage_error option \<times> MemoryStorage" where
  "CreateAuthorizeCodeSession code request now now' s =
     (case store_request ''authorization code'' AuthorizeCode DefaultAuthCodeTTL code request now now' (ms_authCodes s) of
        Inl e \<Rightarrow> (Some e, s) | Inr m \<Rightarrow> (None, s\<lparr>ms_authCodes := m\<rparr>))"

definition GetAuthorizeCodeSession :: "string \<Rightarrow> MemoryStorage \<Rightarrow> Requester option \<times> storage_error option" where
  "GetAuthorizeCodeSession code s = (case map_of (ms_authCodes s) code of
     None \<Rightarrow> (None, Some (storage_not_found ''Authorization code not found''))
   | Some entry \<Rightarrow>
       if map_of (ms_invalidatedCodes s) code \<noteq> None
       then (Some (te_value entry), Some \<lparr>se_chain = [Fosite_ErrInvalidatedAuthorizeCode], se_hint = ''''\<rparr>)
       else (Some (te_value entry), None))"

definition InvalidateAuthorizeCodeSession :: "string \<Rightarrow> gotime \<Rightarrow> MemoryStorage \<Rightarrow> storage_error option \<times> MemoryStorage" where
  "InvalidateAuthorizeCodeSession code now s = (case map_of (ms_authCodes s) code of
     None \<Rightarrow> (Some (storage_not_found ''Authorization code not found''), s)
   | Some _ \<Rightarrow> (None, s\<lparr>ms_invalidatedCodes := AList.update code
       \<lparr>te_value = True, te_createdAt = now, te_expiresAt = now + DefaultInvalidatedCodeTTL\<rparr> (ms_invalidatedCodes s)\<rparr>))"

definition CreateAccessTokenSession :: "string \<Rightarrow> Requester option \<Rightarrow> gotime \<Rightarrow> gotime \<Rightarrow> MemoryStorage \<Rightarrow>
    storage_error option \<times> MemoryStorage" where
  "CreateAccessTokenSession signature request now now' s =
     (case store_request ''access token signature'' AccessToken DefaultAccessTokenTTL signature request now now' (ms_accessTokens s) of
        Inl e \<Rightarrow> (Some e, s) | Inr m \<Rightarrow> (None, s\<lparr>ms_accessTokens := m\<rparr>))"

definition GetAccessTokenSession :: "string \<Rightarrow> MemoryStorage \<Rightarrow> storage_error + Requester" where
  "GetAccessTokenSession signature s = load_request ''Access token not found'' signature (ms_accessTokens s)"

definition DeleteAccessTokenSession :: "string \<Rightarrow> MemoryStorage \<Rightarrow> storage_error option \<times> MemoryStorage" where
  "DeleteAccessTokenSession signature s = (case delete_request ''Access token not found'' signature (ms_accessTokens s) of
     Inl e \<Rightarrow> (Some e, s) | Inr m \<Rightarrow> (None, s\<lparr>ms_accessTokens := m\<rparr>))"

definition CreateRefreshTokenSession :: "string \<Rightarrow> string \<Rightarrow> Requester option \<Rightarrow> gotime \<Rightarrow> gotime \<Rightarrow> MemoryStorage \<Rightarrow>
    storage_error option \<times> MemoryStorage" where
  "CreateRefreshTokenSession signature accessSignature request now now' s =
     (case store_request ''refresh token signature'' RefreshToken DefaultRefreshTokenTTL signature request now now' (ms_refreshTokens s) of
        Inl e \<Rightarrow> (Some e, s) | Inr m \<Rightarrow> (None, s\<lparr>ms_refreshTokens := m\<rparr>))"

definition GetRefreshTokenSession :: "string \<Rightarrow> MemoryStorage \<Rightarrow> storage_error + Requester" where
  "GetRefreshTokenSession signature s = load_request ''Refresh token not found'' signature (ms_refreshTokens s)"

definition DeleteRefreshTokenSession :: "string \<Rightarrow> MemoryStorage \<Rightarrow> storage_error option \<times> MemoryStorage" where
  "DeleteRefreshTokenSession signature s = (case delete_request ''Refresh token not found'' signature (ms_refreshTokens s) of
     Inl e \<Rightarrow> (Some e, s) | Inr m \<Rightarrow> (None, s\<lparr>ms_refreshTokens := m\<rparr>))"

definition RotateRefreshToken :: "string \<Rightarrow> string \<Rightarrow> MemoryStorage \<Rightarrow> storage_error option \<times> MemoryStorage" where
  "RotateRefreshToken requestID refreshTokenSignature s =
     (None, s\<lparr>ms_refreshTokens := AList.delete refreshTokenSignature (ms_refreshTokens s),
        ms_accessTokens := revoke_requests requestID (ms_accessTokens s)\<rparr>)"

definition RevokeAccessToken :: "string \<Rightarrow> MemoryStorage \<Rightarrow> storage_error option \<times> MemoryStorage" where
  "RevokeAccessToken requestID s = (None, s\<lparr>ms_accessTokens := revoke_requests requestID (ms_accessTokens s)\<rparr>)"

definition RevokeRefreshToken :: "string \<Rightarrow> MemoryStorage \<Rightarrow> storage_error option \<times> MemoryStorage" where
  "RevokeRefreshToken requestID s = (None, s\<lparr>ms_refreshTokens := revoke_requests requestID (ms_refreshTokens s)\<rparr>)"

definition RevokeRefreshTokenMaybeGracePeriod :: "string \<Rightarrow> string \<Rightarrow> MemoryStorage \<Rightarrow> storage_error option \<times> MemoryStorage" where
  "RevokeRefreshTokenMaybeGracePeriod requestID signature s = RevokeRefreshToken requestID s"

definition CreatePKCERequestSession :: "string \<Rightarrow> Requester option \<Rightarrow> gotime \<Rightarrow> gotime \<Rightarrow> MemoryStorage \<Rightarrow>
    storage_error option \<times> MemoryStorage" where
  "CreatePKCERequestSession signature request now now' s =
     (case store_request ''PKCE signature'' AuthorizeCode DefaultPKCETTL signature request now now' (ms_pkceRequests s) of
        Inl e \<Rightarrow> (Some e, s) | Inr m \<Rightarrow> (None, s\<lparr>ms_pkceRequests := m\<rparr>))"

definition GetPKCERequestSession :: "string \<Rightarrow> MemoryStorage \<Rightarrow> storage_error + Requester" where
  "GetPKCERequestSession signature s = load_request ''PKCE request not found'' signature (ms_pkceRequests s)"

definition DeletePKCERequestSession :: "string \<Rightarrow> MemoryStorage \<Rightarrow> storage_error option \<times> MemoryStorage" where
  "DeletePKCERequestSession signature s = (case delete_request ''PKCE request not found'' signature (ms_pkceRequests s) of
     Inl e \<Rightarrow> (Some e, s) | Inr m \<Rightarrow> (None, s\<lparr>ms_pkceRequests := m\<rparr>))"

section \<open>Tokens of upstream providers\<close>

definition check_row :: "string \<Rightarrow> string \<Rightarrow> storage_error option" where
  "check_row sessionID providerName =
     (if sessionID = '''' then Some (invalid_request ''session ID cannot be empty'')
      else if providerName = '''' then Some (invalid_request ''provider name cannot be empty'')
      else None)"

definition ResolveUpstreamTokenRowID :: "(string \<Rightarrow> string) \<Rightarrow> string \<Rightarrow> string \<Rightarrow> storage_error + string" where
  "ResolveUpstreamTokenRowID sha256 sessionID providerName = (case check_row sessionID providerName of
     Some e \<Rightarrow> Inl e | None \<Rightarrow> Inr (upstreamTokenRowID sha256 [sessionID, providerName]))"

definition cloneUpstreamTokens :: "UpstreamTokens option \<Rightarrow> UpstreamTokens option" where
  "cloneUpstreamTokens t = (case t of None \<Rightarrow> None | Some t \<Rightarrow> Some
     \<lparr>ut_ProviderID = ut_ProviderID t, ut_AccessToken = ut_AccessToken t, ut_RefreshToken = ut_RefreshToken t,
      ut_IDToken = ut_IDToken t, ut_ExpiresAt = ut_ExpiresAt t, ut_SessionExpiresAt = ut_SessionExpiresAt t,
      ut_UserID = ut_UserID t, ut_UpstreamSubject = ut_UpstreamSubject t, ut_ClientID = ut_ClientID t\<rparr>)"

definition upstream_expiry :: "UpstreamTokens option \<Rightarrow> gotime \<Rightarrow> gotime" where
  "upstream_expiry tokens now = (case tokens of
     None \<Rightarrow> now + (DefaultAccessTokenTTL + DefaultRefreshTokenTTL)
   | Some t \<Rightarrow>
       if \<not> IsZero (ut_ExpiresAt t) then ut_ExpiresAt t + DefaultRefreshTokenTTL
       else if \<not> IsZero (ut_SessionExpiresAt t) then ut_SessionExpiresAt t + DefaultRefreshTokenTTL
       else 0)"

definition StoreUpstreamTokens :: "string \<Rightarrow> string \<Rightarrow> UpstreamTokens option \<Rightarrow> gotime \<Rightarrow> MemoryStorage \<Rightarrow>
    storage_error option \<times> MemoryStorage" where
  "StoreUpstreamTokens sessionID providerName tokens now s = (case check_row sessionID providerName of
     Some e \<Rightarrow> (Some e, s)
   | None \<Rightarrow> (None, s\<lparr>ms_upstreamTokens := AList.update (sessionID, providerName)
       \<lparr>te_value = cloneUpstreamTokens tokens, te_createdAt = now, te_expiresAt = upstream_expiry tokens now\<rparr> (ms_upstreamTokens s)\<rparr>))"

definition GetUpstreamTokens :: "string \<Rightarrow> string \<Rightarrow> gotime \<Rightarrow> MemoryStorage \<Rightarrow> UpstreamTokens option \<times> storage_error option" where
  "GetUpstreamTokens sessionID providerName now s = (case check_row sessionID providerName of
     Some e \<Rightarrow> (None, Some e)
   | None \<Rightarrow> (case map_of (ms_upstreamTokens s) (sessionID, providerName) of
       None \<Rightarrow> (None, Some (storage_not_found ''Upstream tokens not found''))
     | Some entry \<Rightarrow> (case cloneUpstreamTokens (te_value entry) of
         None \<Rightarrow> (None, None)
       | Some result \<Rightarrow>
           if \<not> IsZero (ut_ExpiresAt result) \<and> now > ut_ExpiresAt result
           then (Some result, Some \<lparr>se_chain = [Storage_ErrExpired], se_hint = ''''\<rparr>)
           else (Some result, None))))"

definition GetAllUpstreamTokens :: "string \<Rightarrow> MemoryStorage \<Rightarrow> (string, UpstreamTokens option) gomap" where
  "GetAllUpstreamTokens sessionID s = fold (\<lambda>((sid, provider), entry) result.
     if sid \<noteq> sessionID then result else AList.update provider (cloneUpstreamTokens (te_value entry)) result) (ms_upstreamTokens s) []"

definition DeleteUpstreamTokens :: "string \<Rightarrow> MemoryStorage \<Rightarrow> storage_error option \<times> MemoryStorage" where
  "DeleteUpstreamTokens sessionID s =
     (if \<exists>(key, entry) \<in> set (ms_upstreamTokens s). fst key = sessionID
      then (None, s\<lparr>ms_upstreamTokens := filter (\<lambda>(key, entry). fst key \<noteq> sessionID) (ms_upstreamTokens s)\<rparr>)
      else (Some (storage_not_found ''Upstream tokens not found''), s))"

definition DeleteUpstreamTokensForProvider :: "string \<Rightarrow> string \<Rightarrow> MemoryStorage \<Rightarrow> storage_error option \<times> MemoryStorage" where
  "DeleteUpstreamTokensForProvider sessionID providerName s = (case check_row sessionID providerName of
     Some e \<Rightarrow> (Some e, s)
   | None \<Rightarrow> (None, s\<lparr>ms_upstreamTokens := AList.delete (sessionID, providerName) (ms_upstreamTokens s)\<rparr>))"

definition compareExpiry :: "gotime \<Rightarrow> gotime \<Rightarrow> int" where
  "compareExpiry a b = (if IsZero a \<and> IsZero b then 0 else if IsZero a then 1 else if IsZero b then - 1
     else if a < b then - 1 else if a > b then 1 else 0)"

fun latest_tokens :: "string \<Rightarrow> string \<Rightarrow> UpstreamTokens option \<Rightarrow> (upstreamKey, UpstreamTokens option timedEntry) gomap \<Rightarrow> UpstreamTokens option" where
  "latest_tokens userID providerID winner [] = winner"
| "latest_tokens userID providerID winner ((key, entry) # rest) = latest_tokens userID providerID
     (case te_value entry of None \<Rightarrow> winner
      | Some t \<Rightarrow>
          if ut_UserID t \<noteq> userID \<or> ut_ProviderID t \<noteq> providerID then winner
          else (case winner of None \<Rightarrow> Some t
            | Some w \<Rightarrow> if compareExpiry (ut_ExpiresAt t) (ut_ExpiresAt w) > 0 then Some t else winner)) rest"

definition GetLatestUpstreamTokensForUser :: "string \<Rightarrow> string \<Rightarrow> MemoryStorage \<Rightarrow> storage_error + UpstreamTokens" where
  "GetLatestUpstreamTokensForUser userID providerID s =
     (if userID = '''' then Inl (invalid_request ''user ID cannot be empty'')
      else if providerID = '''' then Inl (invalid_request ''provider ID cannot be empty'')
      else case cloneUpstreamTokens (latest_tokens userID providerID None (ms_upstreamTokens s)) of
        None \<Rightarrow> Inl (storage_not_found ''Upstream tokens not found'') | Some t \<Rightarrow> Inr t)"

section \<open>Pending authorizations\<close>

definition clone_pending :: "PendingAuthorization \<Rightarrow> PendingAuthorization" where
  "clone_pending p = \<lparr>pa_ClientID = pa_ClientID p, pa_RedirectURI = pa_RedirectURI p, pa_State = pa_State p,
     pa_PKCEChallenge = pa_PKCEChallenge p, pa_PKCEMethod = pa_PKCEMethod p, pa_Scopes = pa_Scopes p,
     pa_InternalState = pa_InternalState p, pa_UpstreamPKCEVerifier = pa_UpstreamPKCEVerifier p,
     pa_UpstreamNonce = pa_UpstreamNonce p, pa_UpstreamProviderName = pa_UpstreamProviderName p, pa_SessionID = pa_SessionID p,
     pa_ResolvedUserID = pa_ResolvedUserID p, pa_ResolvedUserName = pa_ResolvedUserName p,
     pa_ResolvedUserEmail = pa_ResolvedUserEmail p, pa_SingleLeg = pa_SingleLeg p, pa_ChainUpstreams = pa_ChainUpstreams p,
     pa_CreatedAt = pa_CreatedAt p\<rparr>"

definition StorePendingAuthorization :: "string \<Rightarrow> PendingAuthorization option \<Rightarrow> gotime \<Rightarrow> MemoryStorage \<Rightarrow>
    storage_error option \<times> MemoryStorage" where
  "StorePendingAuthorization state pending now s =
     (if state = '''' then (Some (invalid_request ''state cannot be empty''), s)
      else case pending of None \<Rightarrow> (Some (invalid_request ''pending authorization cannot be nil''), s)
        | Some p \<Rightarrow> (None, s\<lparr>ms_pendingAuthorizations := AList.update state
            \<lparr>te_value = Some (clone_pending p), te_createdAt = now, te_expiresAt = now + DefaultPendingAuthorizationTTL\<rparr>
            (ms_pendingAuthorizations s)\<rparr>))"

definition LoadPendingAuthorization :: "string \<Rightarrow> gotime \<Rightarrow> MemoryStorage \<Rightarrow> storage_error + PendingAuthorization option" where
  "LoadPendingAuthorization state now s = (case map_of (ms_pendingAuthorizations s) state of
     None \<Rightarrow> Inl (storage_not_found ''Pending authorization not found'')
   | Some entry \<Rightarrow>
       if now > te_expiresAt entry then Inl \<lparr>se_chain = [Storage_ErrExpired], se_hint = ''''\<rparr>
       else Inr (map_option clone_pending (te_value entry)))"

definition DeletePendingAuthorization :: "string \<Rightarrow> MemoryStorage \<Rightarrow> storage_error option \<times> MemoryStorage" where
  "DeletePendingAuthorization state s = (case map_of (ms_pendingAuthorizations s) state of
     None \<Rightarrow> (Some (storage_not_found ''Pending authorization not found''), s)
   | Some _ \<Rightarrow> (None, s\<lparr>ms_pendingAuthorizations := AList.delete state (ms_pendingAuthorizations s)\<rparr>))"

section \<open>Users and their identities\<close>

definition already_exists :: "string \<Rightarrow> storage_error" where
  "already_exists t = \<lparr>se_chain = [Storage_ErrAlreadyExists], se_hint = t\<rparr>"

definition missing :: "string \<Rightarrow> storage_error" where
  "missing t = \<lparr>se_chain = [Storage_ErrNotFound], se_hint = t\<rparr>"

definition clone_user :: "User \<Rightarrow> User" where
  "clone_user u = \<lparr>user_ID = user_ID u, user_CreatedAt = user_CreatedAt u, user_UpdatedAt = user_UpdatedAt u\<rparr>"

definition CreateUser :: "User option \<Rightarrow> MemoryStorage \<Rightarrow> storage_error option \<times> MemoryStorage" where
  "CreateUser user s = (case user of None \<Rightarrow> (Some (invalid_request ''user cannot be nil''), s)
     | Some u \<Rightarrow>
         if user_ID u = '''' then (Some (invalid_request ''user ID cannot be empty''), s)
         else if map_of (ms_users s) (user_ID u) \<noteq> None then (Some (already_exists ''user already exists''), s)
         else (None, s\<lparr>ms_users := AList.update (user_ID u) (clone_user u) (ms_users s)\<rparr>))"

definition GetUser :: "string \<Rightarrow> MemoryStorage \<Rightarrow> storage_error + User" where
  "GetUser i s = (case map_of (ms_users s) i of None \<Rightarrow> Inl (missing ''user not found'') | Some u \<Rightarrow> Inr (clone_user u))"

definition DeleteUser :: "string \<Rightarrow> MemoryStorage \<Rightarrow> storage_error option \<times> MemoryStorage" where
  "DeleteUser i s = (case map_of (ms_users s) i of
     None \<Rightarrow> (Some (missing ''user not found''), s)
   | Some _ \<Rightarrow> (None, s\<lparr>
       ms_providerIdentities := filter (\<lambda>(key, identity). pi_UserID identity \<noteq> i) (ms_providerIdentities s),
       ms_upstreamTokens := filter (\<lambda>(key, entry). \<not> (case te_value entry of None \<Rightarrow> False | Some t \<Rightarrow> ut_UserID t = i)) (ms_upstreamTokens s),
       ms_users := AList.delete i (ms_users s)\<rparr>))"

definition clone_identity :: "ProviderIdentity \<Rightarrow> ProviderIdentity" where
  "clone_identity x = \<lparr>pi_UserID = pi_UserID x, pi_ProviderID = pi_ProviderID x, pi_ProviderSubject = pi_ProviderSubject x,
     pi_LinkedAt = pi_LinkedAt x, pi_LastUsedAt = pi_LastUsedAt x\<rparr>"

definition CreateProviderIdentity :: "ProviderIdentity option \<Rightarrow> MemoryStorage \<Rightarrow> storage_error option \<times> MemoryStorage" where
  "CreateProviderIdentity identity s = (case identity of None \<Rightarrow> (Some (invalid_request ''identity cannot be nil''), s)
     | Some x \<Rightarrow>
         if pi_UserID x = '''' then (Some (invalid_request ''user ID cannot be empty''), s)
         else if pi_ProviderID x = '''' then (Some (invalid_request ''provider ID cannot be empty''), s)
         else if pi_ProviderSubject x = '''' then (Some (invalid_request ''provider subject cannot be empty''), s)
         else if map_of (ms_users s) (pi_UserID x) = None then (Some (missing ''user not found''), s)
         else let key = providerIdentityKey (pi_ProviderID x) (pi_ProviderSubject x) in
           if map_of (ms_providerIdentities s) key \<noteq> None then (Some (already_exists ''provider identity already linked''), s)
           else (None, s\<lparr>ms_providerIdentities := AList.update key (clone_identity x) (ms_providerIdentities s)\<rparr>))"

definition GetProviderIdentity :: "string \<Rightarrow> string \<Rightarrow> MemoryStorage \<Rightarrow> storage_error + ProviderIdentity" where
  "GetProviderIdentity providerID providerSubject s =
     (case map_of (ms_providerIdentities s) (providerIdentityKey providerID providerSubject) of
        None \<Rightarrow> Inl (missing ''provider identity not found'') | Some x \<Rightarrow> Inr (clone_identity x))"

definition UpdateProviderIdentityLastUsed :: "string \<Rightarrow> string \<Rightarrow> gotime \<Rightarrow> MemoryStorage \<Rightarrow> storage_error option \<times> MemoryStorage" where
  "UpdateProviderIdentityLastUsed providerID providerSubject lastUsedAt s =
     (let key = providerIdentityKey providerID providerSubject in
      case map_of (ms_providerIdentities s) key of
        None \<Rightarrow> (Some (missing ''provider identity not found''), s)
      | Some x \<Rightarrow> (None, s\<lparr>ms_providerIdentities := AList.update key (x\<lparr>pi_LastUsedAt := lastUsedAt\<rparr>) (ms_providerIdentities s)\<rparr>))"

definition GetUserProviderIdentities :: "string \<Rightarrow> MemoryStorage \<Rightarrow> storage_error + ProviderIdentity list" where
  "GetUserProviderIdentities userID s = (case map_of (ms_users s) userID of
     None \<Rightarrow> Inl (missing ''user not found'')
   | Some _ \<Rightarrow> Inr (map clone_identity (filter (\<lambda>x. pi_UserID x = userID) (map snd (ms_providerIdentities s)))))"

section \<open>Registrations with upstream servers\<close>

definition StoreDCRCredentials :: "DCRCredentials option \<Rightarrow> MemoryStorage \<Rightarrow> storage_error option \<times> MemoryStorage" where
  "StoreDCRCredentials creds s = (case validateDCRCredentialsForStore creds of
     Some e \<Rightarrow> (Some e, s)
   | None \<Rightarrow> (None, s\<lparr>ms_dcrCredentials := AList.update (dc_Key (the creds)) (the creds) (ms_dcrCredentials s)\<rparr>))"

definition GetDCRCredentials :: "DCRKey \<Rightarrow> MemoryStorage \<Rightarrow> storage_error + DCRCredentials" where
  "GetDCRCredentials key s = (case map_of (ms_dcrCredentials s) key of
     None \<Rightarrow> Inl (storage_not_found ''DCR credentials not found'') | Some c \<Rightarrow> Inr c)"

section \<open>Cleanup of expired entries\<close>

record expired_keys =
  ek_authCodes :: "string list"
  ek_invalidatedCodes :: "string list"
  ek_accessTokens :: "string list"
  ek_refreshTokens :: "string list"
  ek_pkceRequests :: "string list"
  ek_upstreamTokens :: "upstreamKey list"
  ek_pendingAuthorizations :: "string list"
  ek_clientAssertionJWTs :: "string list"

definition expired_entries :: "gotime \<Rightarrow> ('k, 'a timedEntry) gomap \<Rightarrow> 'k list" where
  "expired_entries now m = map fst (filter (\<lambda>(k, e). now > te_expiresAt e) m)"

definition collect_expired :: "gotime \<Rightarrow> MemoryStorage \<Rightarrow> expired_keys" where
  "collect_expired now s = \<lparr>
     ek_authCodes = expired_entries now (ms_authCodes s),
     ek_invalidatedCodes = expired_entries now (ms_invalidatedCodes s),
     ek_accessTokens = expired_entries now (ms_accessTokens s),
     ek_refreshTokens = expired_entries now (ms_refreshTokens s),
     ek_pkceRequests = expired_entries now (ms_pkceRequests s),
     ek_upstreamTokens = map fst (filter (\<lambda>(k, e). \<not> IsZero (te_expiresAt e) \<and> now > te_expiresAt e) (ms_upstreamTokens s)),
     ek_pendingAuthorizations = expired_entries now (ms_pendingAuthorizations s),
     ek_clientAssertionJWTs = map fst (filter (\<lambda>(k, v). now > v) (ms_clientAssertionJWTs s))\<rparr>"

definition nothing_expired :: "expired_keys \<Rightarrow> bool" where
  "nothing_expired ek \<longleftrightarrow> ek_authCodes ek = [] \<and> ek_invalidatedCodes ek = [] \<and> ek_accessTokens ek = [] \<and>
     ek_refreshTokens ek = [] \<and> ek_pkceRequests ek = [] \<and> ek_upstreamTokens ek = [] \<and>
     ek_pendingAuthorizations ek = [] \<and> ek_clientAssertionJWTs ek = []"

definition delete_keys :: "'k list \<Rightarrow> ('k, 'v) gomap \<Rightarrow> ('k, 'v) gomap" where
  "delete_keys ks m = fold AList.delete ks m"

definition delete_expired :: "expired_keys \<Rightarrow> MemoryStorage \<Rightarrow> MemoryStorage" where
  "delete_expired ek s = s\<lparr>
     ms_authCodes := delete_keys (ek_authCodes ek) (ms_authCodes s),
     ms_invalidatedCodes := delete_keys (ek_invalidatedCodes ek) (delete_keys (ek_authCodes ek) (ms_invalidatedCodes s)),
     ms_accessTokens := delete_keys (ek_accessTokens ek) (ms_accessTokens s),
     ms_refreshTokens := delete_keys (ek_refreshTokens ek) (ms_refreshTokens s),
     ms_pkceRequests := delete_keys (ek_pkceRequests ek) (ms_pkceRequests s),
     ms_upstreamTokens := delete_keys (ek_upstreamTokens ek) (ms_upstreamTokens s),
     ms_pendingAuthorizations := delete_keys (ek_pendingAuthorizations ek) (ms_pendingAuthorizations s),
     ms_clientAssertionJWTs := delete_keys (ek_clientAssertionJWTs ek) (ms_clientAssertionJWTs s)\<rparr>"

record StorageStats =
  ss_Clients :: nat
  ss_AuthCodes :: nat
  ss_AccessTokens :: nat
  ss_RefreshTokens :: nat
  ss_PKCERequests :: nat
  ss_UpstreamTokens :: nat
  ss_PendingAuthorizations :: nat
  ss_InvalidatedCodes :: nat
  ss_ClientAssertionJWTs :: nat
  ss_Users :: nat
  ss_ProviderIdentities :: nat
  ss_DCRCredentials :: nat

definition storage_Stats :: "MemoryStorage \<Rightarrow> StorageStats" where
  "storage_Stats s = \<lparr>ss_Clients = length (ms_clients s), ss_AuthCodes = length (ms_authCodes s),
     ss_AccessTokens = length (ms_accessTokens s), ss_RefreshTokens = length (ms_refreshTokens s),
     ss_PKCERequests = length (ms_pkceRequests s), ss_UpstreamTokens = length (ms_upstreamTokens s),
     ss_PendingAuthorizations = length (ms_pendingAuthorizations s), ss_InvalidatedCodes = length (ms_invalidatedCodes s),
     ss_ClientAssertionJWTs = length (ms_clientAssertionJWTs s), ss_Users = length (ms_users s),
     ss_ProviderIdentities = length (ms_providerIdentities s), ss_DCRCredentials = length (ms_dcrCredentials s)\<rparr>"

section \<open>The storage as a system\<close>

text \<open>
  The calls that change the storage, with the clock readings they make, and the cleanup goroutine. The loop of
  \<open>cleanupLoop\<close> waits for the ticker or for \<open>Close\<close>; when both are ready Go's \<open>select\<close> may take either.
\<close>

datatype storage_call =
    Call_RegisterClient Client gotime
  | Call_RenewClientTTL "Client option" gotime
  | Call_SetClientAssertionJWT string gotime gotime
  | Call_CreateAuthorizeCodeSession string "Requester option" gotime gotime
  | Call_InvalidateAuthorizeCodeSession string gotime
  | Call_CreateAccessTokenSession string "Requester option" gotime gotime
  | Call_DeleteAccessTokenSession string
  | Call_CreateRefreshTokenSession string string "Requester option" gotime gotime
  | Call_DeleteRefreshTokenSession string
  | Call_RotateRefreshToken string string
  | Call_RevokeAccessToken string
  | Call_RevokeRefreshToken string
  | Call_CreatePKCERequestSession string "Requester option" gotime gotime
  | Call_DeletePKCERequestSession string
  | Call_StoreUpstreamTokens string string "UpstreamTokens option" gotime
  | Call_DeleteUpstreamTokens string
  | Call_DeleteUpstreamTokensForProvider string string
  | Call_StorePendingAuthorization string "PendingAuthorization option" gotime
  | Call_DeletePendingAuthorization string
  | Call_CreateUser "User option"
  | Call_DeleteUser string
  | Call_CreateProviderIdentity "ProviderIdentity option"
  | Call_UpdateProviderIdentityLastUsed string string gotime
  | Call_StoreDCRCredentials "DCRCredentials option"

primrec run_call :: "storage_call \<Rightarrow> MemoryStorage \<Rightarrow> storage_error option \<times> MemoryStorage" where
  "run_call (Call_RegisterClient c now) = RegisterClient c now"
| "run_call (Call_RenewClientTTL c now) = RenewClientTTL c now"
| "run_call (Call_SetClientAssertionJWT jti exp now) = SetClientAssertionJWT jti exp now"
| "run_call (Call_CreateAuthorizeCodeSession code r now now') = CreateAuthorizeCodeSession code r now now'"
| "run_call (Call_InvalidateAuthorizeCodeSession code now) = InvalidateAuthorizeCodeSession code now"
| "run_call (Call_CreateAccessTokenSession sig r now now') = CreateAccessTokenSession sig r now now'"
| "run_call (Call_DeleteAccessTokenSession sig) = DeleteAccessTokenSession sig"
| "run_call (Call_CreateRefreshTokenSession sig a r now now') = CreateRefreshTokenSession sig a r now now'"
| "run_call (Call_DeleteRefreshTokenSession sig) = DeleteRefreshTokenSession sig"
| "run_call (Call_RotateRefreshToken i sig) = RotateRefreshToken i sig"
| "run_call (Call_RevokeAccessToken i) = RevokeAccessToken i"
| "run_call (Call_RevokeRefreshToken i) = RevokeRefreshToken i"
| "run_call (Call_CreatePKCERequestSession sig r now now') = CreatePKCERequestSession sig r now now'"
| "run_call (Call_DeletePKCERequestSession sig) = DeletePKCERequestSession sig"
| "run_call (Call_StoreUpstreamTokens sid p t now) = StoreUpstreamTokens sid p t now"
| "run_call (Call_DeleteUpstreamTokens sid) = DeleteUpstreamTokens sid"
| "run_call (Call_DeleteUpstreamTokensForProvider sid p) = DeleteUpstreamTokensForProvider sid p"
| "run_call (Call_StorePendingAuthorization st p now) = StorePendingAuthorization st p now"
| "run_call (Call_DeletePendingAuthorization st) = DeletePendingAuthorization st"
| "run_call (Call_CreateUser u) = CreateUser u"
| "run_call (Call_DeleteUser i) = DeleteUser i"
| "run_call (Call_CreateProviderIdentity x) = CreateProviderIdentity x"
| "run_call (Call_UpdateProviderIdentityLastUsed p q t) = UpdateProviderIdentityLastUsed p q t"
| "run_call (Call_StoreDCRCredentials c) = StoreDCRCredentials c"

datatype cleanup_phase = CleanupWaiting | CleanupCollected expired_keys | CleanupDone

record auth_system =
  as_store :: MemoryStorage
  as_phase :: cleanup_phase
  as_stopCleanup :: bool

definition start_system :: "MemoryStorageOption list \<Rightarrow> auth_system" where
  "start_system opts = \<lparr>as_store = NewMemoryStorage opts, as_phase = CleanupWaiting, as_stopCleanup = False\<rparr>"

datatype storage_event = Called storage_call | Collected gotime | Swept | Closing | Stopped

inductive auth_step :: "auth_system \<Rightarrow> storage_event \<Rightarrow> auth_system \<Rightarrow> bool" where
  step_call: "auth_step y (Called c) (y\<lparr>as_store := snd (run_call c (as_store y))\<rparr>)"
| step_collect: "as_phase y = CleanupWaiting \<Longrightarrow> ek = collect_expired now (as_store y) \<Longrightarrow>
    auth_step y (Collected now) (y\<lparr>as_phase := (if nothing_expired ek then CleanupWaiting else CleanupCollected ek)\<rparr>)"
| step_sweep: "as_phase y = CleanupCollected ek \<Longrightarrow>
    auth_step y Swept (y\<lparr>as_store := delete_expired ek (as_store y), as_phase := CleanupWaiting\<rparr>)"
| step_close: "\<not> as_stopCleanup y \<Longrightarrow> auth_step y Closing (y\<lparr>as_stopCleanup := True\<rparr>)"
| step_stop: "as_phase y = CleanupWaiting \<Longrightarrow> as_stopCleanup y \<Longrightarrow> auth_step y Stopped (y\<lparr>as_phase := CleanupDone\<rparr>)"

inductive auth_run :: "auth_system \<Rightarrow> storage_event list \<Rightarrow> auth_system \<Rightarrow> bool" where
  run_none: "auth_run y [] y"
| run_more: "auth_run y es y1 \<Longrightarrow> auth_step y1 e y2 \<Longrightarrow> auth_run y (es @ [e]) y2"

inductive_cases auth_stepE: "auth_step y e y'"

end
