(* ===== verification/Auth_Clients.thy ===== *)
theory Auth_Clients
  imports Auth_Memory
begin

text \<open>
  The registered clients of the authorization server: the order in which they may be evicted, the bound on their
  number and who can be evicted at all, for every run of the storage with its cleanup goroutine.
\<close>

lemmas client_defs = RegisterClient_def RenewClientTTL_def place_client_def forget_position_def evict_def Let_def

lemmas other_call_defs = SetClientAssertionJWT_def CreateAuthorizeCodeSession_def InvalidateAuthorizeCodeSession_def
  CreateAccessTokenSession_def DeleteAccessTokenSession_def CreateRefreshTokenSession_def DeleteRefreshTokenSession_def
  RotateRefreshToken_def RevokeAccessToken_def RevokeRefreshToken_def CreatePKCERequestSession_def
  DeletePKCERequestSession_def StoreUpstreamTokens_def DeleteUpstreamTokens_def DeleteUpstreamTokensForProvider_def
  StorePendingAuthorization_def DeletePendingAuthorization_def CreateUser_def DeleteUser_def CreateProviderIdentity_def
  UpdateProviderIdentityLastUsed_def StoreDCRCredentials_def

section \<open>Which part of the storage a call changes\<close>

definition client_part :: "MemoryStorage \<Rightarrow> (string, Client) gomap \<times> clientOrderEntry list \<times> int \<times> duration" where
  "client_part s = (ms_clients s, ms_clientOrder s, ms_maxClients s, ms_minClientAge s)"

definition is_client_call :: "storage_call \<Rightarrow> bool" where
  "is_client_call c = (case c of Call_RegisterClient _ _ \<Rightarrow> True | Call_RenewClientTTL _ _ \<Rightarrow> True | _ \<Rightarrow> False)"

lemma other_calls_keep_clients: "\<not> is_client_call c \<Longrightarrow> client_part (snd (run_call c s)) = client_part s"
  by (cases c) (simp_all add: is_client_call_def client_part_def other_call_defs Let_def split: option.split sum.split)

lemma delete_expired_clients [simp]: "client_part (delete_expired ek s) = client_part s"
  by (simp add: client_part_def delete_expired_def)

section \<open>The eviction order\<close>

definition clients_inv :: "MemoryStorage \<Rightarrow> bool" where
  "clients_inv s \<longleftrightarrow> gomap_ok (ms_clients s) \<and> distinct (map co_id (ms_clientOrder s)) \<and>
     set (map co_id (ms_clientOrder s)) = fst ` set (ms_clients s) \<and>
     (\<forall>(i, c) \<in> set (ms_clients s). cli_GetID c = i) \<and>
     (0 < ms_maxClients s \<longrightarrow> int (length (ms_clients s)) \<le> ms_maxClients s)"

lemma clients_inv_part: "client_part s = client_part s' \<Longrightarrow> clients_inv s \<longleftrightarrow> clients_inv s'"
  by (simp add: clients_inv_def client_part_def)

lemma evictable_from_Some:
  "evictable_from i es now s = Some j \<Longrightarrow> i \<le> j \<and> j - i < length es \<and>
     now - co_touchedAt (es ! (j - i)) \<ge> ms_minClientAge s \<and>
     (\<exists>c. map_of (ms_clients s) (co_id (es ! (j - i))) = Some c \<and> DCRIssued c)"
proof (induction es arbitrary: i)
  case (Cons e es)
  consider "i = j" | "evictable_from (Suc i) es now s = Some j"
    using Cons.prems by (auto split: if_splits option.splits)
  then show ?case
  proof cases
    case 1
    have "\<not> evictable_from (Suc i) es now s = Some i" using Cons.IH [of "Suc i"] 1 by fastforce
    then show ?thesis using Cons.prems 1 by (auto split: if_splits option.splits)
  next
    case 2
    from Cons.IH [OF this] show ?thesis by (auto simp: Suc_diff_Suc nth_Cons' Suc_le_eq)
  qed
qed simp

lemma oldestEvictable_Some:
  assumes "oldestEvictableClientIndex now s = Some j"
  obtains c where "j < length (ms_clientOrder s)" "now - co_touchedAt (ms_clientOrder s ! j) \<ge> ms_minClientAge s"
    "map_of (ms_clients s) (co_id (ms_clientOrder s ! j)) = Some c" "DCRIssued c"
  using evictable_from_Some [OF assms [unfolded oldestEvictableClientIndex_def]] by auto

lemma take_drop_nth: "j < length xs \<Longrightarrow> set (map f xs) = insert (f (xs ! j)) (set (map f (take j xs @ drop (Suc j) xs)))"
  by (subst id_take_nth_drop [of j xs], simp_all only: map_append list.map set_append list.set) auto

lemma distinct_take_drop_nth:
  "j < length xs \<Longrightarrow> distinct (map f xs) \<Longrightarrow> distinct (map f (take j xs @ drop (Suc j) xs)) \<and> f (xs ! j) \<notin> set (map f (take j xs @ drop (Suc j) xs))"
  by (subst (asm) (2) id_take_nth_drop [of j xs], simp_all only: map_append list.map) auto

lemma length_delete: "gomap_ok m \<Longrightarrow> map_of m k = Some v \<Longrightarrow> Suc (length (AList.delete k m)) = length m"
  by (induction m) (auto simp: gomap_ok_def AList.delete_id)

lemma delete_keys_fst: "fst ` set (AList.delete k m) = fst ` set m - {k}"
  by (auto simp: AList.delete_eq image_iff)

lemma length_update: "length (AList.update k v m) = (if k \<in> fst ` set m then length m else Suc (length m))"
  by (induction m) auto

lemma update_fst: "fst ` set (AList.update k v m) = insert k (fst ` set m)"
  using dom_update [of k v m] by (simp add: dom_map_of_conv_image_fst)

lemma set_update: "gomap_ok m \<Longrightarrow> (i, c) \<in> set (AList.update k v m) \<Longrightarrow> (i = k \<and> c = v) \<or> (i, c) \<in> set m"
  by (induction m) (auto simp: gomap_ok_def split: if_splits)

lemma clients_inv_place:
  assumes "gomap_ok (ms_clients s)" "distinct (map co_id (ms_clientOrder s))" "cli_GetID c \<notin> set (map co_id (ms_clientOrder s))"
    and "insert (cli_GetID c) (set (map co_id (ms_clientOrder s))) = insert (cli_GetID c) (fst ` set (ms_clients s))"
    and "\<forall>(i, c) \<in> set (ms_clients s). cli_GetID c = i"
    and "0 < ms_maxClients s \<longrightarrow> int (length (AList.update (cli_GetID c) c (ms_clients s))) \<le> ms_maxClients s"
  shows "clients_inv (place_client c now s)"
proof -
  have "\<forall>(i, d) \<in> set (AList.update (cli_GetID c) c (ms_clients s)). cli_GetID d = i"
  proof safe
    fix i d
    assume "(i, d) \<in> set (AList.update (cli_GetID c) c (ms_clients s))"
    from set_update [OF assms(1) this] show "cli_GetID d = i" using assms(5) by auto
  qed
  then show ?thesis using assms(1-4,6) by (simp add: clients_inv_def place_client_def update_fst)
qed

lemma known_client: "map_of m k \<noteq> None \<longleftrightarrow> k \<in> fst ` set m"
  by (auto simp: map_of_eq_None_iff)

lemma evict_inv:
  assumes "clients_inv s" "oldestEvictableClientIndex now s = Some j"
  shows "gomap_ok (ms_clients (evict j s))" "distinct (map co_id (ms_clientOrder (evict j s)))"
    and "set (map co_id (ms_clientOrder (evict j s))) = fst ` set (ms_clients (evict j s))"
    and "\<forall>(i, c) \<in> set (ms_clients (evict j s)). cli_GetID c = i" "length (ms_clients (evict j s)) + 1 = length (ms_clients s)"
    and "ms_maxClients (evict j s) = ms_maxClients s" "fst ` set (ms_clients (evict j s)) \<subseteq> fst ` set (ms_clients s)"
proof -
  from assms(2) obtain c where j: "j < length (ms_clientOrder s)" "map_of (ms_clients s) (co_id (ms_clientOrder s ! j)) = Some c"
    by (rule oldestEvictable_Some)
  note inv = assms(1) [unfolded clients_inv_def]
  note split = distinct_take_drop_nth [OF j(1), of co_id] take_drop_nth [OF j(1), of co_id]
  show "gomap_ok (ms_clients (evict j s))" "distinct (map co_id (ms_clientOrder (evict j s)))"
    using inv split by (simp_all add: evict_def)
  show "set (map co_id (ms_clientOrder (evict j s))) = fst ` set (ms_clients (evict j s))"
    using inv split by (auto simp: evict_def delete_keys_fst simp del: map_append)
  show "\<forall>(i, c) \<in> set (ms_clients (evict j s)). cli_GetID c = i"
    using inv by (auto simp: evict_def AList.delete_eq)
  show "length (ms_clients (evict j s)) + 1 = length (ms_clients s)"
    using inv j(2) by (simp add: evict_def length_delete)
qed (auto simp: evict_def delete_keys_fst)

lemma forget_ids: "co_id ` {e \<in> set es. co_id e \<noteq> i} = co_id ` set es - {i}"
  by auto

lemma RegisterClient_inv: "clients_inv s \<Longrightarrow> clients_inv (snd (RegisterClient c now s))"
proof -
  assume s: "clients_inv s"
  note inv = s [unfolded clients_inv_def]
  let ?i = "cli_GetID c"
  have known: "clients_inv (place_client c now (forget_position ?i s))" if "map_of (ms_clients s) ?i \<noteq> None"
  proof -
    have known': "?i \<in> fst ` set (ms_clients s)" using that by (simp only: known_client)
    show ?thesis
      by (rule clients_inv_place)
        (use inv known' in \<open>auto simp add: forget_position_def length_update distinct_map_filter forget_ids\<close>)
  qed
  have evicted: "clients_inv (place_client c now (evict j s))"
    if "map_of (ms_clients s) ?i = None" "oldestEvictableClientIndex now s = Some j" for j
  proof -
    note e = evict_inv [OF s that(2)]
    have new: "?i \<notin> fst ` set (ms_clients s)" using that(1) by (simp add: map_of_eq_None_iff)
    show ?thesis by (rule clients_inv_place) (use e new inv in \<open>auto simp add: length_update\<close>)
  qed
  have room: "clients_inv (place_client c now s)"
    if "map_of (ms_clients s) ?i = None" "0 < ms_maxClients s \<longrightarrow> \<not> ms_maxClients s \<le> int (length (ms_clients s))"
  proof -
    have new: "?i \<notin> fst ` set (ms_clients s)" using that(1) by (simp add: map_of_eq_None_iff)
    show ?thesis by (rule clients_inv_place) (use inv new that(2) in \<open>auto simp add: length_update\<close>)
  qed
  show ?thesis using s known evicted room
    by (cases "map_of (ms_clients s) ?i = None"; cases "oldestEvictableClientIndex now s") (simp_all add: RegisterClient_def)
qed

lemma RenewClientTTL_inv: "clients_inv s \<Longrightarrow> clients_inv (snd (RenewClientTTL c now s))"
  by (auto simp add: RenewClientTTL_def forget_position_def clients_inv_def Let_def map_of_eq_None_iff distinct_map_filter forget_ids
      split: option.split)

lemma run_call_clients_inv: "clients_inv s \<Longrightarrow> clients_inv (snd (run_call c s))"
proof (cases "is_client_call c")
  case True
  then show "clients_inv s \<Longrightarrow> ?thesis"
    by (cases c) (simp_all add: is_client_call_def RegisterClient_inv RenewClientTTL_inv)
qed (use clients_inv_part [OF other_calls_keep_clients] in blast)

lemma auth_step_clients_inv: "auth_step y e y' \<Longrightarrow> clients_inv (as_store y) \<Longrightarrow> clients_inv (as_store y')"
  by (cases rule: auth_step.cases) (auto simp: run_call_clients_inv clients_inv_part [OF delete_expired_clients])

lemma NewMemoryStorage_clients: "ms_clients (NewMemoryStorage opts) = [] \<and> ms_clientOrder (NewMemoryStorage opts) = []"
proof -
  have "ms_clients (fold apply_option opts s) = ms_clients s \<and> ms_clientOrder (fold apply_option opts s) = ms_clientOrder s" for s
  proof (induction opts arbitrary: s)
    case (Cons opt opts)
    then show ?case by (cases opt) simp_all
  qed simp
  then show ?thesis by (simp add: NewMemoryStorage_def)
qed

lemma reachable_clients_inv: "auth_run y es y' \<Longrightarrow> y = start_system opts \<Longrightarrow> clients_inv (as_store y')"
proof (induction rule: auth_run.induct)
  case (run_none y)
  then show ?case by (simp add: clients_inv_def start_system_def NewMemoryStorage_clients)
qed (auto intro: auth_step_clients_inv)

text \<open>
  Claim C19: the number of registered clients never exceeds the configured cap, whatever calls and cleanups have run.
\<close>

theorem clients_bounded:
  assumes "auth_run (start_system opts) es y" "0 < ms_maxClients (as_store y)"
  shows "int (ss_Clients (storage_Stats (as_store y))) \<le> ms_maxClients (as_store y)"
  using reachable_clients_inv [OF assms(1) refl] assms(2) by (simp add: clients_inv_def storage_Stats_def)

definition example_client :: "string \<Rightarrow> bool \<Rightarrow> Client" where
  "example_client i issued = \<lparr>cli_GetID = i, cli_dcrIssued = issued\<rparr>"

theorem clients_bounded_witness:
  "\<exists>y. auth_run (start_system [WithMaxClients 1, WithMinClientAge 5])
      [Called (Call_RegisterClient (example_client ''a'' True) 1), Called (Call_RegisterClient (example_client ''b'' True) 9)] y \<and>
    int (ss_Clients (storage_Stats (as_store y))) \<le> 1"
proof -
  let ?y0 = "start_system [WithMaxClients 1, WithMinClientAge 5]"
  let ?a = "Call_RegisterClient (example_client ''a'' True) 1" and ?b = "Call_RegisterClient (example_client ''b'' True) 9"
  define y1 where "y1 = ?y0\<lparr>as_store := snd (run_call ?a (as_store ?y0))\<rparr>"
  define y2 where "y2 = y1\<lparr>as_store := snd (run_call ?b (as_store y1))\<rparr>"
  have "auth_run ?y0 ([] @ [Called ?a]) y1" unfolding y1_def by (rule run_more [OF run_none step_call])
  then have run: "auth_run ?y0 (([] @ [Called ?a]) @ [Called ?b]) y2" unfolding y2_def by (rule run_more [OF _ step_call])
  have max: "ms_maxClients (as_store y2) = 1" unfolding y2_def y1_def by code_simp
  have "int (ss_Clients (storage_Stats (as_store y2))) \<le> 1" using clients_bounded [OF run] max by simp
  then show ?thesis using run by (intro exI [of _ y2]) simp
qed

section \<open>Who can be evicted\<close>

lemma evict_lookup: "map_of (ms_clients (evict j s)) i = (if i = co_id (ms_clientOrder s ! j) then None else map_of (ms_clients s) i)"
  by (simp add: evict_def)

lemma RegisterClient_loses:
  assumes "map_of (ms_clients s) i = Some c" "map_of (ms_clients (snd (RegisterClient d now s))) i = None"
  obtains j where "oldestEvictableClientIndex now s = Some j" "i = co_id (ms_clientOrder s ! j)"
  using assms by (cases "oldestEvictableClientIndex now s")
    (auto simp: RegisterClient_def place_client_def forget_position_def evict_lookup split: if_splits)

text \<open>
  When a client was last heard of is a fact of the history alone: the time of the last registration of its identifier, or of the
  last renewal of a client issued by dynamic registration under it.
\<close>

definition touches :: "string \<Rightarrow> storage_event \<Rightarrow> gotime option" where
  "touches i e = (case e of
     Called (Call_RegisterClient c now) \<Rightarrow> if cli_GetID c = i then Some now else None
   | Called (Call_RenewClientTTL (Some c) now) \<Rightarrow> if DCRIssued c \<and> cli_GetID c = i then Some now else None
   | _ \<Rightarrow> None)"

definition last_touched :: "string \<Rightarrow> storage_event list \<Rightarrow> gotime option" where
  "last_touched i es = fold (\<lambda>e t. case touches i e of None \<Rightarrow> t | Some now \<Rightarrow> Some now) es None"

lemma last_touched_snoc [simp]:
  "last_touched i (es @ [e]) = (case touches i e of None \<Rightarrow> last_touched i es | Some now \<Rightarrow> Some now)"
  by (simp add: last_touched_def cong: option.case_cong)

definition touch_times :: "storage_event list \<Rightarrow> MemoryStorage \<Rightarrow> bool" where
  "touch_times es s \<longleftrightarrow> (\<forall>p \<in> set (ms_clientOrder s). last_touched (co_id p) es = Some (co_touchedAt p))"

lemma touch_times_part: "client_part s = client_part s' \<Longrightarrow> touch_times es s \<longleftrightarrow> touch_times es s'"
  by (simp add: touch_times_def client_part_def)

lemma place_client_times:
  assumes "\<forall>p \<in> set (ms_clientOrder s). co_id p \<noteq> cli_GetID c \<and> last_touched (co_id p) es = Some (co_touchedAt p)"
  shows "touch_times (es @ [Called (Call_RegisterClient c now)]) (place_client c now s)"
  using assms by (auto simp: touch_times_def place_client_def touches_def)

lemma RegisterClient_times:
  assumes "clients_inv s" "touch_times es s"
  shows "touch_times (es @ [Called (Call_RegisterClient c now)]) (snd (RegisterClient c now s))"
proof (cases "map_of (ms_clients s) (cli_GetID c)")
  case None
  then have "cli_GetID c \<notin> set (map co_id (ms_clientOrder s))"
    using assms(1) by (simp add: clients_inv_def map_of_eq_None_iff)
  then have fresh: "\<forall>p \<in> set (ms_clientOrder s). co_id p \<noteq> cli_GetID c \<and> last_touched (co_id p) es = Some (co_touchedAt p)"
    using assms(2) by (auto simp: touch_times_def rev_image_eqI)
  then have "touch_times (es @ [Called (Call_RegisterClient c now)]) s" by (auto simp: touch_times_def touches_def)
  moreover have "touch_times (es @ [Called (Call_RegisterClient c now)]) (place_client c now s)"
    using fresh by (rule place_client_times)
  moreover have "touch_times (es @ [Called (Call_RegisterClient c now)]) (place_client c now (evict j s))" for j
    by (rule place_client_times) (use fresh in \<open>auto simp: evict_def dest: in_set_takeD in_set_dropD\<close>)
  ultimately show ?thesis using None by (auto simp: RegisterClient_def split: option.split)
next
  case (Some d)
  have "touch_times (es @ [Called (Call_RegisterClient c now)]) (place_client c now (forget_position (cli_GetID c) s))"
    by (rule place_client_times) (use assms(2) in \<open>auto simp: touch_times_def forget_position_def\<close>)
  then show ?thesis using Some by (simp add: RegisterClient_def)
qed

lemma RenewClientTTL_times:
  assumes "clients_inv s" "touch_times es s"
  shows "touch_times (es @ [Called (Call_RenewClientTTL r now)]) (snd (RenewClientTTL r now s))"
proof (cases r)
  case (Some c)
  have "co_id p \<noteq> cli_GetID c" if "map_of (ms_clients s) (cli_GetID c) = None" "p \<in> set (ms_clientOrder s)" for p
  proof -
    have "co_id p \<in> fst ` set (ms_clients s)" using assms(1) imageI [OF that(2), of co_id] by (simp add: clients_inv_def)
    then show ?thesis using that(1) by (metis map_of_eq_None_iff)
  qed
  then have "\<forall>p \<in> set (ms_clientOrder s). map_of (ms_clients s) (cli_GetID c) = None \<longrightarrow> co_id p \<noteq> cli_GetID c" by blast
  then show ?thesis using assms(2) Some
    by (auto simp: touch_times_def RenewClientTTL_def forget_position_def touches_def Let_def)
qed (use assms in \<open>simp add: RenewClientTTL_def touch_times_def touches_def\<close>)

lemma auth_step_times:
  assumes "auth_step y e y'" "clients_inv (as_store y)" "touch_times es (as_store y)"
  shows "touch_times (es @ [e]) (as_store y')"
proof (cases "\<exists>call. e = Called call \<and> is_client_call call")
  case True
  then obtain call where call: "e = Called call" "is_client_call call" by auto
  from assms(1) have "as_store y' = snd (run_call call (as_store y))" using call(1) by (cases rule: auth_step.cases) auto
  then show ?thesis using call assms(2,3)
    by (cases call) (simp_all add: is_client_call_def RegisterClient_times RenewClientTTL_times)
next
  case False
  from assms(1) have "client_part (as_store y') = client_part (as_store y)"
    using False by (cases rule: auth_step.cases) (auto simp: other_calls_keep_clients)
  moreover have "touches i e = None" for i
    using False by (auto simp: touches_def is_client_call_def split: storage_event.split storage_call.split)
  ultimately show ?thesis using assms(3) touch_times_part [of "as_store y'" "as_store y"] by (simp add: touch_times_def)
qed

lemma reachable_times: "auth_run y es y' \<Longrightarrow> y = start_system opts \<Longrightarrow> touch_times es (as_store y')"
proof (induction rule: auth_run.induct)
  case (run_none y)
  then show ?case by (simp add: touch_times_def start_system_def NewMemoryStorage_clients)
next
  case (run_more y es y1 e y2)
  then show ?case using auth_step_times [OF run_more.hyps(2) reachable_clients_inv [OF run_more.hyps(1)]] by auto
qed

lemma step_loses_client:
  assumes "auth_step y e y'" "map_of (ms_clients (as_store y)) i = Some c" "map_of (ms_clients (as_store y')) i = None"
  obtains d now j where "e = Called (Call_RegisterClient d now)" "oldestEvictableClientIndex now (as_store y) = Some j"
    "i = co_id (ms_clientOrder (as_store y) ! j)"
proof -
  have changed: "client_part (as_store y) \<noteq> client_part (as_store y')" using assms(2,3) by (auto simp: client_part_def)
  from assms(1) obtain call where call: "e = Called call" "as_store y' = snd (run_call call (as_store y))"
    using changed by (cases rule: auth_step.cases) auto
  then have "is_client_call call" using changed other_calls_keep_clients [of call "as_store y"] by auto
  moreover have "ms_clients (snd (RenewClientTTL r now s)) = ms_clients s" for r now s
    by (simp add: RenewClientTTL_def forget_position_def Let_def split: option.split)
  ultimately obtain d now where d: "call = Call_RegisterClient d now"
    using assms(2,3) call(2) by (cases call) (auto simp: is_client_call_def)
  with assms(2,3) call(2) obtain j
    where "oldestEvictableClientIndex now (as_store y) = Some j" "i = co_id (ms_clientOrder (as_store y) ! j)"
    using RegisterClient_loses [of "as_store y" i c d now] by auto
  with that d call(1) show thesis by blast
qed

text \<open>
  Claim C9: in every run of the storage from its start, a client leaves it only when another client registers, and only if the
  client was issued by dynamic registration and at least the grace period lies between that registration and the last event of
  the run that registered or renewed the client. So a client provisioned by the operator is never evicted, and a fresh
  registration cannot be pushed out by filling the storage.
\<close>

theorem only_aged_clients_evicted:
  assumes "auth_run (start_system opts) es y" "auth_step y e y'"
    and "GetClient i (as_store y) = Inr c" "GetClient i (as_store y') = Inl err"
  shows "DCRIssued c \<and> (\<exists>d now t. e = Called (Call_RegisterClient d now) \<and> cli_GetID d \<noteq> i \<and> last_touched i es = Some t \<and>
    now - t \<ge> ms_minClientAge (as_store y))"
proof -
  have i: "map_of (ms_clients (as_store y)) i = Some c" "map_of (ms_clients (as_store y')) i = None"
    using assms(3,4) by (auto simp: GetClient_def split: option.splits)
  obtain d now j where e: "e = Called (Call_RegisterClient d now)" "oldestEvictableClientIndex now (as_store y) = Some j"
    "i = co_id (ms_clientOrder (as_store y) ! j)"
    by (rule step_loses_client [OF assms(2) i])
  have "as_store y' = snd (RegisterClient d now (as_store y))" using assms(2) e(1) by (cases rule: auth_step.cases) auto
  then have other: "cli_GetID d \<noteq> i"
    using i by (auto simp: RegisterClient_def place_client_def split: if_splits option.splits)
  from e(2) obtain c' where j: "j < length (ms_clientOrder (as_store y))"
    "now - co_touchedAt (ms_clientOrder (as_store y) ! j) \<ge> ms_minClientAge (as_store y)"
    "map_of (ms_clients (as_store y)) i = Some c'" "DCRIssued c'"
    unfolding e(3) by (rule oldestEvictable_Some)
  have "last_touched i es = Some (co_touchedAt (ms_clientOrder (as_store y) ! j))"
    using reachable_times [OF assms(1) refl] nth_mem [OF j(1)] e(3) by (simp add: touch_times_def)
  then show ?thesis using j i(1) e(1) other by auto
qed

theorem only_aged_clients_evicted_witness:
  "\<exists>y y'. auth_run (start_system [WithMaxClients 1, WithMinClientAge 5])
      [Called (Call_RegisterClient (example_client ''a'' True) 1), Called (Call_RenewClientTTL (Some (example_client ''a'' True)) 4)] y \<and>
    auth_step y (Called (Call_RegisterClient (example_client ''b'' True) 9)) y' \<and>
    GetClient ''a'' (as_store y) = Inr (example_client ''a'' True) \<and> GetClient ''a'' (as_store y') = Inl (storage_not_found ''Client not found'') \<and>
    9 - 4 \<ge> ms_minClientAge (as_store y)"
proof -
  let ?y0 = "start_system [WithMaxClients 1, WithMinClientAge 5]"
  let ?a = "Call_RegisterClient (example_client ''a'' True) 1" and ?r = "Call_RenewClientTTL (Some (example_client ''a'' True)) 4"
  let ?b = "Call_RegisterClient (example_client ''b'' True) 9"
  define y1 where "y1 = ?y0\<lparr>as_store := snd (run_call ?a (as_store ?y0))\<rparr>"
  define y where "y = y1\<lparr>as_store := snd (run_call ?r (as_store y1))\<rparr>"
  define y' where "y' = y\<lparr>as_store := snd (run_call ?b (as_store y))\<rparr>"
  have "auth_run ?y0 ([] @ [Called ?a]) y1" unfolding y1_def by (rule run_more [OF run_none step_call])
  then have run: "auth_run ?y0 (([] @ [Called ?a]) @ [Called ?r]) y" unfolding y_def by (rule run_more [OF _ step_call])
  have step: "auth_step y (Called ?b) y'" unfolding y'_def by (rule step_call)
  have known: "GetClient ''a'' (as_store y) = Inr (example_client ''a'' True)" unfolding y_def y1_def by code_simp
  have gone: "GetClient ''a'' (as_store y') = Inl (storage_not_found ''Client not found'')"
    unfolding y'_def y_def y1_def by code_simp
  have last: "last_touched ''a'' (([] @ [Called ?a]) @ [Called ?r]) = Some 4" by code_simp
  have "9 - 4 \<ge> ms_minClientAge (as_store y)"
    using only_aged_clients_evicted [OF run step known gone] last by auto
  then show ?thesis using run step known gone by (intro exI [of _ y] exI [of _ y']) simp
qed

end
