(* ===== verification/Auth_Tokens.thy ===== *)
theory Auth_Tokens
  imports Auth_Clients
begin

text \<open>
  Authorization codes, tokens and the tokens of upstream providers: the contract the request stores share, one-time
  use of authorization codes, revocation, isolation of sessions and providers, and what the cleanup goroutine removes.
\<close>

section \<open>The contract of a request store\<close>

text \<open>
  fosite's storage interfaces for access tokens, refresh tokens and PKCE requests have the same shape: a session is created under
  a signature, read back and deleted.
\<close>

locale request_store =
  fixes create :: "string \<Rightarrow> Requester option \<Rightarrow> gotime \<Rightarrow> gotime \<Rightarrow> 's \<Rightarrow> storage_error option \<times> 's"
    and get :: "string \<Rightarrow> 's \<Rightarrow> storage_error + Requester"
    and del :: "string \<Rightarrow> 's \<Rightarrow> storage_error option \<times> 's"
  assumes create_ok: "sig \<noteq> '''' \<Longrightarrow> fst (create sig (Some r) now now' s) = None"
    and create_error: "create sig req now now' s = (Some e, s') \<Longrightarrow> s' = s"
    and get_create: "create sig (Some r) now now' s = (None, s') \<Longrightarrow>
      get sig' s' = (if sig' = sig then Inr r else get sig' s)"
    and del_ok: "fst (del sig s) = None \<longleftrightarrow> (\<exists>r. get sig s = Inr r)"
    and get_del: "del sig s = (None, s') \<Longrightarrow> (sig' = sig \<longrightarrow> isl (get sig' s')) \<and> (sig' \<noteq> sig \<longrightarrow> get sig' s' = get sig' s)"
    and del_error: "del sig s = (Some e, s') \<Longrightarrow> s' = s"
begin

lemma create_get: "sig \<noteq> '''' \<Longrightarrow> get sig (snd (create sig (Some r) now now' s)) = Inr r"
  using create_ok [of sig r now now' s] get_create [of sig r now now' s _ sig] by (cases "create sig (Some r) now now' s") auto

lemma create_other: "sig' \<noteq> sig \<Longrightarrow> get sig' (snd (create sig (Some r) now now' s)) = get sig' s"
  using get_create [of sig r now now' s _ sig'] create_error [of sig "Some r" now now' s]
  by (cases "create sig (Some r) now now' s"; cases "fst (create sig (Some r) now now' s)") auto

lemma create_del_get: "sig \<noteq> '''' \<Longrightarrow> isl (get sig (snd (del sig (snd (create sig (Some r) now now' s)))))"
proof -
  assume "sig \<noteq> ''''"
  let ?s = "snd (create sig (Some r) now now' s)"
  have "fst (del sig ?s) = None" using create_get [OF \<open>sig \<noteq> ''''\<close>] del_ok by blast
  then have "del sig ?s = (None, snd (del sig ?s))" by (metis prod.collapse)
  from get_del [OF this, of sig] show ?thesis by simp
qed

lemma del_twice: "\<exists>e. fst (del sig (snd (del sig s))) = Some e"
proof (cases "fst (del sig s)")
  case None
  then have "del sig s = (None, snd (del sig s))" by (metis prod.collapse)
  from get_del [OF this, of sig] have "isl (get sig (snd (del sig s)))" by simp
  then show ?thesis using del_ok [of sig "snd (del sig s)"] by (cases "fst (del sig (snd (del sig s)))") auto
next
  case (Some e)
  then have "del sig s = (Some e, snd (del sig s))" by (metis prod.collapse)
  then have "snd (del sig s) = s" by (rule del_error)
  then show ?thesis using Some by simp
qed

end

lemmas request_defs = store_request_def load_request_def delete_request_def

interpretation access_store: request_store CreateAccessTokenSession GetAccessTokenSession DeleteAccessTokenSession
  by unfold_locales (auto simp: CreateAccessTokenSession_def GetAccessTokenSession_def DeleteAccessTokenSession_def request_defs
      split: option.splits if_splits)

interpretation refresh_store: request_store "\<lambda>sig. CreateRefreshTokenSession sig a" GetRefreshTokenSession DeleteRefreshTokenSession for a
  by unfold_locales (auto simp: CreateRefreshTokenSession_def GetRefreshTokenSession_def DeleteRefreshTokenSession_def request_defs
      split: option.splits if_splits)

interpretation pkce_store: request_store CreatePKCERequestSession GetPKCERequestSession DeletePKCERequestSession
  by unfold_locales (auto simp: CreatePKCERequestSession_def GetPKCERequestSession_def DeletePKCERequestSession_def request_defs
      split: option.splits if_splits)

text \<open>
  An access token, a refresh token and a PKCE request can be read back as stored until they are deleted, no other
  signature is affected, and once deleted they are reported as not found.
\<close>

theorem token_sessions_roundtrip:
  assumes "sig \<noteq> ''''"
  shows "GetAccessTokenSession sig (snd (CreateAccessTokenSession sig (Some r) now now' s)) = Inr r \<and>
    GetRefreshTokenSession sig (snd (CreateRefreshTokenSession sig a (Some r) now now' s)) = Inr r \<and>
    GetPKCERequestSession sig (snd (CreatePKCERequestSession sig (Some r) now now' s)) = Inr r \<and>
    (\<forall>other. other \<noteq> sig \<longrightarrow>
      GetAccessTokenSession other (snd (CreateAccessTokenSession sig (Some r) now now' s)) = GetAccessTokenSession other s) \<and>
    isl (GetAccessTokenSession sig (snd (DeleteAccessTokenSession sig (snd (CreateAccessTokenSession sig (Some r) now now' s))))) \<and>
    isl (GetRefreshTokenSession sig (snd (DeleteRefreshTokenSession sig (snd (CreateRefreshTokenSession sig a (Some r) now now' s)))))"
  using assms by (simp add: access_store.create_get refresh_store.create_get pkce_store.create_get access_store.create_other
      access_store.create_del_get refresh_store.create_del_get)

theorem token_sessions_roundtrip_witness:
  "GetAccessTokenSession ''t'' (snd (CreateAccessTokenSession ''t'' (Some \<lparr>rq_GetID = ''g'', rq_GetSession = None\<rparr>) 1 1 (NewMemoryStorage [])))
     = Inr \<lparr>rq_GetID = ''g'', rq_GetSession = None\<rparr>"
  using token_sessions_roundtrip [of "''t''"] by simp

section \<open>One-time use of authorization codes\<close>

definition creates_code :: "string \<Rightarrow> storage_event \<Rightarrow> bool" where
  "creates_code code e = (case e of Called c \<Rightarrow> (case c of Call_CreateAuthorizeCodeSession code' _ _ _ \<Rightarrow> code' = code | _ \<Rightarrow> False) | _ \<Rightarrow> False)"

definition invalidates_code :: "string \<Rightarrow> storage_event \<Rightarrow> gotime option" where
  "invalidates_code code e = (case e of Called c \<Rightarrow> (case c of Call_InvalidateAuthorizeCodeSession code' t \<Rightarrow> if code' = code then Some t else None
     | _ \<Rightarrow> None) | _ \<Rightarrow> None)"

lemma code_frame:
  assumes "\<not> creates_code code (Called c)" "invalidates_code code (Called c) = None"
  shows "map_of (ms_authCodes (snd (run_call c s))) code = map_of (ms_authCodes s) code"
    and "map_of (ms_invalidatedCodes (snd (run_call c s))) code = map_of (ms_invalidatedCodes s) code"
  using assms by (cases c; simp add: creates_code_def invalidates_code_def client_defs other_call_defs store_request_def
      split: option.splits sum.splits if_splits)+

lemma invalidated_ok: "gomap_ok (ms_invalidatedCodes s) \<Longrightarrow> gomap_ok (ms_invalidatedCodes (snd (run_call c s)))"
  by (cases c) (simp_all add: client_defs other_call_defs split: option.split sum.split)

lemma gomap_ok_delete_keys [simp]: "gomap_ok m \<Longrightarrow> gomap_ok (delete_keys ks m)"
  by (induction ks arbitrary: m) (simp_all add: delete_keys_def)

lemma map_of_delete_keys [simp]: "map_of (delete_keys ks m) k = (if k \<in> set ks then None else map_of m k)"
  by (induction ks arbitrary: m) (simp_all add: delete_keys_def)

lemma expired_entries_iff: "gomap_ok m \<Longrightarrow> k \<in> set (expired_entries now m) \<longleftrightarrow> (\<exists>e. map_of m k = Some e \<and> now > te_expiresAt e)"
  by (auto simp: expired_entries_def gomap_ok_lookup image_iff)

lemma expired_entries_here: "map_of m k = Some e \<Longrightarrow> now > te_expiresAt e \<Longrightarrow> k \<in> set (expired_entries now m)"
  by (force simp: expired_entries_def dest: map_of_SomeD)

lemma expired_entries_absent: "map_of m k = None \<Longrightarrow> k \<notin> set (expired_entries now m)"
  by (auto simp: expired_entries_def map_of_eq_None_iff)

text \<open>Before a code is created nothing in the system knows it.\<close>

definition code_fresh :: "string \<Rightarrow> auth_system \<Rightarrow> bool" where
  "code_fresh code y \<longleftrightarrow> map_of (ms_authCodes (as_store y)) code = None \<and> map_of (ms_invalidatedCodes (as_store y)) code = None \<and>
     gomap_ok (ms_invalidatedCodes (as_store y)) \<and>
     (\<forall>ek. as_phase y = CleanupCollected ek \<longrightarrow> code \<notin> set (ek_invalidatedCodes ek))"

text \<open>
  Afterwards its entry keeps its expiry, an invalidation outlives the entry, and a pending cleanup that forgets the invalidation
  forgets the entry too; \<open>used\<close> says that the code has been invalidated.
\<close>

definition code_inv :: "bool \<Rightarrow> string \<Rightarrow> gotime \<Rightarrow> auth_system \<Rightarrow> bool" where
  "code_inv used code exp y \<longleftrightarrow>
     (\<forall>a. map_of (ms_authCodes (as_store y)) code = Some a \<longrightarrow>
        te_expiresAt a = exp \<and> (used \<longrightarrow> map_of (ms_invalidatedCodes (as_store y)) code \<noteq> None)) \<and>
     (\<forall>i. map_of (ms_invalidatedCodes (as_store y)) code = Some i \<longrightarrow> exp \<le> te_expiresAt i) \<and>
     gomap_ok (ms_invalidatedCodes (as_store y)) \<and>
     (\<forall>ek. as_phase y = CleanupCollected ek \<longrightarrow> code \<in> set (ek_invalidatedCodes ek) \<longrightarrow>
        code \<in> set (ek_authCodes ek) \<or> map_of (ms_authCodes (as_store y)) code = None)"

lemma code_fresh_call:
  assumes "code_fresh code y" "\<not> creates_code code (Called c)"
  shows "code_fresh code (y\<lparr>as_store := snd (run_call c (as_store y))\<rparr>)"
proof (cases "invalidates_code code (Called c)")
  case None
  then show ?thesis using assms code_frame [OF assms(2) None] invalidated_ok by (simp add: code_fresh_def)
next
  case (Some t)
  then have "c = Call_InvalidateAuthorizeCodeSession code t"
    by (auto simp: invalidates_code_def split: storage_call.splits if_splits)
  then show ?thesis using assms(1) by (simp add: code_fresh_def InvalidateAuthorizeCodeSession_def)
qed

lemma code_fresh_step:
  assumes "auth_step y e y'" "code_fresh code y" "\<not> creates_code code e"
  shows "code_fresh code y'"
  using assms(1)
proof cases
  case (step_call c)
  then show ?thesis using code_fresh_call assms(2,3) by simp
next
  case (step_collect ek now)
  then show ?thesis using assms(2) by (auto simp: code_fresh_def collect_expired_def expired_entries_absent)
next
  case (step_sweep ek)
  then show ?thesis using assms(2) by (simp add: code_fresh_def delete_expired_def)
qed (use assms(2) in \<open>simp_all add: code_fresh_def\<close>)

lemma code_inv_call:
  assumes "code_inv used code exp y" "\<not> creates_code code (Called c)"
    and "\<And>t. invalidates_code code (Called c) = Some t \<Longrightarrow> exp \<le> t + DefaultInvalidatedCodeTTL"
  shows "code_inv (used \<or> invalidates_code code (Called c) \<noteq> None) code exp (y\<lparr>as_store := snd (run_call c (as_store y))\<rparr>)"
proof (cases "invalidates_code code (Called c)")
  case None
  then show ?thesis using assms(1) code_frame [OF assms(2) None] invalidated_ok by (simp add: code_inv_def)
next
  case (Some t)
  then have "c = Call_InvalidateAuthorizeCodeSession code t"
    by (auto simp: invalidates_code_def split: storage_call.splits if_splits)
  then show ?thesis using assms(1) assms(3) [OF Some]
    by (auto simp: code_inv_def InvalidateAuthorizeCodeSession_def split: option.split)
qed

lemma code_inv_step:
  assumes "auth_step y e y'" "code_inv used code exp y" "\<not> creates_code code e"
    and "\<And>t. invalidates_code code e = Some t \<Longrightarrow> exp \<le> t + DefaultInvalidatedCodeTTL"
  shows "code_inv (used \<or> invalidates_code code e \<noteq> None) code exp y'"
  using assms(1)
proof cases
  case (step_call c)
  then show ?thesis using code_inv_call [OF assms(2)] assms(3,4) by simp
next
  case (step_collect ek now)
  have "code \<in> set (ek_authCodes ek) \<or> map_of (ms_authCodes (as_store y)) code = None" if c: "code \<in> set (ek_invalidatedCodes ek)"
  proof (cases "map_of (ms_authCodes (as_store y)) code")
    case (Some a)
    obtain i where "map_of (ms_invalidatedCodes (as_store y)) code = Some i" "now > te_expiresAt i"
      using c step_collect(4) assms(2) by (auto simp: collect_expired_def expired_entries_iff code_inv_def)
    then have "now > te_expiresAt a" using assms(2) Some by (fastforce simp: code_inv_def)
    then show ?thesis using step_collect(4) Some by (simp add: collect_expired_def expired_entries_here)
  qed simp
  then show ?thesis using step_collect assms(2) by (auto simp: code_inv_def invalidates_code_def)
next
  case (step_sweep ek)
  then show ?thesis using assms(2) by (auto simp: code_inv_def invalidates_code_def delete_expired_def)
qed (use assms(2) in \<open>simp_all add: code_inv_def invalidates_code_def\<close>)

lemma auth_run_append: "auth_run y1 fs y2 \<Longrightarrow> auth_run y es y1 \<Longrightarrow> auth_run y (es @ fs) y2"
  by (induction rule: auth_run.induct) (auto simp flip: append_assoc intro: run_more)

lemma auth_run_snoc: "auth_run y (es @ [e]) y2 \<longleftrightarrow> (\<exists>y1. auth_run y es y1 \<and> auth_step y1 e y2)"
  by (auto elim: auth_run.cases intro: run_more)

lemma auth_run_split: "auth_run y (es @ fs) y2 \<Longrightarrow> \<exists>y1. auth_run y es y1 \<and> auth_run y1 fs y2"
proof (induction fs arbitrary: y2 rule: rev_induct)
  case Nil
  then show ?case using run_none by auto
next
  case (snoc f fs)
  then obtain y3 where y3: "auth_run y (es @ fs) y3" "auth_step y3 f y2"
    using auth_run_snoc [of y "es @ fs" f y2] by auto
  then show ?case using snoc.IH run_more by blast
qed

lemma code_fresh_run:
  "auth_run y es y' \<Longrightarrow> code_fresh code y \<Longrightarrow> \<forall>e \<in> set es. \<not> creates_code code e \<Longrightarrow> code_fresh code y'"
  by (induction rule: auth_run.induct) (auto intro: code_fresh_step)

lemma code_inv_run:
  "auth_run y es y' \<Longrightarrow> code_inv used code exp y \<Longrightarrow> \<forall>e \<in> set es. \<not> creates_code code e \<Longrightarrow>
   \<forall>e \<in> set es. \<forall>t. invalidates_code code e = Some t \<longrightarrow> exp \<le> t + DefaultInvalidatedCodeTTL \<Longrightarrow>
   code_inv (used \<or> (\<exists>e \<in> set es. invalidates_code code e \<noteq> None)) code exp y'"
proof (induction rule: auth_run.induct)
  case (run_more y es y1 e y2)
  then have "code_inv (used \<or> (\<exists>e \<in> set es. invalidates_code code e \<noteq> None)) code exp y1" by simp
  from code_inv_step [OF run_more.hyps(2) this] run_more.prems show ?case by (simp add: disj_ac)
qed simp

lemma start_code_fresh: "code_fresh code (start_system opts)"
proof -
  have "ms_authCodes (fold apply_option opts s) = ms_authCodes s \<and> ms_invalidatedCodes (fold apply_option opts s) = ms_invalidatedCodes s" for s
  proof (induction opts arbitrary: s)
    case (Cons opt opts)
    then show ?case by (cases opt) simp_all
  qed simp
  then show ?thesis by (simp add: code_fresh_def start_system_def NewMemoryStorage_def)
qed

lemma created_code_inv:
  "code_fresh code y \<Longrightarrow> code_inv False code (getExpirationFromRequester (Some r) AuthorizeCode DefaultAuthCodeTTL now')
     (y\<lparr>as_store := snd (run_call (Call_CreateAuthorizeCodeSession code (Some r) now now') (as_store y))\<rparr>)"
  by (auto simp: code_fresh_def code_inv_def CreateAuthorizeCodeSession_def store_request_def)

text \<open>
  Claim C8: an authorization code is good for one use. Once a code has been created and then invalidated, looking it up never
  succeeds again, in whatever order other calls and both halves of the cleanup run: it reports the code as already used or as not
  found. The code must not be created twice, and at each invalidation the code must expire within the thirty minutes for which
  invalidations are remembered, which the ten-minute limit on the lifetime of codes ensures.
\<close>

theorem authorization_code_single_use:
  assumes "auth_run (start_system opts) (pre @ Called (Call_CreateAuthorizeCodeSession code (Some r) now now') # post) y"
    and "\<forall>e \<in> set pre \<union> set post. \<not> creates_code code e"
    and "Called (Call_InvalidateAuthorizeCodeSession code t) \<in> set post"
    and "\<forall>t. Called (Call_InvalidateAuthorizeCodeSession code t) \<in> set post \<longrightarrow>
      getExpirationFromRequester (Some r) AuthorizeCode DefaultAuthCodeTTL now' \<le> t + DefaultInvalidatedCodeTTL"
  shows "\<exists>e. snd (GetAuthorizeCodeSession code (as_store y)) = Some e \<and>
    (storage_error_Is e Fosite_ErrInvalidatedAuthorizeCode \<or> storage_error_Is e Storage_ErrNotFound)"
proof -
  let ?exp = "getExpirationFromRequester (Some r) AuthorizeCode DefaultAuthCodeTTL now'"
  let ?create = "Call_CreateAuthorizeCodeSession code (Some r) now now'"
  have "auth_run (start_system opts) ((pre @ [Called ?create]) @ post) y" using assms(1) by simp
  then obtain y2 where y2: "auth_run (start_system opts) (pre @ [Called ?create]) y2" "auth_run y2 post y"
    using auth_run_split by blast
  then obtain y1 where y1: "auth_run (start_system opts) pre y1" "auth_step y1 (Called ?create) y2"
    using auth_run_snoc by blast
  have "code_fresh code y1" using code_fresh_run [OF y1(1) start_code_fresh] assms(2) by blast
  moreover have "y2 = y1\<lparr>as_store := snd (run_call ?create (as_store y1))\<rparr>" using y1(2) by (cases rule: auth_step.cases) auto
  ultimately have inv: "code_inv False code ?exp y2" by (simp only: created_code_inv)
  have inval: "e = Called (Call_InvalidateAuthorizeCodeSession code u)" if "invalidates_code code e = Some u" for e u
    using that by (auto simp: invalidates_code_def split: storage_event.splits storage_call.splits if_splits)
  have times: "\<forall>e \<in> set post. \<forall>u. invalidates_code code e = Some u \<longrightarrow> ?exp \<le> u + DefaultInvalidatedCodeTTL"
    using inval assms(4) by blast
  have "invalidates_code code (Called (Call_InvalidateAuthorizeCodeSession code t)) \<noteq> None" by (simp add: invalidates_code_def)
  then have used: "\<exists>e \<in> set post. invalidates_code code e \<noteq> None" using assms(3) by blast
  have "code_inv True code ?exp y" using code_inv_run [OF y2(2) inv _ times] assms(2) used by simp
  then show ?thesis
    by (auto simp: code_inv_def GetAuthorizeCodeSession_def storage_error_Is_def storage_not_found_def split: option.splits)
qed

definition example_request :: Requester where
  "example_request = \<lparr>rq_GetID = ''grant'', rq_GetSession = None\<rparr>"

lemma auth_run_calls: "auth_run y (map Called cs) (y\<lparr>as_store := fold (\<lambda>c s. snd (run_call c s)) cs (as_store y)\<rparr>)"
proof (induction cs rule: rev_induct)
  case (snoc c cs)
  from run_more [OF snoc.IH step_call [of _ c]] show ?case by simp
qed (simp add: run_none)

theorem authorization_code_single_use_witness:
  "let s = fold (\<lambda>c s. snd (run_call c s)) [Call_CreateAuthorizeCodeSession ''code'' (Some example_request) 1 1,
       Call_InvalidateAuthorizeCodeSession ''code'' 2] (NewMemoryStorage []) in
   \<exists>e. snd (GetAuthorizeCodeSession ''code'' s) = Some e"
proof -
  let ?cs = "[Call_CreateAuthorizeCodeSession ''code'' (Some example_request) 1 1, Call_InvalidateAuthorizeCodeSession ''code'' 2]"
  let ?y = "(start_system [])\<lparr>as_store := fold (\<lambda>c s. snd (run_call c s)) ?cs (as_store (start_system []))\<rparr>"
  have run: "auth_run (start_system []) ([] @ Called (Call_CreateAuthorizeCodeSession ''code'' (Some example_request) 1 1) #
      [Called (Call_InvalidateAuthorizeCodeSession ''code'' 2)]) ?y"
    using auth_run_calls [of "start_system []" ?cs] by simp
  have exp: "getExpirationFromRequester (Some example_request) AuthorizeCode DefaultAuthCodeTTL 1 \<le> 2 + DefaultInvalidatedCodeTTL"
    by code_simp
  have "\<exists>e. snd (GetAuthorizeCodeSession ''code'' (as_store ?y)) = Some e"
    using authorization_code_single_use [OF run] exp by (auto simp: creates_code_def)
  then show ?thesis by (simp add: start_system_def Let_def)
qed

section \<open>Well-formed maps\<close>

definition storage_ok :: "MemoryStorage \<Rightarrow> bool" where
  "storage_ok s \<longleftrightarrow> gomap_ok (ms_authCodes s) \<and> gomap_ok (ms_accessTokens s) \<and> gomap_ok (ms_refreshTokens s) \<and>
     gomap_ok (ms_pkceRequests s) \<and> gomap_ok (ms_upstreamTokens s) \<and> gomap_ok (ms_pendingAuthorizations s) \<and>
     gomap_ok (ms_clientAssertionJWTs s) \<and> gomap_ok (ms_users s) \<and> gomap_ok (ms_providerIdentities s) \<and>
     gomap_ok (ms_invalidatedCodes s)"

lemma run_call_storage_ok: "storage_ok s \<Longrightarrow> storage_ok (snd (run_call c s))"
  unfolding storage_ok_def
  by (cases c; simp add: client_defs other_call_defs store_request_def delete_request_def revoke_requests_def
      split: option.split sum.split)

lemma delete_expired_storage_ok: "storage_ok s \<Longrightarrow> storage_ok (delete_expired ek s)"
  by (simp add: storage_ok_def delete_expired_def)

lemma auth_step_storage_ok: "auth_step y e y' \<Longrightarrow> storage_ok (as_store y) \<Longrightarrow> storage_ok (as_store y')"
  by (cases rule: auth_step.cases) (auto simp: run_call_storage_ok delete_expired_storage_ok)

lemma start_storage_ok: "storage_ok (as_store (start_system opts))"
proof -
  have "storage_ok (fold apply_option opts s) = storage_ok s" for s
  proof (induction opts arbitrary: s)
    case (Cons opt opts)
    then show ?case by (cases opt) (simp_all add: storage_ok_def)
  qed simp
  then show ?thesis by (simp add: start_system_def NewMemoryStorage_def storage_ok_def)
qed

lemma reachable_storage_ok: "auth_run y es y' \<Longrightarrow> y = start_system opts \<Longrightarrow> storage_ok (as_store y')"
  by (induction rule: auth_run.induct) (auto intro: auth_step_storage_ok start_storage_ok)

section \<open>Revocation\<close>

lemma revoked_lookup:
  "gomap_ok m \<Longrightarrow> load_request hint sig (revoke_requests i m) = Inr r \<longleftrightarrow> load_request hint sig m = Inr r \<and> rq_GetID r \<noteq> i"
  by (auto simp: load_request_def revoke_requests_def map_of_filter_ok split: option.split)

text \<open>
  Claim C21: rotating a refresh token makes it unusable and takes the access tokens of its grant with it, and nothing else: exactly the
  access tokens of other grants and the other refresh tokens can still be loaded.
\<close>

theorem rotation_revokes_grant:
  assumes "auth_run (start_system opts) es y" "s = as_store y" "s' = snd (RotateRefreshToken grant sig s)"
  shows "isl (GetRefreshTokenSession sig s') \<and>
    (\<forall>other. other \<noteq> sig \<longrightarrow> GetRefreshTokenSession other s' = GetRefreshTokenSession other s) \<and>
    (\<forall>t r. GetAccessTokenSession t s' = Inr r \<longleftrightarrow> GetAccessTokenSession t s = Inr r \<and> rq_GetID r \<noteq> grant)"
proof -
  have "gomap_ok (ms_accessTokens s)" using reachable_storage_ok [OF assms(1) refl] assms(2) by (simp add: storage_ok_def)
  then show ?thesis using assms(3)
    by (simp add: RotateRefreshToken_def GetRefreshTokenSession_def GetAccessTokenSession_def revoked_lookup)
      (simp add: load_request_def)
qed

theorem rotation_revokes_grant_witness:
  "let s = fold (\<lambda>c s. snd (run_call c s)) [Call_CreateRefreshTokenSession ''r'' ''t'' (Some example_request) 1 1,
       Call_CreateAccessTokenSession ''t'' (Some example_request) 1 1,
       Call_CreateAccessTokenSession ''u'' (Some (example_request\<lparr>rq_GetID := ''other''\<rparr>)) 1 1] (NewMemoryStorage []);
       s' = snd (RotateRefreshToken ''grant'' ''r'' s) in
   \<not> isl (GetRefreshTokenSession ''r'' s) \<and> isl (GetRefreshTokenSession ''r'' s') \<and>
   GetAccessTokenSession ''t'' s = Inr example_request \<and> GetAccessTokenSession ''t'' s' \<noteq> Inr example_request \<and>
   GetAccessTokenSession ''u'' s' = Inr (example_request\<lparr>rq_GetID := ''other''\<rparr>)"
proof -
  let ?other = "example_request\<lparr>rq_GetID := ''other''\<rparr>"
  let ?cs = "[Call_CreateRefreshTokenSession ''r'' ''t'' (Some example_request) 1 1, Call_CreateAccessTokenSession ''t'' (Some example_request) 1 1,
    Call_CreateAccessTokenSession ''u'' (Some ?other) 1 1]"
  let ?s = "fold (\<lambda>c s. snd (run_call c s)) ?cs (NewMemoryStorage [])"
  let ?y = "(start_system [])\<lparr>as_store := fold (\<lambda>c s. snd (run_call c s)) ?cs (as_store (start_system []))\<rparr>"
  have run: "auth_run (start_system []) (map Called ?cs) ?y" by (rule auth_run_calls)
  have y: "?s = as_store ?y" by (simp only: start_system_def auth_system.simps)
  note rotated = rotation_revokes_grant [OF run y refl, where grant = "''grant''" and sig = "''r''"]
  have r: "\<not> isl (GetRefreshTokenSession ''r'' ?s)" by code_simp
  have t: "GetAccessTokenSession ''t'' ?s = Inr example_request" by code_simp
  have u: "GetAccessTokenSession ''u'' ?s = Inr ?other" by code_simp
  have "GetAccessTokenSession ''u'' (snd (RotateRefreshToken ''grant'' ''r'' ?s)) = Inr ?other"
    by (subst rotated [THEN conjunct2, THEN conjunct2, rule_format]) (use u in simp)
  moreover have "GetAccessTokenSession ''t'' (snd (RotateRefreshToken ''grant'' ''r'' ?s)) \<noteq> Inr example_request"
    by (subst rotated [THEN conjunct2, THEN conjunct2, rule_format]) (simp add: example_request_def)
  ultimately show ?thesis unfolding Let_def by (intro conjI r t rotated [THEN conjunct1])
qed

section \<open>Tokens of upstream providers\<close>

lemma clone_id [simp]: "cloneUpstreamTokens t = t"
  by (cases t) (simp_all add: cloneUpstreamTokens_def)

text \<open>
  The tokens of a session and provider are read back exactly as stored, together with the error of an expired
  item once their own expiry has passed, and every other session and provider keeps its row; deleting a session removes all of
  its rows and no other.
\<close>

theorem upstream_tokens_isolated:
  assumes "sid \<noteq> ''''" "p \<noteq> ''''" "s' = snd (StoreUpstreamTokens sid p (Some t) now s)" "gomap_ok (ms_upstreamTokens s)"
  shows "GetUpstreamTokens sid p now' s' = (Some t, if UpstreamTokens_IsExpired (Some t) now'
      then Some \<lparr>se_chain = [Storage_ErrExpired], se_hint = ''''\<rparr> else None) \<and>
    (\<forall>sid' p'. (sid', p') \<noteq> (sid, p) \<longrightarrow> GetUpstreamTokens sid' p' now' s' = GetUpstreamTokens sid' p' now' s) \<and>
    (\<forall>sid' p'. GetUpstreamTokens sid' p' now' (snd (DeleteUpstreamTokens sid s')) =
       (if sid' = sid then (None, Some (case check_row sid' p' of Some e \<Rightarrow> e | None \<Rightarrow> storage_not_found ''Upstream tokens not found''))
        else GetUpstreamTokens sid' p' now' s))"
proof -
  let ?entry = "\<lparr>te_value = Some t, te_createdAt = now, te_expiresAt = upstream_expiry (Some t) now\<rparr>"
  have s': "s' = s\<lparr>ms_upstreamTokens := AList.update (sid, p) ?entry (ms_upstreamTokens s)\<rparr>"
    using assms(1-3) by (simp add: StoreUpstreamTokens_def check_row_def)
  have "map_of (ms_upstreamTokens s') (sid, p) = Some ?entry" by (simp add: s')
  then have "((sid, p), ?entry) \<in> set (ms_upstreamTokens s')" by (rule map_of_SomeD)
  then have "\<exists>(key, entry) \<in> set (ms_upstreamTokens s'). fst key = sid" by force
  then have del: "snd (DeleteUpstreamTokens sid s') = s'\<lparr>ms_upstreamTokens := filter (\<lambda>(key, entry). fst key \<noteq> sid) (ms_upstreamTokens s')\<rparr>"
    by (simp add: DeleteUpstreamTokens_def)
  have "gomap_ok (ms_upstreamTokens s')" using assms(4) by (simp add: s')
  then have look: "map_of (ms_upstreamTokens (snd (DeleteUpstreamTokens sid s'))) (sid', p') =
      (if sid' = sid then None else map_of (ms_upstreamTokens s) (sid', p'))" for sid' p'
    unfolding del by (simp add: map_of_filter_ok) (simp add: s' split: option.split)
  have stored: "map_of (ms_upstreamTokens s') row = (if row = (sid, p) then Some ?entry else map_of (ms_upstreamTokens s) row)" for row
    by (simp add: s')
  have "check_row sid p = None" using assms(1,2) by (simp add: check_row_def)
  then show ?thesis
    by (intro conjI allI impI)
      (auto simp: GetUpstreamTokens_def look stored UpstreamTokens_IsExpired_def split: option.split)
qed

definition example_tokens :: "gotime \<Rightarrow> UpstreamTokens" where
  "example_tokens t = \<lparr>ut_ProviderID = ''idp'', ut_AccessToken = ''at'', ut_RefreshToken = ''rt'', ut_IDToken = '''', ut_ExpiresAt = t,
     ut_SessionExpiresAt = 0, ut_UserID = ''u'', ut_UpstreamSubject = ''sub'', ut_ClientID = ''c''\<rparr>"

theorem upstream_tokens_isolated_witness:
  "GetUpstreamTokens ''s'' ''idp'' 7 (snd (StoreUpstreamTokens ''s'' ''idp'' (Some (example_tokens 5)) 1 (NewMemoryStorage [])))
     = (Some (example_tokens 5), Some \<lparr>se_chain = [Storage_ErrExpired], se_hint = ''''\<rparr>)"
proof -
  have exp: "UpstreamTokens_IsExpired (Some (example_tokens 5)) 7" by code_simp
  have ok: "gomap_ok (ms_upstreamTokens (NewMemoryStorage []))" by code_simp
  show ?thesis using upstream_tokens_isolated [OF _ _ refl ok, where sid = "''s''" and p = "''idp''" and t = "example_tokens 5" and now = 1 and now' = 7] exp by simp
qed

lemma compareExpiry_order:
  "compareExpiry a b > 0 \<longleftrightarrow> \<not> IsZero b \<and> (IsZero a \<or> a > b)"
  by (auto simp: compareExpiry_def)

definition user_tokens :: "string \<Rightarrow> string \<Rightarrow> (upstreamKey, UpstreamTokens option timedEntry) gomap \<Rightarrow> UpstreamTokens set" where
  "user_tokens u p m = {t. \<exists>(key, entry) \<in> set m. te_value entry = Some t \<and> ut_UserID t = u \<and> ut_ProviderID t = p}"

lemma user_tokens_Cons: "user_tokens u p ((k, e) # m) =
    (case te_value e of None \<Rightarrow> {} | Some t \<Rightarrow> if ut_UserID t = u \<and> ut_ProviderID t = p then {t} else {}) \<union> user_tokens u p m"
  by (auto simp: user_tokens_def split: option.split)

lemma latest_tokens_best:
  "(latest_tokens u p w m = None \<longleftrightarrow> w = None \<and> user_tokens u p m = {}) \<and>
   (\<forall>t. latest_tokens u p w m = Some t \<longrightarrow> t \<in> user_tokens u p m \<union> set_option w \<and>
     (\<forall>t' \<in> user_tokens u p m \<union> set_option w. \<not> compareExpiry (ut_ExpiresAt t') (ut_ExpiresAt t) > 0))"
proof (induction u p w m rule: latest_tokens.induct)
  case (1 u p w)
  then show ?case by (auto simp: user_tokens_def compareExpiry_order)
next
  case (2 u p w k e m)
  show ?case
    using 2 unfolding latest_tokens.simps user_tokens_Cons
    by (cases "te_value e"; cases w) (auto simp: compareExpiry_order split: if_splits)
qed

text \<open>
  Looking up the latest tokens of a user at a provider finds tokens whenever some session of that user has them, and what
  it returns belongs to that user and provider and no other row of theirs lasts longer, where tokens without expiry
  last longest.
\<close>

theorem latest_upstream_tokens:
  assumes "u \<noteq> ''''" "p \<noteq> ''''"
  shows "case GetLatestUpstreamTokensForUser u p s of
      Inr t \<Rightarrow> t \<in> user_tokens u p (ms_upstreamTokens s) \<and>
        (\<forall>t' \<in> user_tokens u p (ms_upstreamTokens s). IsZero (ut_ExpiresAt t) \<or> \<not> IsZero (ut_ExpiresAt t') \<and> ut_ExpiresAt t' \<le> ut_ExpiresAt t)
    | Inl e \<Rightarrow> storage_error_Is e Storage_ErrNotFound \<and> user_tokens u p (ms_upstreamTokens s) = {}"
  using assms latest_tokens_best [of u p None "ms_upstreamTokens s"]
  by (cases "latest_tokens u p None (ms_upstreamTokens s)")
    (auto simp: GetLatestUpstreamTokensForUser_def compareExpiry_order storage_error_Is_def storage_not_found_def not_less)

theorem latest_upstream_tokens_witness:
  "let s = snd (StoreUpstreamTokens ''s2'' ''idp'' (Some (example_tokens 9)) 1
       (snd (StoreUpstreamTokens ''s1'' ''idp'' (Some (example_tokens 5)) 1 (NewMemoryStorage []))))
   in \<exists>t. GetLatestUpstreamTokensForUser ''u'' ''idp'' s = Inr t \<and> t \<in> user_tokens ''u'' ''idp'' (ms_upstreamTokens s)"
proof -
  let ?s = "snd (StoreUpstreamTokens ''s2'' ''idp'' (Some (example_tokens 9)) 1
       (snd (StoreUpstreamTokens ''s1'' ''idp'' (Some (example_tokens 5)) 1 (NewMemoryStorage []))))"
  have "GetLatestUpstreamTokensForUser ''u'' ''idp'' ?s = Inr (example_tokens 9)" by code_simp
  then show ?thesis using latest_upstream_tokens [of "''u''" "''idp''" ?s] by (simp add: Let_def)
qed

section \<open>What the cleanup removes\<close>

lemma collect_upstream:
  "gomap_ok (ms_upstreamTokens s) \<Longrightarrow> k \<in> set (ek_upstreamTokens (collect_expired now s)) \<longleftrightarrow>
     (\<exists>e. map_of (ms_upstreamTokens s) k = Some e \<and> \<not> IsZero (te_expiresAt e) \<and> now > te_expiresAt e)"
  by (cases k) (auto simp: collect_expired_def gomap_ok_lookup image_iff)

lemma collect_jwts:
  "gomap_ok (ms_clientAssertionJWTs s) \<Longrightarrow> k \<in> set (ek_clientAssertionJWTs (collect_expired now s)) \<longleftrightarrow>
     (\<exists>t. map_of (ms_clientAssertionJWTs s) k = Some t \<and> now > t)"
  by (auto simp: collect_expired_def gomap_ok_lookup image_iff)

definition live :: "gotime \<Rightarrow> 'a timedEntry option \<Rightarrow> 'a timedEntry option" where
  "live now e = (case e of None \<Rightarrow> None | Some x \<Rightarrow> if now > te_expiresAt x then None else Some x)"

lemma live_entries: "gomap_ok m \<Longrightarrow> map_of (delete_keys (expired_entries now m) m) k = live now (map_of m k)"
  using expired_entries_iff [of m k now] by (auto simp: live_def split: option.split)

text \<open>
  Claim C20: when no call comes between its two halves, a cleanup at some time removes exactly the entries that have expired by
  then: what is left of codes, tokens, requests, pending authorizations and assertion identifiers is what was live, and upstream
  tokens without an expiry stay. The mark that a code has been used goes when it has expired itself, and also, expired or not,
  together with its expired code; no other mark is lost. Clients and their order, users, identities and the credentials of
  upstream registrations are untouched.
\<close>

theorem cleanup_removes_expired_exactly:
  assumes "auth_run (start_system opts) es y" "s = as_store y" "s' = delete_expired (collect_expired now s) s"
  shows "map_of (ms_authCodes s') k = live now (map_of (ms_authCodes s) k) \<and>
    map_of (ms_invalidatedCodes s') k = (if map_of (ms_authCodes s) k \<noteq> None \<and> live now (map_of (ms_authCodes s) k) = None then None
      else live now (map_of (ms_invalidatedCodes s) k)) \<and>
    map_of (ms_accessTokens s') k = live now (map_of (ms_accessTokens s) k) \<and>
    map_of (ms_refreshTokens s') k = live now (map_of (ms_refreshTokens s) k) \<and>
    map_of (ms_pkceRequests s') k = live now (map_of (ms_pkceRequests s) k) \<and>
    map_of (ms_pendingAuthorizations s') k = live now (map_of (ms_pendingAuthorizations s) k) \<and>
    map_of (ms_upstreamTokens s') row = (case map_of (ms_upstreamTokens s) row of Some e \<Rightarrow> if IsZero (te_expiresAt e) then Some e else live now (Some e)
      | None \<Rightarrow> None) \<and>
    map_of (ms_clientAssertionJWTs s') k = (case map_of (ms_clientAssertionJWTs s) k of
      Some t \<Rightarrow> if now > t then None else Some t | None \<Rightarrow> None) \<and>
    ClientAssertionJWTValid k now s' = ClientAssertionJWTValid k now s \<and>
    ms_clients s' = ms_clients s \<and> ms_clientOrder s' = ms_clientOrder s \<and> ms_users s' = ms_users s \<and>
    ms_providerIdentities s' = ms_providerIdentities s \<and> ms_dcrCredentials s' = ms_dcrCredentials s"
proof -
  have ok: "storage_ok s" using reachable_storage_ok [OF assms(1) refl] assms(2) by simp
  have jwt: "map_of (ms_clientAssertionJWTs s') k = (case map_of (ms_clientAssertionJWTs s) k of
      Some t \<Rightarrow> if now > t then None else Some t | None \<Rightarrow> None)"
    using ok by (auto simp: assms(3) delete_expired_def collect_jwts storage_ok_def split: option.split)
  then have valid: "ClientAssertionJWTValid k now s' = ClientAssertionJWTValid k now s"
    by (simp add: ClientAssertionJWTValid_def split: option.split)
  have upstream: "map_of (ms_upstreamTokens s') row = (case map_of (ms_upstreamTokens s) row of
      Some e \<Rightarrow> if IsZero (te_expiresAt e) then Some e else live now (Some e) | None \<Rightarrow> None)"
    using ok by (auto simp: assms(3) delete_expired_def collect_upstream storage_ok_def live_def split: option.split)
  have fields: "ms_authCodes s' = delete_keys (expired_entries now (ms_authCodes s)) (ms_authCodes s)"
    "ms_accessTokens s' = delete_keys (expired_entries now (ms_accessTokens s)) (ms_accessTokens s)"
    "ms_refreshTokens s' = delete_keys (expired_entries now (ms_refreshTokens s)) (ms_refreshTokens s)"
    "ms_pkceRequests s' = delete_keys (expired_entries now (ms_pkceRequests s)) (ms_pkceRequests s)"
    "ms_pendingAuthorizations s' = delete_keys (expired_entries now (ms_pendingAuthorizations s)) (ms_pendingAuthorizations s)"
    "ms_clients s' = ms_clients s" "ms_clientOrder s' = ms_clientOrder s" "ms_users s' = ms_users s"
    "ms_providerIdentities s' = ms_providerIdentities s" "ms_dcrCredentials s' = ms_dcrCredentials s"
    by (simp_all add: assms(3) delete_expired_def collect_expired_def)
  have marks: "map_of (ms_invalidatedCodes s') k = (if map_of (ms_authCodes s) k \<noteq> None \<and> live now (map_of (ms_authCodes s) k) = None then None
      else live now (map_of (ms_invalidatedCodes s) k))"
    using ok by (auto simp: assms(3) delete_expired_def collect_expired_def storage_ok_def expired_entries_iff live_def split: option.splits)
  show ?thesis using ok jwt valid upstream marks unfolding storage_ok_def fields by (simp add: live_entries del: map_of_delete_keys)
qed

theorem cleanup_removes_expired_exactly_witness:
  "let s = fold (\<lambda>c s. snd (run_call c s)) [Call_CreateAuthorizeCodeSession ''code'' (Some example_request) 1 1,
       Call_InvalidateAuthorizeCodeSession ''code'' DefaultAuthCodeTTL,
       Call_CreateAccessTokenSession ''t'' (Some example_request) 1 1] (NewMemoryStorage []);
       s' = delete_expired (collect_expired (2 + DefaultAuthCodeTTL) s) s in
   map_of (ms_authCodes s) ''code'' \<noteq> None \<and> map_of (ms_invalidatedCodes s) ''code'' \<noteq> None \<and>
   map_of (ms_authCodes s') ''code'' = None \<and> map_of (ms_invalidatedCodes s') ''code'' = None \<and>
   map_of (ms_accessTokens s') ''t'' = map_of (ms_accessTokens s) ''t'' \<and> map_of (ms_accessTokens s) ''t'' \<noteq> None"
proof -
  let ?cs = "[Call_CreateAuthorizeCodeSession ''code'' (Some example_request) 1 1,
    Call_InvalidateAuthorizeCodeSession ''code'' DefaultAuthCodeTTL, Call_CreateAccessTokenSession ''t'' (Some example_request) 1 1]"
  let ?s = "fold (\<lambda>c s. snd (run_call c s)) ?cs (NewMemoryStorage [])"
  let ?y = "(start_system [])\<lparr>as_store := fold (\<lambda>c s. snd (run_call c s)) ?cs (as_store (start_system []))\<rparr>"
  have run: "auth_run (start_system []) (map Called ?cs) ?y" by (rule auth_run_calls)
  have y: "?s = as_store ?y" by (simp only: start_system_def auth_system.simps)
  have code: "map_of (ms_authCodes ?s) ''code'' \<noteq> None" by code_simp
  have mark: "map_of (ms_invalidatedCodes ?s) ''code'' \<noteq> None" by code_simp
  have token: "map_of (ms_accessTokens ?s) ''t'' \<noteq> None" by code_simp
  have expired: "live (2 + DefaultAuthCodeTTL) (map_of (ms_authCodes ?s) ''code'') = None" by code_simp
  have fresh: "live (2 + DefaultAuthCodeTTL) (map_of (ms_accessTokens ?s) ''t'') = map_of (ms_accessTokens ?s) ''t''" by code_simp
  note c = cleanup_removes_expired_exactly [OF run y refl, of "2 + DefaultAuthCodeTTL" "''code''"]
  note t = cleanup_removes_expired_exactly [OF run y refl, of "2 + DefaultAuthCodeTTL" "''t''"]
  show ?thesis unfolding Let_def
    by (intro conjI code mark token c [THEN conjunct1, unfolded expired]
        c [THEN conjunct2, THEN conjunct1, unfolded expired, unfolded if_P [OF conjI [OF code refl]]]
        t [THEN conjunct2, THEN conjunct2, THEN conjunct1, unfolded fresh])
qed

text \<open>
  Claim C36: between its two halves the cleanup can lose an entry that is not expired. A row of upstream tokens is found expired; before
  the write lock is taken the session stores fresh tokens under the same key; the deletion by key then removes the fresh
  tokens, and the session has no tokens although it has just obtained some that are valid.
\<close>

theorem cleanup_race_drops_fresh_tokens:
  "\<exists>y. auth_run (start_system []) [Called (Call_StoreUpstreamTokens ''s'' ''idp'' (Some (example_tokens 1)) 1),
       Collected (2 + DefaultRefreshTokenTTL), Called (Call_StoreUpstreamTokens ''s'' ''idp'' (Some (example_tokens (9 + DefaultRefreshTokenTTL))) (3 + DefaultRefreshTokenTTL)),
       Swept] y \<and>
     \<not> UpstreamTokens_IsExpired (Some (example_tokens (9 + DefaultRefreshTokenTTL))) (4 + DefaultRefreshTokenTTL) \<and>
     GetUpstreamTokens ''s'' ''idp'' (4 + DefaultRefreshTokenTTL) (as_store y) = (None, Some (storage_not_found ''Upstream tokens not found''))"
proof -
  let ?c1 = "Call_StoreUpstreamTokens ''s'' ''idp'' (Some (example_tokens 1)) 1"
  let ?c2 = "Call_StoreUpstreamTokens ''s'' ''idp'' (Some (example_tokens (9 + DefaultRefreshTokenTTL))) (3 + DefaultRefreshTokenTTL)"
  define y1 where "y1 = (start_system [])\<lparr>as_store := snd (run_call ?c1 (as_store (start_system [])))\<rparr>"
  define ek where "ek = collect_expired (2 + DefaultRefreshTokenTTL) (as_store y1)"
  define y2 where "y2 = y1\<lparr>as_phase := (if nothing_expired ek then CleanupWaiting else CleanupCollected ek)\<rparr>"
  define y3 where "y3 = y2\<lparr>as_store := snd (run_call ?c2 (as_store y2))\<rparr>"
  define y4 where "y4 = y3\<lparr>as_store := delete_expired ek (as_store y3), as_phase := CleanupWaiting\<rparr>"
  have s1: "auth_run (start_system []) ([] @ [Called ?c1]) y1" unfolding y1_def by (rule run_more [OF run_none step_call])
  have "as_phase y1 = CleanupWaiting" by (simp add: y1_def start_system_def)
  then have s2: "auth_step y1 (Collected (2 + DefaultRefreshTokenTTL)) y2" unfolding y2_def by (rule step_collect) (simp add: ek_def)
  have s3: "auth_step y2 (Called ?c2) y3" unfolding y3_def by (rule step_call)
  have "\<not> nothing_expired ek" unfolding ek_def y1_def by code_simp
  then have "as_phase y3 = CleanupCollected ek" by (simp add: y3_def y2_def)
  then have s4: "auth_step y3 Swept y4" unfolding y4_def by (rule step_sweep)
  have "auth_run (start_system []) (((([] @ [Called ?c1]) @ [Collected (2 + DefaultRefreshTokenTTL)]) @ [Called ?c2]) @ [Swept]) y4"
    by (rule run_more [OF run_more [OF run_more [OF s1 s2] s3] s4])
  moreover have "GetUpstreamTokens ''s'' ''idp'' (4 + DefaultRefreshTokenTTL) (as_store y4) = (None, Some (storage_not_found ''Upstream tokens not found''))"
    unfolding y4_def y3_def y2_def ek_def y1_def by code_simp
  moreover have "\<not> UpstreamTokens_IsExpired (Some (example_tokens (9 + DefaultRefreshTokenTTL))) (4 + DefaultRefreshTokenTTL)" by code_simp
  ultimately show ?thesis by auto
qed

end
