(* ===== verification/Auth_Users.thy ===== *)
theory Auth_Users
  imports Auth_Tokens
begin

text \<open>
  Users and the identities that upstream providers know them by: identities are found under exactly their provider and
  subject and always belong to an existing user, and deleting a user leaves nothing of theirs behind.
\<close>

definition users_inv :: "MemoryStorage \<Rightarrow> bool" where
  "users_inv s \<longleftrightarrow> gomap_ok (ms_users s) \<and> gomap_ok (ms_providerIdentities s) \<and>
     (\<forall>i u. map_of (ms_users s) i = Some u \<longrightarrow> user_ID u = i \<and> i \<noteq> '''') \<and>
     (\<forall>k x. map_of (ms_providerIdentities s) k = Some x \<longrightarrow>
        k = providerIdentityKey (pi_ProviderID x) (pi_ProviderSubject x) \<and> map_of (ms_users s) (pi_UserID x) \<noteq> None)"

lemma clone_user_id [simp]: "clone_user u = u"
  by (simp add: clone_user_def)

lemma clone_identity_id [simp]: "clone_identity x = x"
  by (simp add: clone_identity_def)

lemma CreateUser_inv: "users_inv s \<Longrightarrow> users_inv (snd (CreateUser u s))"
  by (auto simp: users_inv_def CreateUser_def split: option.split)

lemma DeleteUser_inv: "users_inv s \<Longrightarrow> users_inv (snd (DeleteUser i s))"
  by (auto simp: users_inv_def DeleteUser_def map_of_filter_ok split: option.splits if_splits)

lemma CreateProviderIdentity_inv: "users_inv s \<Longrightarrow> users_inv (snd (CreateProviderIdentity x s))"
  by (auto simp: users_inv_def CreateProviderIdentity_def Let_def split: option.split)

lemma UpdateLastUsed_inv: "users_inv s \<Longrightarrow> users_inv (snd (UpdateProviderIdentityLastUsed p q t s))"
  by (auto simp: users_inv_def UpdateProviderIdentityLastUsed_def Let_def split: option.split)

lemma users_inv_same:
  "ms_users s' = ms_users s \<Longrightarrow> ms_providerIdentities s' = ms_providerIdentities s \<Longrightarrow> users_inv s \<Longrightarrow> users_inv s'"
  by (simp add: users_inv_def)

lemma run_call_users_inv: "users_inv s \<Longrightarrow> users_inv (snd (run_call c s))"
proof (cases "case c of Call_CreateUser _ \<Rightarrow> True | Call_DeleteUser _ \<Rightarrow> True | Call_CreateProviderIdentity _ \<Rightarrow> True
    | Call_UpdateProviderIdentityLastUsed _ _ _ \<Rightarrow> True | _ \<Rightarrow> False")
  case True
  then show "users_inv s \<Longrightarrow> ?thesis"
    by (cases c) (simp_all add: CreateUser_inv DeleteUser_inv CreateProviderIdentity_inv UpdateLastUsed_inv)
next
  case False
  then have "ms_users (snd (run_call c s)) = ms_users s \<and> ms_providerIdentities (snd (run_call c s)) = ms_providerIdentities s"
    by (cases c) (simp_all add: client_defs other_call_defs split: option.split sum.split)
  then show "users_inv s \<Longrightarrow> ?thesis" using users_inv_same by blast
qed

lemma start_users_inv: "users_inv (as_store (start_system opts))"
proof -
  have "users_inv (fold apply_option opts s) = users_inv s" for s
  proof (induction opts arbitrary: s)
    case (Cons opt opts)
    then show ?case by (cases opt) (simp_all add: users_inv_def)
  qed simp
  then show ?thesis by (simp add: start_system_def NewMemoryStorage_def users_inv_def)
qed

lemma auth_step_users_inv: "auth_step y e y' \<Longrightarrow> users_inv (as_store y) \<Longrightarrow> users_inv (as_store y')"
  by (cases rule: auth_step.cases) (auto simp: run_call_users_inv intro: users_inv_same [rotated 2] simp: delete_expired_def)

lemma reachable_users_inv: "auth_run y es y' \<Longrightarrow> y = start_system opts \<Longrightarrow> users_inv (as_store y')"
  by (induction rule: auth_run.induct) (auto intro: auth_step_users_inv start_users_inv)

definition linked_identity :: "MemoryStorage \<Rightarrow> ProviderIdentity \<Rightarrow> bool" where
  "linked_identity s x \<longleftrightarrow> map_of (ms_providerIdentities s) (providerIdentityKey (pi_ProviderID x) (pi_ProviderSubject x)) = Some x"

lemma found_iff_linked:
  assumes "users_inv s"
  shows "GetProviderIdentity p q s = Inr x \<longleftrightarrow> pi_ProviderID x = p \<and> pi_ProviderSubject x = q \<and> linked_identity s x"
proof
  assume "GetProviderIdentity p q s = Inr x"
  then have x: "map_of (ms_providerIdentities s) (providerIdentityKey p q) = Some x"
    by (auto simp: GetProviderIdentity_def split: option.splits)
  then have "providerIdentityKey p q = providerIdentityKey (pi_ProviderID x) (pi_ProviderSubject x)"
    using assms by (simp add: users_inv_def)
  with x show "pi_ProviderID x = p \<and> pi_ProviderSubject x = q \<and> linked_identity s x"
    by (simp add: providerIdentityKey_inj linked_identity_def)
qed (auto simp: GetProviderIdentity_def linked_identity_def)

lemma linked_user:
  assumes "users_inv s" "linked_identity s x"
  shows "\<exists>u. GetUser (pi_UserID x) s = Inr u \<and> user_ID u = pi_UserID x"
proof -
  have "map_of (ms_users s) (pi_UserID x) \<noteq> None" using assms unfolding users_inv_def linked_identity_def by blast
  then obtain u where u: "map_of (ms_users s) (pi_UserID x) = Some u" by blast
  then have "user_ID u = pi_UserID x" using assms(1) unfolding users_inv_def by blast
  with u show ?thesis by (simp add: GetUser_def)
qed

lemma linked_iff_listed:
  assumes "users_inv s"
  shows "linked_identity s x \<longleftrightarrow> (\<exists>ids. GetUserProviderIdentities (pi_UserID x) s = Inr ids \<and> x \<in> set ids)"
proof
  assume x: "linked_identity s x"
  then have "x \<in> snd ` set (ms_providerIdentities s)" unfolding linked_identity_def by (auto dest!: map_of_SomeD intro: rev_image_eqI)
  moreover have "map_of (ms_users s) (pi_UserID x) \<noteq> None"
    using assms x unfolding users_inv_def linked_identity_def by blast
  ultimately show "\<exists>ids. GetUserProviderIdentities (pi_UserID x) s = Inr ids \<and> x \<in> set ids"
    by (simp add: GetUserProviderIdentities_def split: option.split)
next
  assume "\<exists>ids. GetUserProviderIdentities (pi_UserID x) s = Inr ids \<and> x \<in> set ids"
  then obtain k where "(k, x) \<in> set (ms_providerIdentities s)" by (auto simp: GetUserProviderIdentities_def split: option.splits)
  then have "map_of (ms_providerIdentities s) k = Some x" using assms by (simp add: users_inv_def gomap_ok_def)
  then show "linked_identity s x" using assms by (auto simp: linked_identity_def users_inv_def)
qed

text \<open>
  Claim C18: in every reachable state an identity that a user's account lists is found under the provider and the subject it is
  linked for, and under no other pair, even when these contain the separator of the key. An identity that is found belongs to an
  existing user, and linking an identity makes it the one found under its own pair and changes no other lookup.
\<close>

theorem identity_lookup_exact:
  assumes "auth_run (start_system opts) es y" "s = as_store y"
  shows "(\<forall>p q x. GetProviderIdentity p q s = Inr x \<longleftrightarrow> pi_ProviderID x = p \<and> pi_ProviderSubject x = q \<and>
      (\<exists>ids. GetUserProviderIdentities (pi_UserID x) s = Inr ids \<and> x \<in> set ids)) \<and>
    (\<forall>p q x. GetProviderIdentity p q s = Inr x \<longrightarrow> (\<exists>u. GetUser (pi_UserID x) s = Inr u \<and> user_ID u = pi_UserID x)) \<and>
    (\<forall>x s' p q. CreateProviderIdentity (Some x) s = (None, s') \<longrightarrow>
      GetProviderIdentity p q s' = (if p = pi_ProviderID x \<and> q = pi_ProviderSubject x then Inr x else GetProviderIdentity p q s))"
proof (intro conjI allI impI)
  have inv: "users_inv s" unfolding assms(2) by (rule reachable_users_inv [OF assms(1) refl])
  show "GetProviderIdentity p q s = Inr x \<longleftrightarrow> pi_ProviderID x = p \<and> pi_ProviderSubject x = q \<and>
      (\<exists>ids. GetUserProviderIdentities (pi_UserID x) s = Inr ids \<and> x \<in> set ids)" for p q x
    using found_iff_linked [OF inv, of p q x] linked_iff_listed [OF inv, of x] by blast
  show "\<exists>u. GetUser (pi_UserID x) s = Inr u \<and> user_ID u = pi_UserID x" if "GetProviderIdentity p q s = Inr x" for p q x
    using linked_user [OF inv] found_iff_linked [OF inv, of p q x] that by blast
  show "GetProviderIdentity p q s' = (if p = pi_ProviderID x \<and> q = pi_ProviderSubject x then Inr x else GetProviderIdentity p q s)"
    if "CreateProviderIdentity (Some x) s = (None, s')" for x s' p q
    using that by (auto simp: CreateProviderIdentity_def GetProviderIdentity_def Let_def providerIdentityKey_inj split: if_splits)
qed

definition example_user :: User where
  "example_user = \<lparr>user_ID = ''u'', user_CreatedAt = 1, user_UpdatedAt = 1\<rparr>"

definition example_identity :: ProviderIdentity where
  "example_identity = \<lparr>pi_UserID = ''u'', pi_ProviderID = ''a:b'', pi_ProviderSubject = ''c'', pi_LinkedAt = 1, pi_LastUsedAt = 1\<rparr>"

theorem identity_lookup_exact_witness:
  "let s = snd (run_call (Call_CreateUser (Some example_user)) (NewMemoryStorage []));
       s' = snd (run_call (Call_CreateProviderIdentity (Some example_identity)) s) in
   GetUserProviderIdentities ''u'' s' = Inr [example_identity] \<and> GetProviderIdentity ''a:b'' ''c'' s' = Inr example_identity \<and>
   GetProviderIdentity ''a'' ''b:c'' s' = Inl (missing ''provider identity not found'')"
proof -
  let ?c = "Call_CreateUser (Some example_user)" and ?d = "Call_CreateProviderIdentity (Some example_identity)"
  let ?s = "snd (run_call ?c (NewMemoryStorage []))" and ?y = "(start_system [])\<lparr>as_store := fold (\<lambda>c s. snd (run_call c s)) [?c] (as_store (start_system []))\<rparr>"
  let ?s' = "snd (run_call ?d ?s)" and ?y' = "(start_system [])\<lparr>as_store := fold (\<lambda>c s. snd (run_call c s)) [?c, ?d] (as_store (start_system []))\<rparr>"
  have run: "auth_run (start_system []) (map Called [?c]) ?y" "auth_run (start_system []) (map Called [?c, ?d]) ?y'"
    by (rule auth_run_calls)+
  have y: "?s = as_store ?y" "?s' = as_store ?y'" by (simp_all only: start_system_def auth_system.simps fold_simps)
  have ids: "GetUserProviderIdentities ''u'' ?s' = Inr [example_identity]" by code_simp
  have found: "GetProviderIdentity ''a:b'' ''c'' ?s' = Inr example_identity"
    by (subst identity_lookup_exact [OF run(2) y(2), THEN conjunct1, rule_format]) (use ids in \<open>simp add: example_identity_def\<close>)
  have "fst (CreateProviderIdentity (Some example_identity) ?s) = None" by code_simp
  then have "CreateProviderIdentity (Some example_identity) ?s = (None, ?s')"
    by (simp only: prod_eq_iff fst_conv snd_conv run_call.simps simp_thms)
  from identity_lookup_exact [OF run(1) y(1), THEN conjunct2, THEN conjunct2, rule_format, OF this]
  have "GetProviderIdentity ''a'' ''b:c'' ?s' = GetProviderIdentity ''a'' ''b:c'' ?s" by (simp add: example_identity_def)
  moreover have "GetProviderIdentity ''a'' ''b:c'' ?s = Inl (missing ''provider identity not found'')" by code_simp
  ultimately show ?thesis using ids found unfolding Let_def by (simp only: simp_thms)
qed

text \<open>
  Claim C17: deleting a user removes the account, every identity linked to it and every row of upstream tokens obtained for it, and
  keeps what belongs to other users.
\<close>

theorem deleted_user_leaves_nothing:
  assumes "auth_run (start_system opts) es y" "s = as_store y" "DeleteUser i s = (None, s')"
  shows "GetUser i s' = Inl (missing ''user not found'') \<and>
    (\<forall>p q x. GetProviderIdentity p q s' = Inr x \<longleftrightarrow> GetProviderIdentity p q s = Inr x \<and> pi_UserID x \<noteq> i) \<and>
    (\<forall>sid p now t err. GetUpstreamTokens sid p now s' = (Some t, err) \<longleftrightarrow> GetUpstreamTokens sid p now s = (Some t, err) \<and> ut_UserID t \<noteq> i) \<and>
    (\<forall>p. i \<noteq> '''' \<longrightarrow> p \<noteq> '''' \<longrightarrow> isl (GetLatestUpstreamTokensForUser i p s')) \<and>
    (\<forall>j. j \<noteq> i \<longrightarrow> GetUser j s' = GetUser j s)"
proof -
  have ok: "gomap_ok (ms_providerIdentities s)" "gomap_ok (ms_upstreamTokens s)"
    using reachable_storage_ok [OF assms(1) refl] assms(2) by (simp_all add: storage_ok_def)
  have s': "s' = s\<lparr>ms_providerIdentities := filter (\<lambda>(key, identity). pi_UserID identity \<noteq> i) (ms_providerIdentities s),
       ms_upstreamTokens := filter (\<lambda>(key, entry). \<not> (case te_value entry of None \<Rightarrow> False | Some t \<Rightarrow> ut_UserID t = i)) (ms_upstreamTokens s),
       ms_users := AList.delete i (ms_users s)\<rparr>"
    using assms(3) by (auto simp: DeleteUser_def split: option.splits)
  have none: "user_tokens i p (ms_upstreamTokens s') = {}" for p by (auto simp: user_tokens_def s')
  have latest: "isl (GetLatestUpstreamTokensForUser i p s')" if "i \<noteq> ''''" "p \<noteq> ''''" for p
    using latest_tokens_best [of i p None "ms_upstreamTokens s'"] none that
    by (simp add: GetLatestUpstreamTokensForUser_def)
  have identity: "GetProviderIdentity p q s' = Inr x \<longleftrightarrow> GetProviderIdentity p q s = Inr x \<and> pi_UserID x \<noteq> i" for p q x
    using ok(1) by (auto simp: GetProviderIdentity_def s' map_of_filter_ok split: option.split)
  have tokens: "GetUpstreamTokens sid p now s' = (Some t, err) \<longleftrightarrow> GetUpstreamTokens sid p now s = (Some t, err) \<and> ut_UserID t \<noteq> i" for sid p now t err
    using ok(2) by (auto simp: GetUpstreamTokens_def s' map_of_filter_ok split: option.split)
  have user: "GetUser i s' = Inl (missing ''user not found'')" "j \<noteq> i \<longrightarrow> GetUser j s' = GetUser j s" for j
    by (simp_all add: GetUser_def s')
  show ?thesis using latest identity tokens user by blast
qed

theorem deleted_user_leaves_nothing_witness:
  "let s = fold (\<lambda>c s. snd (run_call c s)) [Call_CreateUser (Some example_user), Call_CreateProviderIdentity (Some example_identity)]
       (NewMemoryStorage []); s' = snd (DeleteUser ''u'' s) in
   GetUser ''u'' s' = Inl (missing ''user not found'') \<and> isl (GetLatestUpstreamTokensForUser ''u'' ''idp'' s')"
proof -
  let ?cs = "[Call_CreateUser (Some example_user), Call_CreateProviderIdentity (Some example_identity)]"
  let ?s = "fold (\<lambda>c s. snd (run_call c s)) ?cs (NewMemoryStorage [])"
  let ?y = "(start_system [])\<lparr>as_store := fold (\<lambda>c s. snd (run_call c s)) ?cs (as_store (start_system []))\<rparr>"
  have run: "auth_run (start_system []) (map Called ?cs) ?y" by (rule auth_run_calls)
  have y: "?s = as_store ?y" by (simp only: start_system_def auth_system.simps)
  have "fst (DeleteUser ''u'' ?s) = None" by code_simp
  then have del: "DeleteUser ''u'' ?s = (None, snd (DeleteUser ''u'' ?s))" by (simp only: prod_eq_iff fst_conv snd_conv simp_thms)
  note gone = deleted_user_leaves_nothing [OF run y del]
  have "isl (GetLatestUpstreamTokensForUser ''u'' ''idp'' (snd (DeleteUser ''u'' ?s)))"
    by (rule gone [THEN conjunct2, THEN conjunct2, THEN conjunct2, THEN conjunct1, rule_format]) simp_all
  then show ?thesis unfolding Let_def by (rule conjI [OF gone [THEN conjunct1]])
qed

end
