(* ===== verification/Spec2Isabelle.thy ===== *)
theory Spec2Isabelle
  imports Health_Report Aggregator Session_Router Workflow_Convert Workflow_Engine Auth_Users
begin

text \<open>
  A verification development for ToolHive (the Go sources under \<open>src/\<close>), centred on its Virtual MCP server
  (vMCP): the server that presents several MCP backends as one, watches their health, routes the calls of
  clients and runs workflows composed of their tools.

  \<^bold>\<open>The program's parts and how they interact.\<close> A backend registry holds the configured backends. The health
  monitor keeps one checking goroutine per backend, whose results go to the status tracker; the tracker
  consults a circuit breaker per backend and the monitor turns the tracker's states into a status report. The
  aggregator asks every backend for its capabilities, renames and filters the tools as configured, resolves
  conflicting names by one of three strategies and builds the advertised list and the routing table; the
  session router answers calls from that table. The workflow engine validates a workflow, groups its steps
  into levels, and runs each level concurrently through the DAG executor; every step calls a tool through the
  router, asks the user (elicitation) or repeats a tool over a collection, records its outcome in the workflow
  context and checkpoints it in a state store. Workflows come from the configuration of composite tools, which is
  validated when it is admitted and converted into workflow definitions when the server starts. Beside the vMCP
  server, the authorization server keeps its clients, codes, tokens and users in a storage, of which the one in
  memory is part of this development.

  \<^bold>\<open>Theories and sources.\<close>
  \<^item> \<open>Go_Prelude\<close>: Go's maps as association lists with distinct keys (\<open>gomap_ok\<close>, \<open>same_gomap\<close>), errors with
    their wrapped sentinels (\<open>goerror\<close>, \<open>errors_Is\<close>, \<open>wrap_error\<close>), decimal printing and the string functions the
    sources use.
  \<^item> \<open>Vmcp_Types\<close>: \<open>pkg/vmcp/types.go\<close> and \<open>pkg/vmcp/errors.go\<close>, the backend, its health status, the sentinels and
    the classification of errors.
  \<^item> \<open>Circuit_Breaker\<close>: \<open>pkg/vmcp/health/circuit_breaker.go\<close>; the locale \<open>breaker\<close> is the Go interface
    \<open>CircuitBreaker\<close>, interpreted on the real breaker (\<open>cbr\<close>) and on the values of the interface (\<open>ifc\<close>). The breaker refines a
    small abstract automaton.
  \<^item> \<open>Health_Status\<close>: \<open>health/status.go\<close> and \<open>health/checker.go\<close>; the locale \<open>view_store\<close> (interpreted as \<open>trk\<close>) says that each
    operation of the tracker changes the view of one backend only, as the specification prescribes.
  \<^item> \<open>Health_Monitor\<close>: \<open>health/monitor.go\<close>, the monitor with its goroutines as the step relation \<open>mon_step\<close>; the invariant
    \<open>monitor_of\<close> is proved by rule induction over all interleavings.
  \<^item> \<open>Health_Report\<close>: the summary and the status report of \<open>health/monitor.go\<close>.
  \<^item> \<open>Backend_Registry\<close>: \<open>pkg/vmcp/registry.go\<close>; the locales \<open>backend_registry\<close> and \<open>dynamic_backend_registry\<close>.
  \<^item> \<open>Tool_Filter\<close>: \<open>pkg/mcp/tool_filter.go\<close>, the filter and the overrides of one backend.
  \<^item> \<open>Aggregation_Types\<close>, \<open>Conflict_Resolution\<close>, \<open>Capability_Conflicts\<close>, \<open>Aggregator\<close>: \<open>pkg/vmcp/aggregator/\<close>; the locale
    \<open>conflict_resolver\<close> is the Go interface, interpreted on the three strategies.
  \<^item> \<open>Session_Router\<close>: \<open>pkg/vmcp/router/session_router.go\<close>; the locale \<open>tool_router\<close>.
  \<^item> \<open>Workflow_Types\<close>, \<open>Workflow_Levels\<close>, \<open>Workflow_Validation\<close>, \<open>Workflow_Exec\<close>, \<open>Workflow_State\<close>, \<open>Workflow_Engine\<close>:
    \<open>pkg/vmcp/composer/\<close>, that is the types (\<open>composer.go\<close>), the topological levels and the concurrent executor
    (\<open>dag_executor.go\<close>), the contexts and stores (\<open>workflow_context.go\<close>, \<open>state_store.go\<close>,
    \<open>workflow_state_store.go\<close>), and validation and execution (\<open>workflow_engine.go\<close>). The locale \<open>state_store\<close> is the Go
    interface \<open>WorkflowStateStore\<close>, interpreted on both in-memory stores.
  \<^item> \<open>Output_Validation\<close>: \<open>pkg/vmcp/composer/output_validator.go\<close>, the checks of the output schema.
  \<^item> \<open>Composite_Config\<close>: the configuration of composite tools (\<open>pkg/vmcp/config/config.go\<close>), its validation
    (\<open>pkg/vmcp/config/composite_validation.go\<close>) and the references of templates (\<open>pkg/templates/references.go\<close>).
  \<^item> \<open>Workflow_Convert\<close>: \<open>pkg/vmcp/server/workflow_converter.go\<close>, and how the conversion fits the validations before and
    after it.
  \<^item> \<open>Auth_Types\<close>, \<open>Auth_Memory\<close>, \<open>Auth_Clients\<close>, \<open>Auth_Tokens\<close>, \<open>Auth_Users\<close>: \<open>pkg/authserver/storage/\<close>, that is the stored
    records and keys (\<open>types.go\<close>, \<open>config.go\<close>), every method of \<open>memory.go\<close>, and the properties of clients, of codes and
    tokens, and of users and their identities. The cleanup goroutine has two halves, under the read and the write lock,
    between which other calls run: \<open>auth_step\<close> is the step relation of the storage with it. The locale \<open>request_store\<close> is the
    contract of the token sessions, interpreted on access tokens, refresh tokens and PKCE requests.

  \<^bold>\<open>Conventions.\<close>
  \<^item> Go structs are records whose fields carry a short prefix; nil pointers and absent values are \<open>None\<close>; a
    function returning a value and an error returns \<open>Inl\<close> error or \<open>Inr\<close> value.
  \<^item> The order of the pairs of an association list is the order in which one \<open>range\<close> loop visits the map.
    Statements about a result that must not depend on it are proved for every order, or for the map as a
    function (\<open>same_gomap\<close>).
  \<^item> Times and durations are integers in nanoseconds; an operation that reads the clock takes the time as an
    argument, so no statement relies on the clock being monotonic unless a hypothesis says so.
  \<^item> A method that holds a mutex during its whole body is one function of the state. Code that runs in several
    goroutines is an \<open>inductive\<close> step relation in which any goroutine that can move may move next; the theorems
    hold for all interleavings.
  \<^item> Loops are structural recursion or folds; the two searches that are not (\<open>build_levels\<close>, \<open>hasCycle_loop\<close>) are
    total functions with a termination proof, and the conversion of a step recurses on its inner step, which is
    smaller, so no fuel is used anywhere.
  \<^item> Integers are \<open>int\<close>, with 32-bit and 64-bit words where the width matters: the version counter of the
    dynamic registry and the conversion of the retry limit.

  \<^bold>\<open>Parameters.\<close> Code outside the sources is an argument: what a backend answers (\<open>list_capabilities\<close>, \<open>en_call\<close>),
  template expansion, elicitation requests and argument coercion (the fields of \<open>engine_env\<close>), the retry library
  (\<open>en_retry\<close>, with its documented behaviour as the hypothesis \<open>retry_contract\<close>, satisfied by \<open>plain_retry\<close>), the parser of URI
  templates, the parser of \<open>text/template\<close> and the JSON Schema library (the fields of \<open>config_env\<close>), the hash SHA-256, the clients, requests and
  sessions of the OAuth library (records of what the storage asks them), and the construction of the output of a
  workflow. The error group of the concurrent code is
  modelled by its documented behaviour: the first error is kept and cancels the shared context
  (\<open>group_return\<close>).

  \<^bold>\<open>What the lemmas show.\<close>
  \<^item> Health: the breaker and the tracker refine their specifications; in every reachable state of the monitor a
    removed backend is not reported, each backend has one live check, and a stopped monitor stays stopped; the
    thresholds, the recovery and the error classes are as documented; the report's phase is determined by the
    tracked states.
  \<^item> Aggregation and routing: each strategy resolves exactly the tools it is given, overrides can be reversed,
    the filter of one backend lists each tool from its own object and lets exactly the listed tools be called; every merged
    tool is routed, prompts get unambiguous names, and from end to end an advertised tool reaches the
    backend that offers it under that backend's own name (in this theory).
  \<^item> Workflows: validation accepts exactly the acyclic definitions, and an accepted workflow has a plan; the
    plan is a topological order; in every interleaving a step starts after its dependencies have finished, at
    most the configured number of steps run at a time, some step can move until a level is over, and the
    first error is the result and ends the run with its level; retries and iterations are bounded; every step is
    accounted for, a completed workflow ran all its steps, and the final status is saved; the mark of a cancelled workflow
    lasts until the next save; the two stores agree but for what the cleanup of one has removed.
  \<^item> Configuration: the two cycle searches decide the same question; an accepted configuration that meets the
    converter's own conditions is converted, passes the engine's validation and has a plan, and one that does not meet them
    is refused; the references of a template are extracted exactly, or the extraction crashes on an invocation without argument;
    a step that is skipped, or whose tool call failed and that continues, shows every output field the checked templates read
    (in this theory); an accepted output is well formed at every depth.
  \<^item> Authorization storage: in every interleaving with the cleanup a used authorization code stays unusable,
    only clients not registered or renewed for the grace period are evicted and their number is bounded; the cleanup removes
    exactly what has expired, and the marks of expired codes, when nothing runs between its halves, and a fresh entry is lost when something does; rotating a refresh token revokes it and the access
    tokens of its grant; a deleted user leaves nothing behind, and a linked identity is found under its own key and no other.

  \<^bold>\<open>Not modelled.\<close> The HTTP, SSE and stdio transports, the MCP clients and servers (built on a library outside the
  sources), template expansion (\<open>text/template\<close>), container runtimes, the Kubernetes operator, the command line
  and terminal interface, the REST API, OAuth flows, the Redis storage and token validation, policy evaluation (Cedar), and
  telemetry, audit and logging: they are input and output or calls of external libraries, whose effect the
  modelled components see through the parameters above.
\<close>

section \<open>From the backends to a routed call\<close>

text \<open>
  Every backend answers with tools whose overrides can be reversed.
\<close>

definition backends_safe :: "list_capabilities \<Rightarrow> defaultAggregator \<Rightarrow> Backend list \<Rightarrow> bool" where
  "backends_safe listCapabilities a backends \<longleftrightarrow> distinct (map b_ID backends) \<and>
     (\<forall>b \<in> set backends. case listCapabilities (target_of b) of Inl e \<Rightarrow> True
      | Inr caps \<Rightarrow> tool_config_safe (map_of (da_toolConfigMap a) (b_ID b)) (cl_Tools caps))"

lemma resolved_tool_origin:
  assumes caps: "QueryAllCapabilities lc a completed = Inr caps" and perm: "set completed = set backends"
    and safe: "backends_safe lc a backends"
    and res: "ResolveConflicts a caps = Inr resolved" and t: "map_of (rc_Tools resolved) n = Some t"
  shows "\<exists>b \<in> set backends. \<exists>cl. lc (target_of b) = Inr cl \<and> (\<exists>tool \<in> set (cl_Tools cl).
    rtool_BackendID t = b_ID b \<and> tool_Name tool \<noteq> '''' \<and>
    actualBackendCapabilityName (da_toolConfigMap a) (b_ID b) (rtool_OriginalName t) = tool_Name tool \<and>
    rtool_InputSchema t = tool_InputSchema tool \<and> rtool_OutputSchema t = tool_OutputSchema tool)"
proof -
  let ?tb = "map (\<lambda>(b, c). (b, bc_Tools c)) caps"
  have "resolve_tools (da_conflictResolver a) ?tb = Inr (rc_Tools resolved)"
    using res by (auto simp: ResolveConflicts_def Let_def split: sum.splits)
  then have "from_tool ?tb t" using agg_cr.resolve_ok t by (fastforce simp: resolved_ok_def)
  then obtain t' bc where t': "(rtool_BackendID t, bc) \<in> set caps" "t' \<in> set (bc_Tools bc)" "rtool_OriginalName t = tool_Name t'"
      "rtool_InputSchema t = tool_InputSchema t'" "rtool_OutputSchema t = tool_OutputSchema t'"
    by (auto simp: from_tool_def offers_def)
  have fold: "caps = fold (store_query lc a) completed []"
    using caps by (auto simp: QueryAllCapabilities_def Let_def split: if_splits)
  have "gomap_ok (fold (store_query lc a) bs m)" if "gomap_ok m" for bs m
    using that by (induction bs arbitrary: m) (simp_all add: store_query_def split: sum.split)
  then have "map_of (fold (store_query lc a) completed []) (rtool_BackendID t) = Some bc"
    using t'(1) fold by (simp add: gomap_ok_lookup)
  from stored_queries [OF this] obtain b where b: "b \<in> set backends" "b_ID b = rtool_BackendID t"
      "QueryCapabilities lc a b = Inr bc" using perm by blast
  then obtain cl where cl: "lc (target_of b) = Inr cl"
      "bc_Tools bc = processBackendTools (b_ID b) (cl_Tools cl) (map_of (da_toolConfigMap a) (b_ID b))"
    by (auto simp: QueryCapabilities_def split: sum.splits)
  have "tool_config_safe (map_of (da_toolConfigMap a) (b_ID b)) (cl_Tools cl)"
    using safe b(1) cl(1) by (auto simp: backends_safe_def)
  from processed_tool [OF refl this, of t'] t' cl b show ?thesis by fastforce
qed

text \<open>
  Claim C1: an advertised tool reaches the backend that offers it. Take any set of backends with different
  identifiers whose overrides can be reversed, any strategy, and any order in which the queries complete: if
  the aggregation succeeds, the session router built on its routing table routes every tool of the
  advertised list to a backend that answered with a tool of the same schemas, and the name sent to that
  backend is the backend's own name of the tool.
\<close>

theorem advertised_tool_reaches_backend:
  assumes "AggregateCapabilities lc a backends completed = Inr agg" and "mset completed = mset backends"
    and "backends_safe lc a backends" and "tool \<in> set (agg_Tools agg)" and "tool_Name tool \<noteq> ''''"
  shows "\<exists>b \<in> set backends. \<exists>cl. lc (target_of b) = Inr cl \<and> (\<exists>own \<in> set (cl_Tools cl). \<exists>target.
    RouteTool (NewSessionRouter parse (Some (agg_RoutingTable agg))) (tool_Name tool) = Inr target \<and>
    target = (target_of b)\<lparr>t_OriginalCapabilityName := tool_Name own\<rparr> \<and>
    GetBackendCapabilityName target (tool_Name tool) = tool_Name own \<and>
    tool_BackendID tool = b_ID b \<and>
    tool_InputSchema tool = tool_InputSchema own \<and> tool_OutputSchema tool = tool_OutputSchema own)"
proof -
  let ?get = "immutable_Get (NewImmutableRegistry backends)"
  obtain caps resolved agg' where q: "QueryAllCapabilities lc a completed = Inr caps" "ResolveConflicts a caps = Inr resolved"
      "MergeCapabilities a resolved ?get = Inr agg'" "agg_Tools agg = agg_Tools agg'" "agg_RoutingTable agg = agg_RoutingTable agg'"
    using assms(1) by (auto simp: AggregateCapabilities_def Let_def split: sum.splits)
  have ok: "resolved_ok (map (\<lambda>(b, c). (b, bc_Tools c)) caps) (rc_Tools resolved)"
    using q(2) by (auto simp: ResolveConflicts_def Let_def intro: agg_cr.resolve_ok split: sum.splits)
  note m = merge_tools [OF ok q(3)]
  from assms(4) q(4) m obtain n t where nt: "(n, t) \<in> set (rc_Tools resolved)" "tool = advertised_tool t" by auto
  then have t: "map_of (rc_Tools resolved) n = Some t" "tool_Name tool = n"
    using ok by (auto simp: resolved_ok_def gomap_ok_lookup advertised_tool_def)
  have "set completed = set backends" by (rule mset_eq_setD [OF assms(2)])
  from resolved_tool_origin [OF q(1) this assms(3) q(2) t(1)] obtain b cl own where b: "b \<in> set backends"
      "lc (target_of b) = Inr cl" "own \<in> set (cl_Tools cl)" "rtool_BackendID t = b_ID b" "tool_Name own \<noteq> ''''"
      "actualBackendCapabilityName (da_toolConfigMap a) (b_ID b) (rtool_OriginalName t) = tool_Name own"
      "rtool_InputSchema t = tool_InputSchema own" "rtool_OutputSchema t = tool_OutputSchema own" by blast
  have "?get (b_ID b) = Some b" using assms(3) b(1) by (intro registered) (auto simp: backends_safe_def)
  then have target: "tool_target a ?get t = (target_of b)\<lparr>t_OriginalCapabilityName := tool_Name own\<rparr>"
    using b by (simp add: tool_target_def merge_target_def)
  have look: "map_of (rtab_Tools (agg_RoutingTable agg)) n = Some (tool_target a ?get t)"
    using m q(5) t(1) by (simp add: map_of_values)
  then have "RouteTool (NewSessionRouter parse (Some (agg_RoutingTable agg))) (tool_Name tool) = Inr (tool_target a ?get t)"
    using assms(5) t(2) by (simp add: RouteTool_def NewSessionRouter_def ResolveToolRef_def)
  then show ?thesis using b nt(2) target
    by (intro bexI [of _ b] exI [of _ cl] conjI bexI [of _ own])
      (auto simp: GetBackendCapabilityName_def advertised_tool_def)
qed

definition example_backend :: "string \<Rightarrow> Backend" where
  "example_backend i = \<lparr>b_ID = i, b_Name = i, b_BaseURL = '''', b_TransportType = '''', b_Type = '''',
     b_CABundlePath = '''', b_CABundleData = '''', b_HealthStatus = BackendHealthy, b_AuthConfig = None,
     b_AuthConfigRef = '''', b_HeaderForward = None, b_Metadata = []\<rparr>"

definition example_capabilities :: list_capabilities where
  "example_capabilities t = Inr \<lparr>cl_Tools = [simple_tool ''x''], cl_Resources = [], cl_ResourceTemplates = [],
     cl_Prompts = [], cl_SupportsLogging = False, cl_SupportsSampling = False\<rparr>"

definition example_aggregator :: defaultAggregator where
  "example_aggregator = NewDefaultAggregator (Some (PrefixResolver (NewPrefixConflictResolver ''''))) None"

theorem advertised_tool_reaches_backend_witness:
  "let bs = [example_backend ''a'', example_backend ''b''] in
   \<exists>agg target. AggregateCapabilities example_capabilities example_aggregator bs (rev bs) = Inr agg \<and>
     map tool_Name (agg_Tools agg) = [''a_x'', ''b_x''] \<and>
     RouteTool (NewSessionRouter (\<lambda>_. None :: unit option) (Some (agg_RoutingTable agg))) ''b_x'' = Inr target \<and>
     GetBackendCapabilityName target ''b_x'' = ''x''"
proof -
  let ?bs = "[example_backend ''a'', example_backend ''b'']"
  define agg where "agg = projr (AggregateCapabilities example_capabilities example_aggregator ?bs (rev ?bs))"
  have "\<not> isl (AggregateCapabilities example_capabilities example_aggregator ?bs (rev ?bs))" by code_simp
  then have agg: "AggregateCapabilities example_capabilities example_aggregator ?bs (rev ?bs) = Inr agg"
    unfolding agg_def by (rule sum.collapse(2) [symmetric])
  have names: "map tool_Name (agg_Tools agg) = [''a_x'', ''b_x'']" unfolding agg_def by code_simp
  have "''b_x'' \<in> set (map tool_Name (agg_Tools agg))" unfolding names by simp
  then obtain t where t: "t \<in> set (agg_Tools agg)" "tool_Name t = ''b_x''" by auto
  have safe: "backends_safe example_capabilities example_aggregator ?bs"
    by (auto simp: backends_safe_def example_capabilities_def example_aggregator_def NewDefaultAggregator_def
        example_backend_def tool_config_safe_def overrides_safe_def gomap_ok_def renames_def simple_tool_def)
  have "mset (rev ?bs) = mset ?bs" by simp
  from advertised_tool_reaches_backend [OF agg this safe t(1), where parse = "\<lambda>_. None :: unit option"] t(2)
  obtain own target cl b where route:
      "RouteTool (NewSessionRouter (\<lambda>_. None :: unit option) (Some (agg_RoutingTable agg))) ''b_x'' = Inr target"
      "GetBackendCapabilityName target ''b_x'' = tool_Name own" "own \<in> set (cl_Tools cl)"
      "example_capabilities (target_of b) = Inr cl" by auto
  have "tool_Name own = ''x''" using route(3,4) by (auto simp: example_capabilities_def simple_tool_def)
  then show ?thesis unfolding Let_def using agg names route(1,2) by metis
qed

section \<open>From the configuration to the output of a skipped step\<close>

text \<open>
  Claim C10: what a workflow reads from a step that did not run to its end is there. Take a composite tool that the validation
  accepts and the conversion turns into steps, and execute one of the steps, whose identifier has no dot. If the executor gets
  no error and the step is not recorded as completed (its condition was false, or its tool call failed and it continues on error),
  then the references of each template the validation looks at can be extracted, and for each of them that is to an output field
  of the step (\<open>.steps.<id>.output.<field>\<close>, whatever follows the field) the recorded output has that field. The templates looked
  at are the conditions, the string arguments and the messages of the steps and the values of the output; the collection and the inner step
  of a loop are not among them. A step that continues after another failure (an argument that cannot be expanded, a tool
  that cannot be routed, an elicitation, a loop) returns that error to the executor and gets no default results.
\<close>

theorem skipped_step_shows_referenced_fields:
  assumes ok: "ValidateCompositeToolConfig cenv p tool = Return ()" and conv: "convertSteps (ctc_Steps tool) = Inr steps"
    and step: "step \<in> set steps" "CHR ''.'' \<notin> set (ws_ID step)" and t: "t \<in> set (tool_templates tool)"
    and run: "executeStep env t0 t1 step st = (None, st')" "map_of (wc_Steps (fst st')) (ws_ID step) = Some r"
      "sr_Status r \<noteq> StepStatusCompleted"
  shows "\<exists>refs. ExtractReferences cenv t = Return refs \<and>
    (\<forall>field suffix. CHR ''.'' \<notin> set field \<and> (suffix = [] \<or> hd suffix = CHR ''.'') \<and>
      ''.steps.'' @ ws_ID step @ ''.output.'' @ field @ suffix \<in> set refs \<longrightarrow>
      (\<exists>output v. sr_Output r = Some output \<and> map_of output field = Some v))"
proof -
  note each = convertSteps_Inr [OF conv]
  obtain k where k: "k < length (ctc_Steps tool)" "step = steps ! k"
    using step(1) list_all2_lengthD [OF each] by (metis in_set_conv_nth)
  obtain j where "convertSingleStep j (ctc_Steps tool ! k) = Inr step" using list_all2_nthD [OF each k(1)] k(2) by blast
  with nth_mem [OF k(1)] obtain cs where cs: "cs \<in> set (ctc_Steps tool)" "convertSingleStep j cs = Inr step" by blast
  note kept = convertSingleStep_Inr [OF cs(2)]
  have shown: "sr_Output r = ws_DefaultResults step" "ws_Condition step \<noteq> '''' \<or> (\<exists>h. ws_OnError step = Some h \<and> eh_ContinueOnError h)"
    using executeStep_shown [of step env t0 t1 st] run by (auto simp: defaults_shown_def)
  then have skip: "wsc_Condition cs \<noteq> '''' \<or> (\<exists>h. wsc_OnError cs = Some h \<and> seh_Action h = ''continue'')"
    using kept(4,5) by (auto simp: convertErrorHandler_def)
  have "CHR ''.'' \<notin> set (wsc_ID cs)" using step(2) kept(3) by simp
  from skippable_fields_have_defaults [OF ok cs(1) skip this t] obtain refs where refs: "ExtractReferences cenv t = Return refs"
      "\<forall>field suffix. CHR ''.'' \<notin> set field \<and> (suffix = [] \<or> hd suffix = CHR ''.'') \<and>
        ''.steps.'' @ wsc_ID cs @ ''.output.'' @ field @ suffix \<in> set refs \<longrightarrow> field \<in> fst ` set (map_value (wsc_DefaultResults cs))"
    by blast
  have "\<exists>output v. sr_Output r = Some output \<and> map_of output field = Some v"
    if "field \<in> fst ` set (map_value (wsc_DefaultResults cs))" for field
    using that shown(1) kept(6) by (cases "wsc_DefaultResults cs") (auto simp: map_value_def dest: weak_map_of_SomeI)
  then show ?thesis using refs kept(3) by (intro exI [of _ refs]) simp
qed

definition skipping_env :: "inMemoryStateStore engine_env" where
  "skipping_env = Workflow_Engine.example_env\<lparr>en_condition := (\<lambda>c ctx. Inr False)\<rparr>"

theorem skipped_step_shows_referenced_fields_witness:
  "\<exists>steps st' r. convertSteps (ctc_Steps (example_tool ''{{.steps.a.output.text}}'' [(''text'', JNull)])) = Inr steps \<and>
     executeStep skipping_env 1 2 (steps ! 0) (example_context, None) = (None, st') \<and>
     map_of (wc_Steps (fst st')) ''a'' = Some r \<and> sr_Status r = StepStatusSkipped \<and>
     (\<exists>output v. sr_Output r = Some output \<and> map_of output ''text'' = Some v)"
proof -
  let ?t = "''{{.steps.a.output.text}}''"
  let ?tool = "example_tool ?t [(''text'', JNull)]" and ?env = Composite_Config.example_env
  define steps where "steps = projr (convertSteps (ctc_Steps ?tool))"
  define st' where "st' = snd (executeStep skipping_env 1 2 (steps ! 0) (example_context, None))"
  define r where "r = the (map_of (wc_Steps (fst st')) ''a'')"
  have ok: "ValidateCompositeToolConfig ?env ''t'' ?tool = Return ()" by code_simp
  have "\<not> isl (convertSteps (ctc_Steps ?tool))" by code_simp
  then have conv: "convertSteps (ctc_Steps ?tool) = Inr steps" unfolding steps_def by (rule sum.collapse(2) [symmetric])
  have "fst (executeStep skipping_env 1 2 (steps ! 0) (example_context, None)) = None" unfolding steps_def by code_simp
  then have run: "executeStep skipping_env 1 2 (steps ! 0) (example_context, None) = (None, st')"
    unfolding st'_def by (simp only: prod_eq_iff fst_conv snd_conv simp_thms)
  have id: "ws_ID (steps ! 0) = ''a''" unfolding steps_def by code_simp
  have "map_of (wc_Steps (fst st')) ''a'' \<noteq> None" unfolding st'_def steps_def by code_simp
  then have r: "map_of (wc_Steps (fst st')) (ws_ID (steps ! 0)) = Some r" unfolding r_def id by (rule option.collapse [symmetric])
  have skipped: "sr_Status r = StepStatusSkipped" unfolding r_def st'_def steps_def by code_simp
  then have "sr_Status r \<noteq> StepStatusCompleted" by simp
  moreover have "0 < length steps" unfolding steps_def by code_simp
  then have "steps ! 0 \<in> set steps" by (rule nth_mem)
  moreover have "CHR ''.'' \<notin> set (ws_ID (steps ! 0))" unfolding id by simp
  moreover have "?t \<in> set (tool_templates ?tool)" by code_simp
  ultimately obtain refs where refs: "ExtractReferences ?env ?t = Return refs"
      "\<forall>field suffix. CHR ''.'' \<notin> set field \<and> (suffix = [] \<or> hd suffix = CHR ''.'') \<and>
        ''.steps.'' @ ws_ID (steps ! 0) @ ''.output.'' @ field @ suffix \<in> set refs \<longrightarrow>
        (\<exists>output v. sr_Output r = Some output \<and> map_of output field = Some v)"
    using skipped_step_shows_referenced_fields [OF ok conv _ _ _ run r] by blast
  have "ExtractReferences ?env ?t = Return [''.steps.a.output.text'']" by code_simp
  then have "refs = [''.steps.a.output.text'']" using refs(1) by simp
  then have "\<exists>output v. sr_Output r = Some output \<and> map_of output ''text'' = Some v"
    using refs(2) [THEN spec, of "''text''", THEN spec, of "[]"] id by simp
  then show ?thesis using conv run r skipped id by metis
qed

end
